(* ===== verification/Prelude.thy ===== *)
theory Prelude
  imports Main "HOL-Library.Word"
begin

text \<open>
  Shared vocabulary of the development: the result type of Go code that may panic or
  call \<^verbatim>\<open>log.Fatalf\<close>, checked slice accesses, the clock and random source a handler
  reads, the hash function of keys, decimal numbers, loops over slices, and the generic lemmas on lists and results that the component theories use.
\<close>

section \<open>Results of Go code\<close>

text \<open>
  A run-time panic and a \<^verbatim>\<open>log.Fatal\<close> both end the process; the model keeps them as
  values, so that a theorem can say that a handler never reaches one.
\<close>

datatype go_error = Panic string | Fatal string

type_synonym 'a go = "go_error + 'a"

definition bind_go :: "'a go \<Rightarrow> ('a \<Rightarrow> 'b go) \<Rightarrow> 'b go" where
  "bind_go m f = (case m of Inl e \<Rightarrow> Inl e | Inr x \<Rightarrow> f x)"

definition returns :: "'a go \<Rightarrow> bool" where
  "returns m = (case m of Inl _ \<Rightarrow> False | Inr _ \<Rightarrow> True)"

named_theorems go_simps \<open>unfolding of the result combinators and checked accesses\<close>

lemma bind_go_Inr [simp, go_simps]: "bind_go (Inr x) f = f x"
  by (simp add: bind_go_def)

lemma bind_go_Inl [simp, go_simps]: "bind_go (Inl e) f = Inl e"
  by (simp add: bind_go_def)

lemma bind_go_eq_Inr:
  "bind_go m f = Inr y \<longleftrightarrow> (\<exists>x. m = Inr x \<and> f x = Inr y)"
  by (cases m) auto

lemma bind_go_InrE [elim!]:
  assumes "bind_go m f = Inr y"
  obtains x where "m = Inr x" and "f x = Inr y"
  using assms by (auto simp: bind_go_eq_Inr)

lemma returns_Inr [simp]: "returns (Inr x)"
  by (simp add: returns_def)

lemma returns_Inl [simp]: "\<not> returns (Inl e)"
  by (simp add: returns_def)

lemma returns_iff: "returns m \<longleftrightarrow> (\<exists>x. m = Inr x)"
  by (cases m) auto

lemma returns_bind:
  "returns (bind_go m f) \<longleftrightarrow> (\<exists>x. m = Inr x \<and> returns (f x))"
  by (cases m) auto

lemma returns_pair: "returns m \<Longrightarrow> m = Inr (fst (projr m), snd (projr m))"
  by (cases m) auto

section \<open>Slices\<close>

text \<open>
  Go's \<^verbatim>\<open>int\<close> indices are HOL integers; an access outside the slice panics.
\<close>

definition go_nth :: "'a list \<Rightarrow> int \<Rightarrow> 'a go" where
  "go_nth xs i = (if 0 \<le> i \<and> i < int (length xs) then Inr (xs ! nat i)
                  else Inl (Panic ''index out of range''))"

definition go_update :: "'a list \<Rightarrow> int \<Rightarrow> 'a \<Rightarrow> 'a list go" where
  "go_update xs i v = (if 0 \<le> i \<and> i < int (length xs) then Inr (xs[nat i := v])
                       else Inl (Panic ''index out of range''))"

definition go_from :: "'a list \<Rightarrow> int \<Rightarrow> 'a list go" where
  "go_from xs i = (if 0 \<le> i \<and> i \<le> int (length xs) then Inr (drop (nat i) xs)
                   else Inl (Panic ''slice bounds out of range''))"

definition go_upto :: "'a list \<Rightarrow> int \<Rightarrow> 'a list go" where
  "go_upto xs i = (if 0 \<le> i \<and> i \<le> int (length xs) then Inr (take (nat i) xs)
                   else Inl (Panic ''slice bounds out of range''))"

lemma go_nth_Inr [go_simps]:
  "0 \<le> i \<Longrightarrow> i < int (length xs) \<Longrightarrow> go_nth xs i = Inr (xs ! nat i)"
  by (simp add: go_nth_def)

lemma go_nth_eq_Inr:
  "go_nth xs i = Inr x \<longleftrightarrow> 0 \<le> i \<and> i < int (length xs) \<and> x = xs ! nat i"
  by (auto simp: go_nth_def)

lemma go_update_Inr [go_simps]:
  "0 \<le> i \<Longrightarrow> i < int (length xs) \<Longrightarrow> go_update xs i v = Inr (xs[nat i := v])"
  by (simp add: go_update_def)

lemma go_update_eq_Inr:
  "go_update xs i v = Inr ys \<longleftrightarrow> 0 \<le> i \<and> i < int (length xs) \<and> ys = xs[nat i := v]"
  by (auto simp: go_update_def)

lemma go_from_Inr [go_simps]:
  "0 \<le> i \<Longrightarrow> i \<le> int (length xs) \<Longrightarrow> go_from xs i = Inr (drop (nat i) xs)"
  by (simp add: go_from_def)

lemma go_from_eq_Inr:
  "go_from xs i = Inr ys \<longleftrightarrow> 0 \<le> i \<and> i \<le> int (length xs) \<and> ys = drop (nat i) xs"
  by (auto simp: go_from_def)

lemma go_upto_Inr [go_simps]:
  "0 \<le> i \<Longrightarrow> i \<le> int (length xs) \<Longrightarrow> go_upto xs i = Inr (take (nat i) xs)"
  by (simp add: go_upto_def)

lemma go_upto_eq_Inr:
  "go_upto xs i = Inr ys \<longleftrightarrow> 0 \<le> i \<and> i \<le> int (length xs) \<and> ys = take (nat i) xs"
  by (auto simp: go_upto_def)

lemmas go_access_iff = go_nth_eq_Inr go_update_eq_Inr go_from_eq_Inr go_upto_eq_Inr

lemma map_update_same: "f x = f (xs ! i) \<Longrightarrow> map f (xs[i := x]) = map f xs"
  by (metis list_update_id map_update)

section \<open>The clock and the random source\<close>

text \<open>
  \<^verbatim>\<open>time.Now()\<close> in milliseconds and one draw of \<^verbatim>\<open>rand.Int63()\<close>, as a handler sees
  them: every handler that reads the clock takes a \<open>clock\<close> argument.
\<close>

record clock =
  now :: int
  rnd :: nat

section \<open>Hashing\<close>

text \<open>FNV-1a with 32 bits, as in \<^verbatim>\<open>hash/fnv\<close>: the multiplication wraps around.\<close>

definition fnv32a :: "string \<Rightarrow> 32 word" where
  "fnv32a key = foldl (\<lambda>h c. xor h (of_char c) * 16777619) 2166136261 key"

section \<open>Decimal numbers\<close>

text \<open>\<^verbatim>\<open>strconv.Itoa\<close> on numbers that are not negative, and on all.\<close>

fun itoa :: "nat \<Rightarrow> string" where
  "itoa n = (if n < 10 then [char_of (48 + n)] else itoa (n div 10) @ [char_of (48 + n mod 10)])"

declare itoa.simps [simp del]

definition Itoa :: "int \<Rightarrow> string" where
  "Itoa i = (if i < 0 then ''-'' @ itoa (nat (- i)) else itoa (nat i))"

definition digits_value :: "string \<Rightarrow> nat" where
  "digits_value ds = foldl (\<lambda>a c. 10 * a + (of_char c - 48)) 0 ds"

lemma digits_value_itoa: "digits_value (itoa n) = n"
proof (induction n rule: itoa.induct)
  case (1 n)
  then show ?case
    by (cases "n < 10") (simp_all add: itoa.simps [of n] digits_value_def)
qed

lemma itoa_inject [simp]: "itoa m = itoa n \<longleftrightarrow> m = n"
  by (metis digits_value_itoa)

section \<open>Loops over slices\<close>

fun fold_go :: "('a \<Rightarrow> 's \<Rightarrow> 's go) \<Rightarrow> 'a list \<Rightarrow> 's \<Rightarrow> 's go" where
  "fold_go f [] s = Inr s"
| "fold_go f (x # xs) s = bind_go (f x s) (fold_go f xs)"

lemma fold_go_append: "fold_go f (xs @ ys) s = bind_go (fold_go f xs s) (fold_go f ys)"
proof (induction xs arbitrary: s)
  case (Cons x xs)
  then show ?case by (cases "f x s") simp_all
qed simp

text \<open>A loop whose body returns and keeps an invariant returns and keeps it.\<close>

lemma fold_go_total:
  assumes "P s" and "\<And>x s. x \<in> set xs \<Longrightarrow> P s \<Longrightarrow> \<exists>s'. f x s = Inr s' \<and> P s'"
  shows "\<exists>s'. fold_go f xs s = Inr s' \<and> P s'"
  using assms
proof (induction xs arbitrary: s)
  case (Cons x xs)
  from Cons.prems(2) [of x s] Cons.prems(1) obtain s' where "f x s = Inr s'" "P s'" by auto
  with Cons.IH [of s'] Cons.prems(2) show ?case by auto
qed simp

lemma fold_go_keeps:
  assumes "fold_go f xs s = Inr s'" and "P s"
    and "\<And>x s s'. x \<in> set xs \<Longrightarrow> f x s = Inr s' \<Longrightarrow> P s \<Longrightarrow> P s'"
  shows "P s'"
  using assms
proof (induction xs arbitrary: s)
  case (Cons x xs)
  from Cons.prems(1) obtain t where "f x s = Inr t" "fold_go f xs t = Inr s'" by auto
  with Cons show ?case by (metis list.set_intros)
qed simp

text \<open>A loop that has visited \<open>D\<close> on arrival visits the rest of the slice.\<close>

lemma fold_go_visits:
  assumes "P D s"
    and "\<And>x D s. x \<in> set xs \<Longrightarrow> P D s \<Longrightarrow> \<exists>s'. f x s = Inr s' \<and> P (insert x D) s'"
  shows "\<exists>s'. fold_go f xs s = Inr s' \<and> P (D \<union> set xs) s'"
  using assms
proof (induction xs arbitrary: s D)
  case (Cons x xs)
  from Cons.prems(2) [of x D s] Cons.prems(1)
  obtain s' where s': "f x s = Inr s'" "P (insert x D) s'" by auto
  from Cons.IH [OF s'(2)] Cons.prems(2) s'(1) show ?case by auto
qed simp

end
