(* ===== verification/Persistence.thy ===== *)
theory Persistence
  imports Prelude
begin

text \<open>
  \<^verbatim>\<open>tester1/persister.go\<close>: the stable storage of one server. A byte slice written by
  labgob is kept as the list of the values that were encoded into it, in order: gob
  streams are self-describing, so this is what a decoder can observe. The empty list is
  the empty (or nil) slice. The number of bytes of a stream is a parameter (\<open>nbytes\<close>),
  because gob's byte format is not part of this repository.
\<close>

record ('r, 's) Persister =
  raftstate :: "'r list"
  p_snapshot :: "'s list"

definition MakePersister :: "('r, 's) Persister" where
  "MakePersister = \<lparr>raftstate = [], p_snapshot = []\<rparr>"

text \<open>A slice is a value here: the copy has the same elements.\<close>

definition clone :: "'a list \<Rightarrow> 'a list" where
  "clone orig = orig"

definition Checkpoint :: "('r, 's) Persister \<Rightarrow> ('r, 's) Persister" where
  "Checkpoint ps = MakePersister\<lparr>raftstate := clone (raftstate ps), p_snapshot := clone (p_snapshot ps)\<rparr>"

definition ReadRaftState :: "('r, 's) Persister \<Rightarrow> 'r list" where
  "ReadRaftState ps = clone (raftstate ps)"

definition RaftStateSize :: "('r list \<Rightarrow> int) \<Rightarrow> ('r, 's) Persister \<Rightarrow> int" where
  "RaftStateSize nbytes ps = nbytes (raftstate ps)"

definition Save :: "'r list \<Rightarrow> 's list \<Rightarrow> ('r, 's) Persister \<Rightarrow> ('r, 's) Persister" where
  "Save state snap ps = ps\<lparr>raftstate := clone state, p_snapshot := clone snap\<rparr>"

definition ReadSnapshot :: "('r, 's) Persister \<Rightarrow> 's list" where
  "ReadSnapshot ps = clone (p_snapshot ps)"

definition SnapshotSize :: "('s list \<Rightarrow> int) \<Rightarrow> ('r, 's) Persister \<Rightarrow> int" where
  "SnapshotSize nbytes ps = nbytes (p_snapshot ps)"

named_theorems persister_simps \<open>reads of the persister after a Save or a Checkpoint\<close>

lemma ReadRaftState_Save [simp, persister_simps]: "ReadRaftState (Save r s ps) = r"
  by (simp add: ReadRaftState_def Save_def clone_def)

lemma ReadSnapshot_Save [simp, persister_simps]: "ReadSnapshot (Save r s ps) = s"
  by (simp add: ReadSnapshot_def Save_def clone_def)

lemma Checkpoint_same [simp, persister_simps]: "Checkpoint (ps :: ('r, 's) Persister) = ps"
  by (cases ps) (simp add: Checkpoint_def MakePersister_def clone_def)

end
