(* ===== verification/RaftPeer.thy ===== *)
theory RaftPeer
  imports Persistence
begin

text \<open>
  One Raft peer, \<^verbatim>\<open>raft1/raft.go\<close> and \<^verbatim>\<open>raftapi/raftapi.go\<close>: its state, its RPC handlers,
  the processing of RPC replies and one iteration of each of its background goroutines.
  Every handler holds \<^verbatim>\<open>rf.mu\<close> from its first to its last access, so it is one atomic
  function on the peer's state. Commands are values of type \<open>'c\<close> (\<^verbatim>\<open>interface{}\<close>; \<open>None\<close>
  is nil), snapshots are gob streams over \<open>'s\<close>.
\<close>

section \<open>Data\<close>

record 'c LogEntry =
  le_Term :: int
  le_Command :: "'c option"

datatype RaftState = RaftLeader | RaftCandidate | RaftFollower

text \<open>The loops a peer starts with a \<^verbatim>\<open>go\<close> statement and that outlive the starting call.\<close>

datatype goroutine = Ticker | HeartBeat | Commit | Apply

text \<open>What \<^verbatim>\<open>persist\<close> encodes: integers and one log.\<close>

datatype 'c rgob = GInt int | GLogs "'c LogEntry list"

record ('c, 's) ApplyMsg =
  am_CommandValid :: bool
  am_Command :: "'c option"
  am_CommandIndex :: int
  am_SnapshotValid :: bool
  am_Snapshot :: "'s list"
  am_SnapshotTerm :: int
  am_SnapshotIndex :: int

record ('c, 's) Raft =
  npeers :: nat
  persister :: "('c rgob, 's) Persister"
  me :: int
  raftState :: RaftState
  currentTerm :: int
  voteFor :: int
  logs :: "'c LogEntry list"
  commitIndex :: int
  lastApplied :: int
  nextIndex :: "int list"
  matchIndex :: "int list"
  electionTimerStart :: int
  timeout :: int
  gotVotes :: int
  leaderID :: int
  snapshotIndex :: int
  snapshot :: "'s list"
  newEntryCh :: bool
  goroutines :: "goroutine list"

record RequestVoteArgs =
  rv_Term :: int
  rv_CandidateId :: int
  rv_LastLogIndex :: int
  rv_LastLogTerm :: int

record RequestVoteReply =
  rvr_Term :: int
  rvr_VoteGranted :: bool

record 'c AppendEntriesArgs =
  ae_Term :: int
  ae_LeaderID :: int
  ae_PrevLogIndex :: int
  ae_PrevLogTerm :: int
  ae_Entries :: "'c LogEntry list"
  ae_LeaderCommit :: int

record AppendEntriesReply =
  aer_Term :: int
  aer_Success :: bool
  aer_XTerm :: int
  aer_XIndex :: int
  aer_XLen :: int

record 's InstallSnapshotArgs =
  is_Term :: int
  is_LeaderID :: int
  is_LastIncludedIndex :: int
  is_LastIncludedTerm :: int
  is_Offset :: int
  is_Data :: "'s list"
  is_Done :: bool

record InstallSnapshotReply =
  isr_Term :: int

definition AppendEntriesReply0 :: AppendEntriesReply where
  "AppendEntriesReply0 = \<lparr>aer_Term = 0, aer_Success = False, aer_XTerm = 0, aer_XIndex = 0, aer_XLen = 0\<rparr>"

definition RequestVoteReply0 :: RequestVoteReply where
  "RequestVoteReply0 = \<lparr>rvr_Term = 0, rvr_VoteGranted = False\<rparr>"

section \<open>Log access\<close>

definition GetLastLogIndex :: "('c, 's) Raft \<Rightarrow> int" where
  "GetLastLogIndex rf = int (length (logs rf)) - 1 + snapshotIndex rf"

definition GetLastLogTerm :: "('c, 's) Raft \<Rightarrow> int go" where
  "GetLastLogTerm rf = bind_go (go_nth (logs rf) (int (length (logs rf)) - 1)) (\<lambda>e. Inr (le_Term e))"

definition index :: "('c, 's) Raft \<Rightarrow> int \<Rightarrow> int" where
  "index rf i = i - snapshotIndex rf"

definition log_at :: "('c, 's) Raft \<Rightarrow> int \<Rightarrow> 'c LogEntry go" where
  "log_at rf i = go_nth (logs rf) (index rf i)"

section \<open>Persistence\<close>

definition persist :: "('c, 's) Raft \<Rightarrow> ('c, 's) Raft" where
  "persist rf = rf\<lparr>persister :=
     Save [GInt (currentTerm rf), GInt (voteFor rf), GLogs (logs rf), GInt (snapshotIndex rf)]
       (snapshot rf) (persister rf)\<rparr>"

fun Decode_int :: "'c rgob list \<Rightarrow> (int \<times> 'c rgob list) option" where
  "Decode_int (GInt n # r) = Some (n, r)"
| "Decode_int _ = None"

fun Decode_logs :: "'c rgob list \<Rightarrow> ('c LogEntry list \<times> 'c rgob list) option" where
  "Decode_logs (GLogs l # r) = Some (l, r)"
| "Decode_logs _ = None"

definition readPersist :: "'c rgob list \<Rightarrow> ('c, 's) Raft \<Rightarrow> ('c, 's) Raft" where
  "readPersist data rf =
     (if length data < 1 then rf
      else case Decode_int data of None \<Rightarrow> rf | Some (term, data1) \<Rightarrow>
           case Decode_int data1 of None \<Rightarrow> rf | Some (vote, data2) \<Rightarrow>
           case Decode_logs data2 of None \<Rightarrow> rf | Some (l, data3) \<Rightarrow>
           case Decode_int data3 of None \<Rightarrow> rf | Some (si, _) \<Rightarrow>
             rf\<lparr>currentTerm := term, voteFor := vote, logs := l, snapshotIndex := si\<rparr>)"

definition PersistBytes :: "('c rgob list \<Rightarrow> int) \<Rightarrow> ('c, 's) Raft \<Rightarrow> int" where
  "PersistBytes nbytes rf = RaftStateSize nbytes (persister rf)"

section \<open>State changes shared by the handlers\<close>

definition spawn :: "goroutine \<Rightarrow> ('c, 's) Raft \<Rightarrow> ('c, 's) Raft" where
  "spawn g rf = rf\<lparr>goroutines := goroutines rf @ [g]\<rparr>"

definition updateTermAndBecomeFollower :: "int \<Rightarrow> ('c, 's) Raft \<Rightarrow> ('c, 's) Raft" where
  "updateTermAndBecomeFollower t rf =
     (let rf1 = rf\<lparr>currentTerm := t\<rparr>;
          rf2 = (if raftState rf1 = RaftLeader then spawn Ticker rf1 else rf1);
          rf3 = rf2\<lparr>raftState := RaftFollower, leaderID := - 1, voteFor := - 1\<rparr>
      in (persist rf3)\<lparr>gotVotes := 0\<rparr>)"

definition GetState :: "('c, 's) Raft \<Rightarrow> int \<times> bool" where
  "GetState rf = (currentTerm rf, raftState rf = RaftLeader)"

definition GetLeader :: "('c, 's) Raft \<Rightarrow> int" where
  "GetLeader rf = leaderID rf"

definition resetElectionTimer :: "clock \<Rightarrow> ('c, 's) Raft \<Rightarrow> ('c, 's) Raft" where
  "resetElectionTimer clk rf =
     rf\<lparr>electionTimerStart := now clk, timeout := 400 + int (rnd clk) mod 300\<rparr>"

definition Snapshot :: "int \<Rightarrow> 's list \<Rightarrow> ('c, 's) Raft \<Rightarrow> ('c, 's) Raft go" where
  "Snapshot i snap rf =
     (if i < snapshotIndex rf then Inr rf
      else if GetLastLogIndex rf < i then Inl (Fatal ''snapshot contains logs exceed the boundary'')
      else bind_go (go_from (logs rf) (index rf i)) (\<lambda>l.
             Inr (persist (rf\<lparr>logs := l, snapshotIndex := i, snapshot := snap\<rparr>))))"

section \<open>AppendEntries\<close>

text \<open>
  The back-off loop: from \<^verbatim>\<open>PrevLogIndex\<close> down while the entry is above the snapshot and
  has the conflicting term.
\<close>

function back_off :: "('c, 's) Raft \<Rightarrow> int \<Rightarrow> int \<Rightarrow> int go" where
  "back_off rf t i =
     (if snapshotIndex rf < i
      then (case log_at rf i of Inl e \<Rightarrow> Inl e
            | Inr en \<Rightarrow> if le_Term en = t then back_off rf t (i - 1) else Inr i)
      else Inr i)"
  by pat_completeness auto
termination
  by (relation "measure (\<lambda>(rf, t, i). nat (i - snapshotIndex rf))") auto

declare back_off.simps [simp del]

text \<open>
  The scan past the entries that are already in the local log: it returns the local index
  where it stopped and the entries that are left (\<^verbatim>\<open>args.Entries[entriesIndex:]\<close>).
\<close>

fun skip_matching :: "('c, 's) Raft \<Rightarrow> int \<Rightarrow> 'c LogEntry list \<Rightarrow> (int \<times> 'c LogEntry list) go" where
  "skip_matching rf li [] = Inr (li, [])"
| "skip_matching rf li (e # es) =
     (if li \<le> GetLastLogIndex rf
      then bind_go (log_at rf li) (\<lambda>x.
             if le_Term x = le_Term e then skip_matching rf (li + 1) es else Inr (li, e # es))
      else Inr (li, e # es))"

definition AE_conflict :: "'c AppendEntriesArgs \<Rightarrow> AppendEntriesReply \<Rightarrow> ('c, 's) Raft \<Rightarrow> AppendEntriesReply go" where
  "AE_conflict args reply rf =
     bind_go (log_at rf (ae_PrevLogIndex args)) (\<lambda>p.
     bind_go (back_off rf (le_Term p) (ae_PrevLogIndex args)) (\<lambda>x.
       Inr (if x = snapshotIndex rf
            then reply\<lparr>aer_XLen := snapshotIndex rf + 1, aer_XIndex := - 1, aer_XTerm := - 1\<rparr>
            else reply\<lparr>aer_XTerm := le_Term p, aer_XIndex := x + 1, aer_XLen := - 1\<rparr>)))"

definition AE_append :: "'c AppendEntriesArgs \<Rightarrow> ('c, 's) Raft \<Rightarrow> ('c, 's) Raft go" where
  "AE_append args rf =
     bind_go (skip_matching rf (ae_PrevLogIndex args + 1) (ae_Entries args)) (\<lambda>(li, rest).
     bind_go (if rest = [] then Inr rf
              else bind_go (go_upto (logs rf) (index rf li)) (\<lambda>l. Inr (rf\<lparr>logs := l @ rest\<rparr>))) (\<lambda>rf1.
       let rf2 = (if commitIndex rf1 < ae_LeaderCommit args
                  then rf1\<lparr>commitIndex := min (ae_LeaderCommit args) (GetLastLogIndex rf1)\<rparr>
                  else rf1)
       in Inr (persist rf2)))"

definition AE_follow :: "clock \<Rightarrow> 'c AppendEntriesArgs \<Rightarrow> ('c, 's) Raft \<Rightarrow> ('c, 's) Raft" where
  "AE_follow clk args rf =
     (let rf1 = resetElectionTimer clk rf;
          rf2 = (if currentTerm rf1 < ae_Term args \<or> raftState rf1 \<noteq> RaftFollower
                 then updateTermAndBecomeFollower (ae_Term args) rf1 else rf1)
      in rf2\<lparr>leaderID := ae_LeaderID args\<rparr>)"

definition AppendEntries :: "clock \<Rightarrow> 'c AppendEntriesArgs \<Rightarrow> ('c, 's) Raft \<Rightarrow>
    (('c, 's) Raft \<times> AppendEntriesReply) go" where
  "AppendEntries clk args rf0 =
     (let reply = AppendEntriesReply0\<lparr>aer_Term := currentTerm rf0\<rparr> in
      if ae_Term args < currentTerm rf0 then Inr (rf0, reply\<lparr>aer_Success := False\<rparr>)
      else let rf = AE_follow clk args rf0 in
        if ae_PrevLogIndex args < snapshotIndex rf
        then Inr (rf, reply\<lparr>aer_Success := False, aer_XLen := snapshotIndex rf + 1,
                            aer_XIndex := - 1, aer_XTerm := - 1\<rparr>)
        else if GetLastLogIndex rf < ae_PrevLogIndex args
        then Inr (rf, reply\<lparr>aer_Success := False, aer_XLen := int (length (logs rf)) + snapshotIndex rf,
                            aer_XIndex := - 1, aer_XTerm := - 1\<rparr>)
        else bind_go (log_at rf (ae_PrevLogIndex args)) (\<lambda>p.
          if ae_PrevLogTerm args \<noteq> le_Term p
          then bind_go (AE_conflict args (reply\<lparr>aer_Success := False\<rparr>) rf) (\<lambda>r. Inr (rf, r))
          else bind_go (AE_append args rf) (\<lambda>rf1. Inr (rf1, reply\<lparr>aer_Success := True\<rparr>))))"

section \<open>RequestVote\<close>

definition grant :: "clock \<Rightarrow> RequestVoteArgs \<Rightarrow> ('c, 's) Raft \<Rightarrow> ('c, 's) Raft" where
  "grant clk args rf = persist (resetElectionTimer clk (rf\<lparr>voteFor := rv_CandidateId args\<rparr>))"

definition RequestVote :: "clock \<Rightarrow> RequestVoteArgs \<Rightarrow> ('c, 's) Raft \<Rightarrow>
    (('c, 's) Raft \<times> RequestVoteReply) go" where
  "RequestVote clk args rf0 =
     (if rv_Term args < currentTerm rf0
      then Inr (rf0, RequestVoteReply0\<lparr>rvr_Term := currentTerm rf0, rvr_VoteGranted := False\<rparr>)
      else
        let rf = (if currentTerm rf0 < rv_Term args
                  then updateTermAndBecomeFollower (rv_Term args) rf0 else rf0);
            reply = RequestVoteReply0\<lparr>rvr_Term := currentTerm rf\<rparr> in
        if voteFor rf \<noteq> - 1 \<and> voteFor rf \<noteq> rv_CandidateId args
        then Inr (rf, reply\<lparr>rvr_VoteGranted := False\<rparr>)
        else if voteFor rf = rv_CandidateId args
        then Inr (rf, reply\<lparr>rvr_VoteGranted := True\<rparr>)
        else bind_go (GetLastLogTerm rf) (\<lambda>t.
          if t < rv_LastLogTerm args
          then Inr (grant clk args rf, reply\<lparr>rvr_VoteGranted := True\<rparr>)
          else if rv_LastLogTerm args < t
          then Inr (rf, reply\<lparr>rvr_VoteGranted := False\<rparr>)
          else if GetLastLogIndex rf \<le> rv_LastLogIndex args
          then Inr (grant clk args rf, reply\<lparr>rvr_VoteGranted := True\<rparr>)
          else Inr (rf, reply\<lparr>rvr_VoteGranted := False\<rparr>)))"

section \<open>InstallSnapshot\<close>

definition IS_logs :: "'s InstallSnapshotArgs \<Rightarrow> ('c, 's) Raft \<Rightarrow> 'c LogEntry list go" where
  "IS_logs args rf =
     (if is_LastIncludedIndex args < GetLastLogIndex rf
      then bind_go (go_from (logs rf) (index rf (is_LastIncludedIndex args + 1))) (\<lambda>l.
             Inr (\<lparr>le_Term = is_LastIncludedTerm args, le_Command = None\<rparr> # l))
      else Inr [\<lparr>le_Term = is_LastIncludedTerm args, le_Command = None\<rparr>])"

definition snapshotMsg :: "'s InstallSnapshotArgs \<Rightarrow> ('c, 's) ApplyMsg" where
  "snapshotMsg args = \<lparr>am_CommandValid = False, am_Command = None, am_CommandIndex = 0,
     am_SnapshotValid = True, am_Snapshot = is_Data args, am_SnapshotTerm = is_LastIncludedTerm args,
     am_SnapshotIndex = is_LastIncludedIndex args\<rparr>"

text \<open>The third component holds what the handler sends on \<^verbatim>\<open>applyCh\<close> before it returns.\<close>

definition InstallSnapshot :: "clock \<Rightarrow> 's InstallSnapshotArgs \<Rightarrow> ('c, 's) Raft \<Rightarrow>
    (('c, 's) Raft \<times> InstallSnapshotReply \<times> ('c, 's) ApplyMsg list) go" where
  "InstallSnapshot clk args rf0 =
     (if is_Term args < currentTerm rf0 then Inr (rf0, \<lparr>isr_Term = currentTerm rf0\<rparr>, [])
      else
        let rf1 = (if currentTerm rf0 < is_Term args
                   then updateTermAndBecomeFollower (is_Term args) rf0 else rf0);
            reply = \<lparr>isr_Term = currentTerm rf1\<rparr>;
            rf = (resetElectionTimer clk rf1)\<lparr>leaderID := is_LeaderID args\<rparr> in
        if is_LastIncludedIndex args \<le> snapshotIndex rf then Inr (rf, reply, [])
        else bind_go (IS_logs args rf) (\<lambda>l.
          let rf2 = rf\<lparr>logs := l, snapshot := is_Data args, snapshotIndex := is_LastIncludedIndex args\<rparr>;
              rf3 = (if commitIndex rf2 < is_LastIncludedIndex args
                     then rf2\<lparr>commitIndex := is_LastIncludedIndex args\<rparr> else rf2);
              rf4 = (if lastApplied rf3 < is_LastIncludedIndex args
                     then rf3\<lparr>lastApplied := is_LastIncludedIndex args\<rparr> else rf3)
          in Inr (persist rf4, reply, [snapshotMsg args])))"

section \<open>Elections and replies\<close>

definition becomeLeader :: "clock \<Rightarrow> ('c, 's) Raft \<Rightarrow> ('c, 's) Raft go" where
  "becomeLeader clk rf0 =
     (if gotVotes rf0 \<le> int (npeers rf0 div 2)
      then Inl (Fatal ''become leader with votes less than majority'')
      else if raftState rf0 \<noteq> RaftCandidate
      then Inl (Fatal ''not a candidate becomes a leader'')
      else
        let rf1 = resetElectionTimer clk rf0;
            rf2 = rf1\<lparr>gotVotes := 0, raftState := RaftLeader, voteFor := - 1, leaderID := me rf1\<rparr>;
            rf3 = persist rf2;
            rf4 = rf3\<lparr>nextIndex := replicate (npeers rf3) (GetLastLogIndex rf3 + 1)\<rparr> in
        bind_go (go_update (replicate (npeers rf4) 0) (me rf4) (GetLastLogIndex rf4)) (\<lambda>m.
          Inr (spawn Commit (spawn HeartBeat (rf4\<lparr>matchIndex := m\<rparr>)))))"

text \<open>The peers a message goes to: every index but \<^verbatim>\<open>rf.me\<close>.\<close>

definition others :: "('c, 's) Raft \<Rightarrow> int list" where
  "others rf = filter (\<lambda>i. i \<noteq> me rf) (map int [0..<npeers rf])"

definition startAElection :: "('c, 's) Raft \<Rightarrow> (('c, 's) Raft \<times> (int \<times> RequestVoteArgs) list) go" where
  "startAElection rf0 =
     (if raftState rf0 = RaftLeader then Inr (rf0, [])
      else
        let rf1 = rf0\<lparr>currentTerm := currentTerm rf0 + 1, raftState := RaftCandidate,
                      gotVotes := 1, voteFor := me rf0\<rparr>;
            rf = persist rf1 in
        bind_go (GetLastLogTerm rf) (\<lambda>t.
          let args = \<lparr>rv_Term = currentTerm rf, rv_CandidateId = me rf,
                      rv_LastLogIndex = GetLastLogIndex rf, rv_LastLogTerm = t\<rparr>
          in Inr (rf, map (\<lambda>i. (i, args)) (others rf))))"

text \<open>
  \<^verbatim>\<open>sendRequestVote\<close> makes at most three calls; \<open>Call k\<close> is the reply of the \<open>k\<close>-th one,
  \<open>None\<close> when it fails. The peer's state is the one found when the lock is taken after
  the last call.
\<close>

fun resend :: "nat \<Rightarrow> nat \<Rightarrow> (nat \<Rightarrow> 'r option) \<Rightarrow> 'r option" where
  "resend 0 k Call = None"
| "resend (Suc n) k Call = (case Call k of Some r \<Rightarrow> Some r | None \<Rightarrow> resend n (Suc k) Call)"

definition sendRequestVote :: "clock \<Rightarrow> (nat \<Rightarrow> RequestVoteReply option) \<Rightarrow> RequestVoteArgs \<Rightarrow>
    ('c, 's) Raft \<Rightarrow> ('c, 's) Raft go" where
  "sendRequestVote clk Call args rf =
     (case resend 3 0 Call of
        None \<Rightarrow> Inr rf
      | Some reply \<Rightarrow>
          if rv_Term args < currentTerm rf then Inr rf
          else if rvr_Term reply < currentTerm rf then Inr rf
          else if currentTerm rf < rvr_Term reply
          then Inr (updateTermAndBecomeFollower (rvr_Term reply) rf)
          else if raftState rf = RaftCandidate \<and> rvr_VoteGranted reply \<and> 0 < gotVotes rf
          then let rf1 = rf\<lparr>gotVotes := gotVotes rf + 1\<rparr> in
               if int (npeers rf1 div 2) < gotVotes rf1 then becomeLeader clk rf1 else Inr rf1
          else Inr rf)"

function scan_term :: "('c, 's) Raft \<Rightarrow> int \<Rightarrow> int \<Rightarrow> int go" where
  "scan_term rf t i =
     (if snapshotIndex rf < i
      then (case log_at rf i of Inl e \<Rightarrow> Inl e
            | Inr en \<Rightarrow> if le_Term en = t then Inr i else scan_term rf t (i - 1))
      else Inr 0)"
  by pat_completeness auto
termination
  by (relation "measure (\<lambda>(rf, t, i). nat (i - snapshotIndex rf))") auto

declare scan_term.simps [simp del]

definition lastIndexForTerm :: "('c, 's) Raft \<Rightarrow> int \<Rightarrow> int go" where
  "lastIndexForTerm rf t = scan_term rf t (GetLastLogIndex rf)"

definition sendAppendEntries :: "int \<Rightarrow> AppendEntriesReply option \<Rightarrow> 'c AppendEntriesArgs \<Rightarrow>
    ('c, 's) Raft \<Rightarrow> ('c, 's) Raft go" where
  "sendAppendEntries server Call args rf =
     (case Call of
        None \<Rightarrow> Inr rf
      | Some reply \<Rightarrow>
          let matchIndexShouldBe = ae_PrevLogIndex args + int (length (ae_Entries args));
              nextIndexShouldBe = matchIndexShouldBe + 1 in
          if ae_Term args < currentTerm rf then Inr rf
          else if aer_Term reply < currentTerm rf then Inr rf
          else if currentTerm rf < aer_Term reply
          then Inr (updateTermAndBecomeFollower (aer_Term reply) rf)
          else if aer_Success reply
          then bind_go (go_nth (nextIndex rf) server) (\<lambda>n.
               bind_go (go_update (nextIndex rf) server (max n nextIndexShouldBe)) (\<lambda>ns.
               bind_go (go_nth (matchIndex rf) server) (\<lambda>m.
               bind_go (go_update (matchIndex rf) server (max m matchIndexShouldBe)) (\<lambda>ms.
                 Inr (rf\<lparr>nextIndex := ns, matchIndex := ms\<rparr>)))))
          else if aer_XLen reply \<noteq> - 1
          then bind_go (go_update (nextIndex rf) server (aer_XLen reply)) (\<lambda>ns.
                 Inr (rf\<lparr>nextIndex := ns\<rparr>))
          else if aer_XIndex reply \<noteq> - 1
          then bind_go (lastIndexForTerm rf (aer_XTerm reply)) (\<lambda>i.
               bind_go (go_update (nextIndex rf) server
                          (if i = 0 then aer_XIndex reply else i + 1)) (\<lambda>ns.
                 Inr (rf\<lparr>nextIndex := ns\<rparr>)))
          else bind_go (go_nth (nextIndex rf) server) (\<lambda>_. Inr rf))"

definition sendInstallSnapshot :: "int \<Rightarrow> InstallSnapshotReply option \<Rightarrow> 's InstallSnapshotArgs \<Rightarrow>
    ('c, 's) Raft \<Rightarrow> ('c, 's) Raft go" where
  "sendInstallSnapshot server Call args rf =
     (case Call of
        None \<Rightarrow> Inr rf
      | Some reply \<Rightarrow>
          if is_Term args < currentTerm rf then Inr rf
          else if isr_Term reply < currentTerm rf then Inr rf
          else if currentTerm rf < isr_Term reply
          then Inr (updateTermAndBecomeFollower (isr_Term reply) rf)
          else bind_go (go_nth (matchIndex rf) server) (\<lambda>m.
               bind_go (go_update (matchIndex rf) server (max m (is_LastIncludedIndex args))) (\<lambda>ms.
               bind_go (go_nth (nextIndex rf) server) (\<lambda>n.
               bind_go (go_update (nextIndex rf) server (max n (is_LastIncludedIndex args + 1))) (\<lambda>ns.
                 Inr (rf\<lparr>nextIndex := ns, matchIndex := ms\<rparr>))))))"

section \<open>The service interface\<close>

definition Start :: "'c \<Rightarrow> ('c, 's) Raft \<Rightarrow> ('c, 's) Raft \<times> int \<times> int \<times> bool" where
  "Start command rf =
     (if raftState rf \<noteq> RaftLeader then (rf, 0, 0, False)
      else
        let rf1 = rf\<lparr>logs := logs rf @ [\<lparr>le_Term = currentTerm rf, le_Command = Some command\<rparr>]\<rparr>;
            rf2 = (persist rf1)\<lparr>newEntryCh := True\<rparr>
        in (rf2, GetLastLogIndex rf2, currentTerm rf2, True))"

section \<open>The background loops, one iteration each\<close>

definition ticker_start :: "clock \<Rightarrow> ('c, 's) Raft \<Rightarrow> ('c, 's) Raft" where
  "ticker_start clk rf = resetElectionTimer clk rf"

definition ticker :: "clock \<Rightarrow> ('c, 's) Raft \<Rightarrow> (('c, 's) Raft \<times> (int \<times> RequestVoteArgs) list) go" where
  "ticker clk rf =
     (if raftState rf = RaftLeader then Inr (rf\<lparr>goroutines := remove1 Ticker (goroutines rf)\<rparr>, [])
      else if timeout rf < now clk - electionTimerStart rf
      then bind_go (startAElection rf) (\<lambda>(rf1, msgs). Inr (resetElectionTimer clk rf1, msgs))
      else Inr (rf, []))"

datatype ('c, 's) leaderRPC = AERpc "'c AppendEntriesArgs" | ISRpc "'s InstallSnapshotArgs"

definition heartBeat_msg :: "('c, 's) Raft \<Rightarrow> int \<Rightarrow> ('c, 's) leaderRPC go" where
  "heartBeat_msg rf n =
     (if n \<le> snapshotIndex rf
      then bind_go (go_nth (logs rf) 0) (\<lambda>e.
             Inr (ISRpc \<lparr>is_Term = currentTerm rf, is_LeaderID = me rf,
                         is_LastIncludedIndex = snapshotIndex rf, is_LastIncludedTerm = le_Term e,
                         is_Offset = 0, is_Data = snapshot rf, is_Done = True\<rparr>))
      else bind_go (log_at rf (n - 1)) (\<lambda>p.
           bind_go (go_from (logs rf) (index rf n)) (\<lambda>es.
             Inr (AERpc \<lparr>ae_Term = currentTerm rf, ae_LeaderID = me rf, ae_PrevLogIndex = n - 1,
                         ae_PrevLogTerm = le_Term p, ae_Entries = es,
                         ae_LeaderCommit = commitIndex rf\<rparr>))))"

fun heartBeat_msgs :: "('c, 's) Raft \<Rightarrow> int \<Rightarrow> int list \<Rightarrow> (int \<times> ('c, 's) leaderRPC) list go" where
  "heartBeat_msgs rf i [] = Inr []"
| "heartBeat_msgs rf i (n # ns) =
     (if i = me rf then heartBeat_msgs rf (i + 1) ns
      else bind_go (heartBeat_msg rf n) (\<lambda>m.
           bind_go (heartBeat_msgs rf (i + 1) ns) (\<lambda>ms. Inr ((i, m) # ms))))"

text \<open>\<open>fromCh\<close> says which case the \<^verbatim>\<open>select\<close> took: the token of \<^verbatim>\<open>newEntryCh\<close> or the timer.\<close>

definition heartBeat :: "bool \<Rightarrow> ('c, 's) Raft \<Rightarrow> (('c, 's) Raft \<times> (int \<times> ('c, 's) leaderRPC) list) go" where
  "heartBeat fromCh rf0 =
     (let rf = (if fromCh then rf0\<lparr>newEntryCh := False\<rparr> else rf0) in
      if raftState rf \<noteq> RaftLeader
      then Inr (rf\<lparr>goroutines := remove1 HeartBeat (goroutines rf)\<rparr>, [])
      else bind_go (heartBeat_msgs rf 0 (nextIndex rf)) (\<lambda>ms. Inr (rf, ms)))"

definition commit :: "('c, 's) Raft \<Rightarrow> ('c, 's) Raft go" where
  "commit rf0 =
     (if raftState rf0 \<noteq> RaftLeader
      then Inr (rf0\<lparr>goroutines := remove1 Commit (goroutines rf0)\<rparr>)
      else bind_go (go_update (matchIndex rf0) (me rf0) (GetLastLogIndex rf0)) (\<lambda>m.
        let rf = rf0\<lparr>matchIndex := m\<rparr>;
            sorted = sort (matchIndex rf);
            n = length sorted in
        bind_go (go_nth sorted (int (n div 2))) (\<lambda>majorityIndex.
          if commitIndex rf < majorityIndex
          then bind_go (log_at rf majorityIndex) (\<lambda>e.
                 Inr (if le_Term e = currentTerm rf then rf\<lparr>commitIndex := majorityIndex\<rparr> else rf))
          else Inr rf)))"

definition commandMsg :: "int \<Rightarrow> 'c LogEntry \<Rightarrow> ('c, 's) ApplyMsg" where
  "commandMsg i e = \<lparr>am_CommandValid = True, am_Command = le_Command e, am_CommandIndex = i,
     am_SnapshotValid = False, am_Snapshot = [], am_SnapshotTerm = 0, am_SnapshotIndex = 0\<rparr>"

fun collect :: "('c, 's) Raft \<Rightarrow> int \<Rightarrow> nat \<Rightarrow> ('c, 's) ApplyMsg list go" where
  "collect rf i 0 = Inr []"
| "collect rf i (Suc n) =
     bind_go (log_at rf i) (\<lambda>e.
     bind_go (collect rf (i + 1) n) (\<lambda>ms. Inr (commandMsg i e # ms)))"

text \<open>
  One pass of the apply loop. It waits while nothing is committed beyond
  \<^verbatim>\<open>lastApplied\<close> (\<open>apply_waits\<close>); the messages are sent on \<^verbatim>\<open>applyCh\<close> after the lock is
  released.
\<close>

definition apply_waits :: "('c, 's) Raft \<Rightarrow> bool" where
  "apply_waits rf \<longleftrightarrow> commitIndex rf = lastApplied rf"

definition apply_loop :: "('c, 's) Raft \<Rightarrow> (('c, 's) Raft \<times> ('c, 's) ApplyMsg list) go" where
  "apply_loop rf =
     (let start = lastApplied rf + 1; end = commitIndex rf in
      if end - start + 1 < 0 then Inl (Panic ''makeslice: len out of range'')
      else if lastApplied rf < commitIndex rf
      then bind_go (collect rf start (nat (end - start + 1))) (\<lambda>msgs.
             Inr (rf\<lparr>lastApplied := commitIndex rf\<rparr>, msgs))
      else Inr (rf, []))"

definition Make :: "clock \<Rightarrow> nat \<Rightarrow> int \<Rightarrow> ('c rgob, 's) Persister \<Rightarrow> ('c, 's) Raft" where
  "Make clk n i ps =
     (let rf1 = \<lparr>npeers = n, persister = ps, me = i, raftState = RaftFollower, currentTerm = 0,
                 voteFor = - 1, logs = [\<lparr>le_Term = 0, le_Command = None\<rparr>], commitIndex = 0,
                 lastApplied = 0, nextIndex = [], matchIndex = [], electionTimerStart = 0,
                 timeout = 0, gotVotes = 0, leaderID = - 1, snapshotIndex = 0, snapshot = [],
                 newEntryCh = False, goroutines = []\<rparr>;
          rf2 = (readPersist (ReadRaftState ps) rf1)\<lparr>snapshot := ReadSnapshot ps\<rparr>;
          rf3 = (if snapshotIndex rf2 \<noteq> 0
                 then rf2\<lparr>commitIndex := snapshotIndex rf2, lastApplied := snapshotIndex rf2\<rparr>
                 else rf2);
          rf4 = resetElectionTimer clk rf3
      in spawn Apply (spawn Ticker rf4))"

section \<open>A concrete follower and request\<close>

text \<open>The peer, clock and request that the witnesses of the Raft theories evaluate.\<close>

definition demo_clock :: clock where
  "demo_clock = \<lparr>now = 5, rnd = 3\<rparr>"

definition demo_peer :: "int \<Rightarrow> (nat, nat) Raft" where
  "demo_peer i = Make \<lparr>now = 0, rnd = 0\<rparr> 3 i MakePersister"

definition demo_args :: "int \<Rightarrow> nat AppendEntriesArgs" where
  "demo_args t = \<lparr>ae_Term = t, ae_LeaderID = 0, ae_PrevLogIndex = 0, ae_PrevLogTerm = 0,
     ae_Entries = [\<lparr>le_Term = 1, le_Command = Some 7\<rparr>, \<lparr>le_Term = t, le_Command = Some 8\<rparr>],
     ae_LeaderCommit = 1\<rparr>"

text \<open>A leader of term 2 with the log of \<open>demo_args 2\<close>, right after its election.\<close>

definition demo_leader :: "(nat, nat) Raft" where
  "demo_leader = (demo_peer 0)\<lparr>currentTerm := 2, raftState := RaftLeader, leaderID := 0,
     logs := \<lparr>le_Term = 0, le_Command = None\<rparr> # ae_Entries (demo_args 2),
     nextIndex := [3, 3, 1], matchIndex := [2, 0, 0]\<rparr>"

end
