(* ===== verification/RaftLog.thy ===== *)
theory RaftLog
  imports RaftPeer "HOL-Library.Multiset"
begin

text \<open>
  The replicated log of one peer: how the log-manipulating code of \<^verbatim>\<open>raft1/raft.go\<close>
  (AppendEntries, InstallSnapshot, Snapshot, Start, commit, apply and the back-off on both
  sides) treats the entries at their global indices.
\<close>

section \<open>The log as a partial map from global indices\<close>

definition entry :: "('c, 's) Raft \<Rightarrow> int \<Rightarrow> 'c LogEntry option" where
  "entry rf i = (if snapshotIndex rf \<le> i \<and> i \<le> GetLastLogIndex rf
                 then Some (logs rf ! nat (i - snapshotIndex rf)) else None)"

definition term_at :: "('c, 's) Raft \<Rightarrow> int \<Rightarrow> int option" where
  "term_at rf i = map_option le_Term (entry rf i)"

named_theorems raft_upd \<open>state changes shared by the handlers\<close>

lemmas [raft_upd] = persist_def spawn_def updateTermAndBecomeFollower_def resetElectionTimer_def
  AE_follow_def grant_def Let_def

lemma log_at_entry: "log_at rf i = (case entry rf i of
    None \<Rightarrow> Inl (Panic ''index out of range'') | Some e \<Rightarrow> Inr e)"
  by (auto simp: log_at_def entry_def go_nth_def index_def GetLastLogIndex_def)

lemma log_at_Inr_iff: "log_at rf i = Inr e \<longleftrightarrow> entry rf i = Some e"
  by (simp add: log_at_entry split: option.splits)

lemma entry_Some_iff:
  "entry rf i = Some e \<longleftrightarrow>
     snapshotIndex rf \<le> i \<and> i \<le> GetLastLogIndex rf \<and> e = logs rf ! nat (i - snapshotIndex rf)"
  by (auto simp: entry_def)

lemma entry_bounds: "entry rf i = Some e \<Longrightarrow> snapshotIndex rf \<le> i \<and> i \<le> GetLastLogIndex rf"
  by (simp add: entry_Some_iff)

lemma entry_in_range:
  "snapshotIndex rf \<le> i \<Longrightarrow> i \<le> GetLastLogIndex rf \<Longrightarrow> \<exists>e. entry rf i = Some e"
  by (simp add: entry_def)

lemma last_ge_snapshot: "logs rf \<noteq> [] \<Longrightarrow> snapshotIndex rf \<le> GetLastLogIndex rf"
  by (cases "logs rf") (auto simp: GetLastLogIndex_def)

lemma entry_cong:
  "logs rf' = logs rf \<Longrightarrow> snapshotIndex rf' = snapshotIndex rf \<Longrightarrow> entry rf' = entry rf"
  by (simp add: entry_def GetLastLogIndex_def fun_eq_iff)

lemma GetLastLogTerm_Inr:
  "logs rf \<noteq> [] \<Longrightarrow> GetLastLogTerm rf = Inr (le_Term (last (logs rf)))"
  by (cases "logs rf" rule: rev_cases) (auto simp: GetLastLogTerm_def go_nth_def nth_append)

lemma AE_follow_log [simp]:
  "logs (AE_follow clk args rf) = logs rf"
  "snapshotIndex (AE_follow clk args rf) = snapshotIndex rf"
  "commitIndex (AE_follow clk args rf) = commitIndex rf"
  "lastApplied (AE_follow clk args rf) = lastApplied rf"
  "GetLastLogIndex (AE_follow clk args rf) = GetLastLogIndex rf"
  "entry (AE_follow clk args rf) = entry rf"
  by (auto simp: raft_upd GetLastLogIndex_def entry_def fun_eq_iff)

lemma AE_follow_term:
  "currentTerm rf \<le> ae_Term args \<Longrightarrow> currentTerm (AE_follow clk args rf) = ae_Term args"
  by (auto simp: raft_upd)

section \<open>AppendEntries: the scan and the splice\<close>

text \<open>The scan stops at the first entry that is new or in conflict.\<close>

lemma skip_matching_spec:
  assumes "skip_matching rf li es = Inr (li', rest)" and "snapshotIndex rf \<le> li"
  shows "\<exists>m\<le>length es. li' = li + int m \<and> rest = drop m es \<and>
    (\<forall>k<m. term_at rf (li + int k) = Some (le_Term (es ! k))) \<and>
    (m < length es \<longrightarrow> term_at rf li' \<noteq> Some (le_Term (es ! m)))"
  using assms
proof (induction es arbitrary: li)
  case Nil
  then show ?case by simp
next
  case (Cons e es)
  show ?case
  proof (cases "term_at rf li = Some (le_Term e)")
    case True
    then have "li \<le> GetLastLogIndex rf" by (auto simp: term_at_def entry_def split: if_splits)
    with True Cons.prems(1) have "skip_matching rf (li + 1) es = Inr (li', rest)"
      by (auto simp: term_at_def log_at_entry)
    from Cons.IH [OF this] Cons.prems(2) obtain m where m: "m \<le> length es" "li' = li + 1 + int m"
      "rest = drop m es" "\<forall>k<m. term_at rf (li + 1 + int k) = Some (le_Term (es ! k))"
      "m < length es \<longrightarrow> term_at rf li' \<noteq> Some (le_Term (es ! m))" by auto
    have "\<forall>k<Suc m. term_at rf (li + int k) = Some (le_Term ((e # es) ! k))"
      using True m(4) by (auto simp: less_Suc_eq_0_disj algebra_simps)
    with m show ?thesis by (intro exI [of _ "Suc m"]) auto
  next
    case False
    with Cons.prems have "li' = li" "rest = e # es"
      by (auto simp: term_at_def log_at_entry split: if_splits option.splits)
    with False show ?thesis by (intro exI [of _ 0]) auto
  qed
qed

lemma skip_matching_returns: "snapshotIndex rf \<le> li \<Longrightarrow> returns (skip_matching rf li es)"
proof (induction es arbitrary: li)
  case (Cons e es)
  then show ?case
    using entry_in_range [of rf li] by (auto simp: log_at_entry)
qed simp

lemma skip_matching_bound:
  assumes "skip_matching rf li es = Inr (li', rest)" and "snapshotIndex rf \<le> li"
    and "li \<le> GetLastLogIndex rf + 1"
  shows "li \<le> li' \<and> li' \<le> GetLastLogIndex rf + 1"
  using assms
  by (induction es arbitrary: li) (force split: if_splits)+

text \<open>
  What AppendEntries does to the log once the previous entry matches: with \<open>m\<close> entries
  already present, the log is kept as it is if nothing is left, and cut at the first
  difference and extended by the rest otherwise.
\<close>

lemma AE_append_logs:
  assumes "AE_append args rf = Inr rf'" and "snapshotIndex rf \<le> ae_PrevLogIndex args"
    and "ae_PrevLogIndex args \<le> GetLastLogIndex rf"
  obtains m where "m \<le> length (ae_Entries args)"
    and "\<forall>k<m. term_at rf (ae_PrevLogIndex args + 1 + int k) = Some (le_Term (ae_Entries args ! k))"
    and "m < length (ae_Entries args) \<longrightarrow>
      term_at rf (ae_PrevLogIndex args + 1 + int m) \<noteq> Some (le_Term (ae_Entries args ! m))"
    and "ae_PrevLogIndex args + int m \<le> GetLastLogIndex rf"
    and "logs rf' = (if m = length (ae_Entries args) then logs rf
      else take (nat (ae_PrevLogIndex args + 1 + int m - snapshotIndex rf)) (logs rf) @ drop m (ae_Entries args))"
    and "snapshotIndex rf' = snapshotIndex rf"
    and "commitIndex rf' = (if commitIndex rf < ae_LeaderCommit args
      then min (ae_LeaderCommit args) (GetLastLogIndex rf') else commitIndex rf)"
    and "lastApplied rf' = lastApplied rf" and "currentTerm rf' = currentTerm rf"
    and "raftState rf' = raftState rf"
proof -
  let ?li = "ae_PrevLogIndex args + 1"
  from assms(1) obtain li' rest where
    skip: "skip_matching rf ?li (ae_Entries args) = Inr (li', rest)"
    by (auto simp: AE_append_def)
  from skip_matching_spec [OF skip] assms(2) obtain m where m: "m \<le> length (ae_Entries args)"
    "li' = ?li + int m" "rest = drop m (ae_Entries args)"
    "\<forall>k<m. term_at rf (?li + int k) = Some (le_Term (ae_Entries args ! k))"
    "m < length (ae_Entries args) \<longrightarrow> term_at rf li' \<noteq> Some (le_Term (ae_Entries args ! m))"
    by auto
  have bound: "ae_PrevLogIndex args + int m \<le> GetLastLogIndex rf"
    using skip_matching_bound [OF skip] assms(2,3) m(2) by auto
  show thesis
    by (rule that [of m])
       (use assms skip m bound in
         \<open>auto simp: AE_append_def go_access_iff index_def persist_def GetLastLogIndex_def split: if_splits\<close>)
qed

text \<open>The five ways an AppendEntries request is answered, as conditional equations.\<close>

lemma AE_stale:
  "ae_Term args < currentTerm rf \<Longrightarrow>
   AppendEntries clk args rf = Inr (rf, AppendEntriesReply0\<lparr>aer_Term := currentTerm rf\<rparr>)"
  by (simp add: AppendEntries_def AppendEntriesReply0_def Let_def)

lemma AE_below:
  "currentTerm rf \<le> ae_Term args \<Longrightarrow> ae_PrevLogIndex args < snapshotIndex rf \<Longrightarrow>
   AppendEntries clk args rf = Inr (AE_follow clk args rf,
     AppendEntriesReply0\<lparr>aer_Term := currentTerm rf, aer_XLen := snapshotIndex rf + 1,
       aer_XIndex := - 1, aer_XTerm := - 1\<rparr>)"
  by (simp add: AppendEntries_def AppendEntriesReply0_def Let_def)

lemma AE_short:
  "currentTerm rf \<le> ae_Term args \<Longrightarrow> snapshotIndex rf \<le> ae_PrevLogIndex args \<Longrightarrow>
   GetLastLogIndex rf < ae_PrevLogIndex args \<Longrightarrow>
   AppendEntries clk args rf = Inr (AE_follow clk args rf,
     AppendEntriesReply0\<lparr>aer_Term := currentTerm rf,
       aer_XLen := int (length (logs rf)) + snapshotIndex rf, aer_XIndex := - 1, aer_XTerm := - 1\<rparr>)"
  by (simp add: AppendEntries_def AppendEntriesReply0_def Let_def)

lemma AE_mismatch:
  "currentTerm rf \<le> ae_Term args \<Longrightarrow> entry rf (ae_PrevLogIndex args) = Some p \<Longrightarrow>
   ae_PrevLogTerm args \<noteq> le_Term p \<Longrightarrow>
   AppendEntries clk args rf =
     bind_go (AE_conflict args (AppendEntriesReply0\<lparr>aer_Term := currentTerm rf\<rparr>) (AE_follow clk args rf))
       (\<lambda>r. Inr (AE_follow clk args rf, r))"
  using entry_bounds [of rf "ae_PrevLogIndex args" p]
  by (simp add: AppendEntries_def AppendEntriesReply0_def Let_def log_at_entry)

lemma AE_match:
  "currentTerm rf \<le> ae_Term args \<Longrightarrow> entry rf (ae_PrevLogIndex args) = Some p \<Longrightarrow>
   ae_PrevLogTerm args = le_Term p \<Longrightarrow>
   AppendEntries clk args rf =
     bind_go (AE_append args (AE_follow clk args rf))
       (\<lambda>rf1. Inr (rf1, AppendEntriesReply0\<lparr>aer_Term := currentTerm rf, aer_Success := True\<rparr>))"
  using entry_bounds [of rf "ae_PrevLogIndex args" p]
  by (simp add: AppendEntries_def AppendEntriesReply0_def Let_def log_at_entry)

lemma AppendEntries_cases:
  assumes "AppendEntries clk args rf = Inr (rf', reply)"
  obtains (stale) "ae_Term args < currentTerm rf" "rf' = rf"
      "reply = AppendEntriesReply0\<lparr>aer_Term := currentTerm rf\<rparr>"
  | (below) "currentTerm rf \<le> ae_Term args" "ae_PrevLogIndex args < snapshotIndex rf"
      "rf' = AE_follow clk args rf"
      "reply = AppendEntriesReply0\<lparr>aer_Term := currentTerm rf, aer_XLen := snapshotIndex rf + 1,
                 aer_XIndex := - 1, aer_XTerm := - 1\<rparr>"
  | (short) "currentTerm rf \<le> ae_Term args" "snapshotIndex rf \<le> ae_PrevLogIndex args"
      "GetLastLogIndex rf < ae_PrevLogIndex args" "rf' = AE_follow clk args rf"
      "reply = AppendEntriesReply0\<lparr>aer_Term := currentTerm rf,
                 aer_XLen := int (length (logs rf)) + snapshotIndex rf,
                 aer_XIndex := - 1, aer_XTerm := - 1\<rparr>"
  | (conflict) p where "currentTerm rf \<le> ae_Term args" "entry rf (ae_PrevLogIndex args) = Some p"
      "ae_PrevLogTerm args \<noteq> le_Term p" "rf' = AE_follow clk args rf"
      "AE_conflict args (AppendEntriesReply0\<lparr>aer_Term := currentTerm rf\<rparr>) (AE_follow clk args rf) = Inr reply"
  | (append) p where "currentTerm rf \<le> ae_Term args" "entry rf (ae_PrevLogIndex args) = Some p"
      "ae_PrevLogTerm args = le_Term p" "AE_append args (AE_follow clk args rf) = Inr rf'"
      "reply = AppendEntriesReply0\<lparr>aer_Term := currentTerm rf, aer_Success := True\<rparr>"
proof -
  consider "ae_Term args < currentTerm rf"
    | "currentTerm rf \<le> ae_Term args" "ae_PrevLogIndex args < snapshotIndex rf"
    | "currentTerm rf \<le> ae_Term args" "snapshotIndex rf \<le> ae_PrevLogIndex args"
        "GetLastLogIndex rf < ae_PrevLogIndex args"
    | p where "currentTerm rf \<le> ae_Term args" "entry rf (ae_PrevLogIndex args) = Some p"
    using entry_in_range [of rf "ae_PrevLogIndex args"] by force
  then show thesis
  proof cases
    case 1
    with assms show thesis by (intro stale) (auto simp: AE_stale)
  next
    case 2
    with assms show thesis by (intro below) (auto simp: AE_below)
  next
    case 3
    with assms show thesis by (intro short) (auto simp: AE_short)
  next
    case (4 p)
    show thesis
    proof (cases "ae_PrevLogTerm args = le_Term p")
      case True
      with 4 assms show thesis by (intro append [of p]) (auto simp: AE_match)
    next
      case False
      with 4 assms show thesis by (intro conflict [of p]) (auto simp: AE_mismatch)
    qed
  qed
qed

lemma AE_success_append:
  assumes "AppendEntries clk args rf = Inr (rf', reply)" and "aer_Success reply"
  shows "AE_append args (AE_follow clk args rf) = Inr rf'"
    and "term_at rf (ae_PrevLogIndex args) = Some (ae_PrevLogTerm args)"
    and "currentTerm rf \<le> ae_Term args"
  using assms(1)
  by (cases rule: AppendEntries_cases;
      use assms(2) in \<open>auto simp: AppendEntriesReply0_def term_at_def AE_conflict_def split: if_splits\<close>)+

lemma term_at_bounds:
  "term_at rf i = Some t \<Longrightarrow> snapshotIndex rf \<le> i \<and> i \<le> GetLastLogIndex rf"
  by (auto simp: term_at_def entry_def split: if_splits)

text \<open>The scan and splice seen from the handler: the log after an accepted AppendEntries.\<close>

lemma AE_success_logs:
  assumes "AppendEntries clk args rf = Inr (rf', reply)" and "aer_Success reply"
  obtains m where "m \<le> length (ae_Entries args)"
    and "\<forall>k<m. term_at rf (ae_PrevLogIndex args + 1 + int k) = Some (le_Term (ae_Entries args ! k))"
    and "m < length (ae_Entries args) \<longrightarrow>
      term_at rf (ae_PrevLogIndex args + 1 + int m) \<noteq> Some (le_Term (ae_Entries args ! m))"
    and "ae_PrevLogIndex args + int m \<le> GetLastLogIndex rf"
    and "logs rf' = (if m = length (ae_Entries args) then logs rf
      else take (nat (ae_PrevLogIndex args + 1 + int m - snapshotIndex rf)) (logs rf) @ drop m (ae_Entries args))"
    and "snapshotIndex rf' = snapshotIndex rf"
    and "commitIndex rf' = (if commitIndex rf < ae_LeaderCommit args
      then min (ae_LeaderCommit args) (GetLastLogIndex rf') else commitIndex rf)"
    and "lastApplied rf' = lastApplied rf" and "currentTerm rf' = ae_Term args"
    and "raftState rf' = RaftFollower"
proof -
  note s = AE_success_append [OF assms]
  have eq: "term_at (AE_follow clk args rf) = term_at rf" by (simp add: term_at_def fun_eq_iff)
  have fol: "raftState (AE_follow clk args rf) = RaftFollower" by (auto simp: raft_upd)
  show thesis
    by (rule AE_append_logs [OF s(1)])
       (use term_at_bounds [OF s(2)] AE_follow_term [OF s(3)] that eq fol in auto)
qed

lemma AE_splice_entries:
  assumes len: "m \<le> length es" and old: "prev + int m \<le> GetLastLogIndex rf"
    and below: "snapshotIndex rf \<le> prev"
    and logs: "logs rf' = (if m = length es then logs rf
      else take (nat (prev + 1 + int m - snapshotIndex rf)) (logs rf) @ drop m es)"
    and si: "snapshotIndex rf' = snapshotIndex rf"
  shows "i \<le> prev + int m \<Longrightarrow> entry rf' i = entry rf i"
    and "m \<le> k \<Longrightarrow> k < length es \<Longrightarrow> entry rf' (prev + 1 + int k) = Some (es ! k)"
    and "prev + int (length es) \<le> GetLastLogIndex rf'"
    and "m < length es \<Longrightarrow> GetLastLogIndex rf' = prev + int (length es)"
  using assms
  by (auto simp: entry_def GetLastLogIndex_def nth_append min_def nat_less_iff split: if_splits
      intro!: arg_cong [where f = "nth es"])

lemma AE_success_terms:
  assumes "AppendEntries clk args rf = Inr (rf', reply)" and "aer_Success reply"
    and "k < length (ae_Entries args)"
  shows "term_at rf' (ae_PrevLogIndex args + 1 + int k) = Some (le_Term (ae_Entries args ! k))"
proof -
  note prev = term_at_bounds [OF AE_success_append(2) [OF assms(1,2)]]
  obtain m where m: "m \<le> length (ae_Entries args)"
    "\<forall>k<m. term_at rf (ae_PrevLogIndex args + 1 + int k) = Some (le_Term (ae_Entries args ! k))"
    "ae_PrevLogIndex args + int m \<le> GetLastLogIndex rf"
    "logs rf' = (if m = length (ae_Entries args) then logs rf
      else take (nat (ae_PrevLogIndex args + 1 + int m - snapshotIndex rf)) (logs rf) @ drop m (ae_Entries args))"
    "snapshotIndex rf' = snapshotIndex rf"
    using AE_success_logs [OF assms(1,2)] by metis
  note sp = AE_splice_entries [OF m(1,3) conjunct1 [OF prev] m(4,5)]
  show ?thesis
  proof (cases "k < m")
    case True
    with sp(1) [of "ae_PrevLogIndex args + 1 + int k"] m(2) show ?thesis by (simp add: term_at_def)
  next
    case False
    with sp(2) [of k] assms(3) show ?thesis by (simp add: term_at_def)
  qed
qed

lemma AE_success_prefix:
  assumes "AppendEntries clk args rf = Inr (rf', reply)" and "aer_Success reply"
    and "i \<le> ae_PrevLogIndex args"
  shows "entry rf' i = entry rf i"
proof -
  note prev = term_at_bounds [OF AE_success_append(2) [OF assms(1,2)]]
  obtain m where m: "m \<le> length (ae_Entries args)"
    "ae_PrevLogIndex args + int m \<le> GetLastLogIndex rf"
    "logs rf' = (if m = length (ae_Entries args) then logs rf
      else take (nat (ae_PrevLogIndex args + 1 + int m - snapshotIndex rf)) (logs rf) @ drop m (ae_Entries args))"
    "snapshotIndex rf' = snapshotIndex rf"
    using AE_success_logs [OF assms(1,2)] by metis
  show ?thesis
    using AE_splice_entries(1) [OF m(1,2) conjunct1 [OF prev] m(3,4)] assms(3) by simp
qed

lemma AE_success_same_logs:
  assumes "AppendEntries clk args rf = Inr (rf', reply)" and "aer_Success reply"
    and "\<forall>k < length (ae_Entries args).
      term_at rf (ae_PrevLogIndex args + 1 + int k) = Some (le_Term (ae_Entries args ! k))"
  shows "logs rf' = logs rf \<and> snapshotIndex rf' = snapshotIndex rf"
  by (rule AE_success_logs [OF assms(1,2)]) (use assms(3) in \<open>auto split: if_splits\<close>)

lemma AE_success_commit:
  assumes "AppendEntries clk args rf = Inr (rf', reply)" and "aer_Success reply"
  shows "commitIndex rf' = (if commitIndex rf < ae_LeaderCommit args
      then min (ae_LeaderCommit args) (GetLastLogIndex rf') else commitIndex rf)"
    and "currentTerm rf' = ae_Term args" and "lastApplied rf' = lastApplied rf"
    and "raftState rf' = RaftFollower"
  by (rule AE_success_logs [OF assms]; assumption)+

lemma demo_accepts:
  "AppendEntries demo_clock (demo_args 1) (demo_peer 1) =
     Inr (fst (projr (AppendEntries demo_clock (demo_args 1) (demo_peer 1))),
          snd (projr (AppendEntries demo_clock (demo_args 1) (demo_peer 1))))"
  "aer_Success (snd (projr (AppendEntries demo_clock (demo_args 1) (demo_peer 1))))"
  by (rule returns_pair) code_simp+

text \<open>
  C7: An accepted AppendEntries leaves the peer with the leader's terms on the whole range
  of the request and does not touch the entries up to \<^verbatim>\<open>PrevLogIndex\<close>: after the handler
  reports success, the entry at \<^verbatim>\<open>PrevLogIndex\<close> has term \<^verbatim>\<open>PrevLogTerm\<close>, the \<open>k\<close>-th sent
  entry's term is at index \<^verbatim>\<open>PrevLogIndex + 1 + k\<close>, and every earlier entry is unchanged.
\<close>

theorem AppendEntries_log_matching:
  assumes "AppendEntries clk args rf = Inr (rf', reply)" and "aer_Success reply"
  shows "term_at rf' (ae_PrevLogIndex args) = Some (ae_PrevLogTerm args) \<and>
    (\<forall>k < length (ae_Entries args).
      term_at rf' (ae_PrevLogIndex args + 1 + int k) = Some (le_Term (ae_Entries args ! k))) \<and>
    (\<forall>i \<le> ae_PrevLogIndex args. entry rf' i = entry rf i)"
  using AE_success_terms [OF assms] AE_success_prefix [OF assms] AE_success_append(2) [OF assms]
  by (auto simp: term_at_def)

theorem AppendEntries_log_matching_witness:
  "let rf' = fst (projr (AppendEntries demo_clock (demo_args 1) (demo_peer 1)))
   in term_at rf' 0 = Some 0 \<and> (\<forall>k < 2. term_at rf' (1 + int k) = Some 1)"
  using AppendEntries_log_matching [OF demo_accepts] unfolding Let_def
  by (auto simp: demo_args_def less_2_cases_iff)

text \<open>
  No needless truncation: if every entry of an accepted request is already in the log
  (same term at the same index), the log is unchanged, so a reordered or duplicated
  request with fewer entries never removes entries that a later one appended.
\<close>

theorem AppendEntries_keeps_matching_log:
  assumes "AppendEntries clk args rf = Inr (rf', reply)" and "aer_Success reply"
    and "\<forall>k < length (ae_Entries args).
      term_at rf (ae_PrevLogIndex args + 1 + int k) = Some (le_Term (ae_Entries args ! k))"
  shows "logs rf' = logs rf \<and> snapshotIndex rf' = snapshotIndex rf"
  using assms by (rule AE_success_same_logs)

theorem AppendEntries_keeps_matching_log_witness:
  "let rf = fst (projr (AppendEntries demo_clock (demo_args 1) (demo_peer 1)));
       args = (demo_args 1)\<lparr>ae_Entries := [\<lparr>le_Term = 1, le_Command = Some 7\<rparr>]\<rparr>;
       rf' = fst (projr (AppendEntries demo_clock args rf))
   in logs rf' = logs rf \<and> length (logs rf) = 3"
proof -
  let ?rf = "fst (projr (AppendEntries demo_clock (demo_args 1) (demo_peer 1)))"
  let ?args = "(demo_args 1)\<lparr>ae_Entries := [\<lparr>le_Term = 1, le_Command = Some 7\<rparr>]\<rparr>"
  let ?r = "AppendEntries demo_clock ?args ?rf"
  have r: "returns ?r" "aer_Success (snd (projr ?r))" "term_at ?rf 1 = Some 1" "length (logs ?rf) = 3"
    by code_simp+
  have "logs (fst (projr ?r)) = logs ?rf \<and> snapshotIndex (fst (projr ?r)) = snapshotIndex ?rf"
    by (rule AppendEntries_keeps_matching_log [OF returns_pair [OF r(1)] r(2)])
       (use r(3) in \<open>simp add: demo_args_def\<close>)
  with r(4) show ?thesis by (simp add: Let_def)
qed

text \<open>
  Delivering the same accepted AppendEntries a second time, at any later clock,
  succeeds again and changes neither the log nor the commit index.
\<close>

theorem AppendEntries_idempotent:
  assumes "AppendEntries clk args rf = Inr (rf', reply)" and "aer_Success reply"
  shows "\<exists>rf'' reply'. AppendEntries clk' args rf' = Inr (rf'', reply') \<and> aer_Success reply' \<and>
    logs rf'' = logs rf' \<and> commitIndex rf'' = commitIndex rf'"
proof -
  have t: "currentTerm rf' \<le> ae_Term args" by (simp add: AE_success_commit(2) [OF assms])
  have "term_at rf' (ae_PrevLogIndex args) = Some (ae_PrevLogTerm args)"
    using AE_success_prefix [OF assms] AE_success_append(2) [OF assms] by (simp add: term_at_def)
  then obtain p where p: "entry rf' (ae_PrevLogIndex args) = Some p" "ae_PrevLogTerm args = le_Term p"
    by (auto simp: term_at_def)
  have eq: "term_at (AE_follow clk' args rf') = term_at rf'" by (simp add: term_at_def fun_eq_iff)
  have "returns (skip_matching (AE_follow clk' args rf') (ae_PrevLogIndex args + 1) (ae_Entries args))"
    using entry_bounds [OF p(1)] by (intro skip_matching_returns) simp
  then obtain li rest where
    sk: "skip_matching (AE_follow clk' args rf') (ae_PrevLogIndex args + 1) (ae_Entries args) = Inr (li, rest)"
    by (auto simp: returns_iff)
  obtain m where m: "m \<le> length (ae_Entries args)" "rest = drop m (ae_Entries args)"
    "m < length (ae_Entries args) \<longrightarrow> term_at rf' li \<noteq> Some (le_Term (ae_Entries args ! m))"
    "li = ae_PrevLogIndex args + 1 + int m"
    using skip_matching_spec [OF sk] entry_bounds [OF p(1)] eq by auto
  have "rest = []"
    using m AE_success_terms [OF assms, of m] by (cases "m < length (ae_Entries args)") auto
  with sk have "returns (AE_append args (AE_follow clk' args rf'))" by (simp add: AE_append_def Let_def)
  then obtain rf'' where "AE_append args (AE_follow clk' args rf') = Inr rf''" by (auto simp: returns_iff)
  then have a: "AppendEntries clk' args rf' =
      Inr (rf'', AppendEntriesReply0\<lparr>aer_Term := currentTerm rf', aer_Success := True\<rparr>)"
    by (simp add: AE_match [OF t p])
  have lg: "logs rf'' = logs rf'" "snapshotIndex rf'' = snapshotIndex rf'"
    using AE_success_same_logs [OF a] AE_success_terms [OF assms] by auto
  then have "commitIndex rf'' = commitIndex rf'"
    using AE_success_commit(1) [OF a] AE_success_commit(1) [OF assms]
    by (auto simp: GetLastLogIndex_def min_def)
  with a lg show ?thesis by simp
qed

theorem AppendEntries_idempotent_witness:
  "let rf' = fst (projr (AppendEntries demo_clock (demo_args 1) (demo_peer 1)))
   in \<exists>rf'' reply'. AppendEntries demo_clock (demo_args 1) rf' = Inr (rf'', reply') \<and>
        aer_Success reply' \<and> logs rf'' = logs rf' \<and> commitIndex rf'' = commitIndex rf'"
  unfolding Let_def by (rule AppendEntries_idempotent [OF demo_accepts])

end
