(* ===== verification/RaftReplication.thy ===== *)
theory RaftReplication
  imports RaftLog
begin

text \<open>
  The leader's side of replication: the back-off hints a follower returns and what the
  leader makes of them, the commit rule (median of \<^verbatim>\<open>matchIndex\<close>), the messages of a
  heartbeat round, and the hand-over to the service (Start, apply, snapshots).
\<close>

section \<open>Back-off hints\<close>

lemma back_off_unfold:
  "snapshotIndex rf < i \<Longrightarrow> entry rf i = Some e \<Longrightarrow>
     back_off rf t i = (if le_Term e = t then back_off rf t (i - 1) else Inr i)"
  by (subst back_off.simps) (simp add: log_at_entry)

lemma back_off_stop: "i \<le> snapshotIndex rf \<Longrightarrow> back_off rf t i = Inr i"
  by (subst back_off.simps) simp

lemma int_le_pred: "(j::int) \<le> i \<Longrightarrow> j = i \<or> j \<le> i - 1"
  by auto

text \<open>The loop stops at the last index of another term, or at the snapshot.\<close>

lemma back_off_spec:
  assumes "snapshotIndex rf \<le> i" and "i \<le> GetLastLogIndex rf"
  shows "\<exists>x. back_off rf t i = Inr x \<and> snapshotIndex rf \<le> x \<and> x \<le> i \<and>
    (\<forall>j. x < j \<and> j \<le> i \<longrightarrow> term_at rf j = Some t) \<and>
    (snapshotIndex rf < x \<longrightarrow> term_at rf x \<noteq> Some t)"
  using assms
proof (induction rf t i rule: back_off.induct)
  case (1 rf t i)
  show ?case
  proof (cases "snapshotIndex rf < i")
    case False
    with 1 show ?thesis by (auto simp: back_off_stop)
  next
    case True
    with 1 obtain e where e: "entry rf i = Some e" using entry_in_range by blast
    show ?thesis
    proof (cases "le_Term e = t")
      case False
      with True e show ?thesis by (auto simp: back_off_unfold term_at_def)
    next
      case t: True
      from "1.IH" [OF True _ t] True "1.prems" e obtain x where
        x: "back_off rf t (i - 1) = Inr x" "snapshotIndex rf \<le> x" "x \<le> i - 1"
        "\<forall>j. x < j \<and> j \<le> i - 1 \<longrightarrow> term_at rf j = Some t"
        "snapshotIndex rf < x \<longrightarrow> term_at rf x \<noteq> Some t"
        by (auto simp: log_at_entry)
      have "term_at rf i = Some t" using e t by (simp add: term_at_def)
      with x(4) have "\<forall>j. x < j \<and> j \<le> i \<longrightarrow> term_at rf j = Some t"
        by (metis int_le_pred)
      with x True e t show ?thesis
        by (intro exI [of _ x]) (simp add: back_off_unfold)
    qed
  qed
qed

lemma AE_conflict_spec:
  assumes "entry rf (ae_PrevLogIndex args) = Some p"
  shows "\<exists>x. AE_conflict args reply rf = Inr (if x = snapshotIndex rf
      then reply\<lparr>aer_XLen := snapshotIndex rf + 1, aer_XIndex := - 1, aer_XTerm := - 1\<rparr>
      else reply\<lparr>aer_XTerm := le_Term p, aer_XIndex := x + 1, aer_XLen := - 1\<rparr>) \<and>
    snapshotIndex rf \<le> x \<and> (snapshotIndex rf < ae_PrevLogIndex args \<longrightarrow> x < ae_PrevLogIndex args) \<and>
    (\<forall>j. x < j \<and> j \<le> ae_PrevLogIndex args \<longrightarrow> term_at rf j = Some (le_Term p)) \<and>
    (snapshotIndex rf < x \<longrightarrow> term_at rf x \<noteq> Some (le_Term p)) \<and> x \<le> ae_PrevLogIndex args"
proof -
  obtain x where x: "back_off rf (le_Term p) (ae_PrevLogIndex args) = Inr x" "snapshotIndex rf \<le> x"
    "x \<le> ae_PrevLogIndex args" "\<forall>j. x < j \<and> j \<le> ae_PrevLogIndex args \<longrightarrow> term_at rf j = Some (le_Term p)"
    "snapshotIndex rf < x \<longrightarrow> term_at rf x \<noteq> Some (le_Term p)"
    using back_off_spec entry_bounds [OF assms] by blast
  moreover have "snapshotIndex rf < ae_PrevLogIndex args \<longrightarrow> x < ae_PrevLogIndex args"
    using x(3,5) assms by (cases "x = ae_PrevLogIndex args") (auto simp: term_at_def)
  ultimately show ?thesis using assms
    by (intro exI [of _ x]) (simp add: AE_conflict_def log_at_entry)
qed

text \<open>
  A follower with entries of term 1 rejects the term-2 leader of the demonstration with a
  back-off hint.
\<close>

definition demo_conflict :: "nat AppendEntriesArgs" where
  "demo_conflict = (demo_args 2)\<lparr>ae_PrevLogIndex := 2, ae_PrevLogTerm := 2, ae_Entries := []\<rparr>"

definition demo_behind :: "(nat, nat) Raft" where
  "demo_behind = (demo_peer 1)\<lparr>currentTerm := 2,
     logs := map (\<lambda>t. \<lparr>le_Term = t, le_Command = None\<rparr>) [0, 0, 1]\<rparr>"

lemma demo_rejects:
  "AppendEntries demo_clock demo_conflict demo_behind =
     Inr (fst (projr (AppendEntries demo_clock demo_conflict demo_behind)),
          snd (projr (AppendEntries demo_clock demo_conflict demo_behind)))"
  "\<not> aer_Success (snd (projr (AppendEntries demo_clock demo_conflict demo_behind)))"
  by (rule returns_pair) code_simp+

text \<open>
  The back-off hint names the whole run of the conflicting term: when AppendEntries
  rejects with \<^verbatim>\<open>XLen = -1\<close>, then \<^verbatim>\<open>XIndex\<close> lies above the snapshot and at or below
  \<^verbatim>\<open>PrevLogIndex\<close>, every entry from \<^verbatim>\<open>XIndex\<close> to \<^verbatim>\<open>PrevLogIndex\<close> has term \<^verbatim>\<open>XTerm\<close>, the entry
  before it has another term, and \<^verbatim>\<open>XTerm\<close> differs from the leader's \<^verbatim>\<open>PrevLogTerm\<close>.
\<close>

theorem AppendEntries_conflict_hint:
  assumes "AppendEntries clk args rf = Inr (rf', reply)" and "\<not> aer_Success reply"
    and "aer_XLen reply = - 1" and "0 \<le> snapshotIndex rf" and "logs rf \<noteq> []"
  shows "snapshotIndex rf + 1 < aer_XIndex reply \<and> aer_XIndex reply \<le> ae_PrevLogIndex args \<and>
    (\<forall>j. aer_XIndex reply \<le> j \<and> j \<le> ae_PrevLogIndex args \<longrightarrow> term_at rf j = Some (aer_XTerm reply)) \<and>
    term_at rf (aer_XIndex reply - 1) \<noteq> Some (aer_XTerm reply) \<and>
    aer_XTerm reply \<noteq> ae_PrevLogTerm args"
  using assms(1)
proof (cases rule: AppendEntries_cases)
  case (conflict p)
  have eq: "term_at (AE_follow clk args rf) = term_at rf" by (simp add: term_at_def fun_eq_iff)
  from conflict(2) have "entry (AE_follow clk args rf) (ae_PrevLogIndex args) = Some p" by simp
  from AE_conflict_spec [OF this, of "AppendEntriesReply0\<lparr>aer_Term := currentTerm rf\<rparr>", simplified conflict(5)]
  obtain x where x: "reply = (if x = snapshotIndex rf
      then AppendEntriesReply0\<lparr>aer_Term := currentTerm rf, aer_XLen := snapshotIndex rf + 1, aer_XIndex := - 1, aer_XTerm := - 1\<rparr>
      else AppendEntriesReply0\<lparr>aer_Term := currentTerm rf, aer_XTerm := le_Term p, aer_XIndex := x + 1, aer_XLen := - 1\<rparr>)"
    "snapshotIndex rf \<le> x" "snapshotIndex rf < ae_PrevLogIndex args \<longrightarrow> x < ae_PrevLogIndex args"
    "\<forall>j. x < j \<and> j \<le> ae_PrevLogIndex args \<longrightarrow> term_at rf j = Some (le_Term p)"
    "snapshotIndex rf < x \<longrightarrow> term_at rf x \<noteq> Some (le_Term p)" "x \<le> ae_PrevLogIndex args"
    unfolding eq AE_follow_log sum.inject by blast
  with assms(3,4) have "x \<noteq> snapshotIndex rf" by (auto simp: AppendEntriesReply0_def)
  with x conflict(3) show ?thesis by (auto simp: AppendEntriesReply0_def)
qed (use assms in \<open>auto simp: AppendEntriesReply0_def\<close>)

theorem AppendEntries_conflict_hint_witness:
  "let r = snd (projr (AppendEntries demo_clock demo_conflict demo_behind))
   in aer_XIndex r = 2 \<and> aer_XTerm r \<noteq> 2 \<and> term_at demo_behind (aer_XIndex r - 1) \<noteq> Some (aer_XTerm r)"
proof -
  let ?r = "snd (projr (AppendEntries demo_clock demo_conflict demo_behind))"
  have h: "aer_XLen ?r = - 1" "0 \<le> snapshotIndex demo_behind" "logs demo_behind \<noteq> []" "aer_XIndex ?r = 2"
    by code_simp+
  from AppendEntries_conflict_hint [OF demo_rejects h(1-3)] h(4) show ?thesis
    by (simp add: Let_def demo_conflict_def)
qed

section \<open>The leader's reaction to a rejection\<close>

lemma scan_term_unfold:
  "snapshotIndex rf < i \<Longrightarrow> entry rf i = Some e \<Longrightarrow>
     scan_term rf t i = (if le_Term e = t then Inr i else scan_term rf t (i - 1))"
  by (subst scan_term.simps) (simp add: log_at_entry)

lemma scan_term_stop: "i \<le> snapshotIndex rf \<Longrightarrow> scan_term rf t i = Inr 0"
  by (subst scan_term.simps) simp

lemma scan_term_spec:
  assumes "i \<le> GetLastLogIndex rf"
  shows "\<exists>x. scan_term rf t i = Inr x \<and>
    ((x = 0 \<and> (\<forall>j. snapshotIndex rf < j \<and> j \<le> i \<longrightarrow> term_at rf j \<noteq> Some t)) \<or>
     (snapshotIndex rf < x \<and> x \<le> i \<and> term_at rf x = Some t \<and>
      (\<forall>j. x < j \<and> j \<le> i \<longrightarrow> term_at rf j \<noteq> Some t)))"
  using assms
proof (induction rf t i rule: scan_term.induct)
  case (1 rf t i)
  show ?case
  proof (cases "snapshotIndex rf < i")
    case False
    then show ?thesis by (auto simp: scan_term_stop)
  next
    case True
    with 1 obtain e where e: "entry rf i = Some e" using entry_in_range [of rf i] by auto
    show ?thesis
    proof (cases "le_Term e = t")
      case t: True
      with True e show ?thesis by (auto simp: scan_term_unfold term_at_def)
    next
      case False
      from "1.IH" [OF True _ False] True "1.prems" e obtain x where x: "scan_term rf t (i - 1) = Inr x"
        "(x = 0 \<and> (\<forall>j. snapshotIndex rf < j \<and> j \<le> i - 1 \<longrightarrow> term_at rf j \<noteq> Some t)) \<or>
         (snapshotIndex rf < x \<and> x \<le> i - 1 \<and> term_at rf x = Some t \<and>
          (\<forall>j. x < j \<and> j \<le> i - 1 \<longrightarrow> term_at rf j \<noteq> Some t))"
        by (auto simp: log_at_entry)
      have "term_at rf i \<noteq> Some t" using e False by (simp add: term_at_def)
      with x(2) have "(x = 0 \<and> (\<forall>j. snapshotIndex rf < j \<and> j \<le> i \<longrightarrow> term_at rf j \<noteq> Some t)) \<or>
         (snapshotIndex rf < x \<and> x \<le> i \<and> term_at rf x = Some t \<and>
          (\<forall>j. x < j \<and> j \<le> i \<longrightarrow> term_at rf j \<noteq> Some t))"
        by (metis int_le_pred add_increasing2 diff_add_cancel zero_le_one)
      with x(1) True e False show ?thesis
        by (intro exI [of _ x]) (simp add: scan_term_unfold)
    qed
  qed
qed



text \<open>
  \<^verbatim>\<open>lastIndexForTerm\<close> never panics; it returns the largest index above the snapshot
  that holds an entry of the term, and 0 exactly when there is none.
\<close>

theorem lastIndexForTerm_correct:
  assumes "0 \<le> snapshotIndex rf"
  shows "\<exists>x. lastIndexForTerm rf t = Inr x \<and>
    (x = 0 \<longleftrightarrow> (\<forall>j. snapshotIndex rf < j \<and> j \<le> GetLastLogIndex rf \<longrightarrow> term_at rf j \<noteq> Some t)) \<and>
    (x \<noteq> 0 \<longrightarrow> snapshotIndex rf < x \<and> term_at rf x = Some t \<and>
       (\<forall>j. x < j \<and> j \<le> GetLastLogIndex rf \<longrightarrow> term_at rf j \<noteq> Some t))"
proof -
  obtain x where x: "scan_term rf t (GetLastLogIndex rf) = Inr x"
    "(x = 0 \<and> (\<forall>j. snapshotIndex rf < j \<and> j \<le> GetLastLogIndex rf \<longrightarrow> term_at rf j \<noteq> Some t)) \<or>
     (snapshotIndex rf < x \<and> x \<le> GetLastLogIndex rf \<and> term_at rf x = Some t \<and>
      (\<forall>j. x < j \<and> j \<le> GetLastLogIndex rf \<longrightarrow> term_at rf j \<noteq> Some t))"
    using scan_term_spec [of "GetLastLogIndex rf" rf t] by auto
  then show ?thesis using assms by (intro exI [of _ x]) (auto simp: lastIndexForTerm_def)
qed

theorem lastIndexForTerm_correct_witness:
  "lastIndexForTerm demo_leader 1 = Inr 1 \<and> term_at demo_leader 1 = Some 1 \<and>
   term_at demo_leader 2 \<noteq> Some 1"
proof -
  have h: "0 \<le> snapshotIndex demo_leader" "lastIndexForTerm demo_leader 1 = Inr 1"
    "GetLastLogIndex demo_leader = 2" by code_simp+
  from lastIndexForTerm_correct [OF h(1), of 1] h(2,3) show ?thesis by auto
qed

section \<open>Progress of the back-off\<close>





text \<open>
  The first reply in a new term is wasted: AppendEntries fills \<^verbatim>\<open>reply.Term\<close> before it
  adopts the leader's term, so a follower that was behind answers with its old term, and
  the leader ignores the answer, even a success (\<^verbatim>\<open>matchIndex\<close> and \<^verbatim>\<open>nextIndex\<close> stay).
\<close>

theorem first_reply_of_term_ignored:
  assumes "AppendEntries clk args fol = Inr (fol', reply)" and "currentTerm fol < ae_Term args"
    and "currentTerm ldr = ae_Term args"
  shows "sendAppendEntries i (Some reply) args ldr = Inr ldr"
proof -
  have "aer_Term reply = currentTerm fol"
    using assms(1)
    by (cases rule: AppendEntries_cases)
       (auto simp: AppendEntriesReply0_def AE_conflict_def split: if_splits)
  with assms show ?thesis by (simp add: sendAppendEntries_def Let_def)
qed

theorem first_reply_of_term_ignored_witness:
  "let r = snd (projr (AppendEntries demo_clock (demo_args 2) (demo_peer 1)))
   in aer_Success r \<and> sendAppendEntries 1 (Some r) (demo_args 2) demo_leader = Inr demo_leader"
proof -
  let ?m = "AppendEntries demo_clock (demo_args 2) (demo_peer 1)"
  have h: "returns ?m" "aer_Success (snd (projr ?m))" "currentTerm (demo_peer 1) < ae_Term (demo_args 2)"
    "currentTerm demo_leader = ae_Term (demo_args 2)" by code_simp+
  from first_reply_of_term_ignored [OF returns_pair [OF h(1)] h(3,4), of 1] h(2) show ?thesis
    by (simp add: Let_def)
qed

section \<open>The commit rule\<close>

lemma sorted_nth_count:
  assumes "n < length xs"
  shows "length xs - n \<le> length (filter (\<lambda>y. sort xs ! n \<le> y) xs)"
proof -
  let ?s = "sort xs"
  have "length (filter (\<lambda>y. ?s ! n \<le> y) xs) = length (filter (\<lambda>y. ?s ! n \<le> y) ?s)"
    by (metis mset_filter mset_sort size_mset)
  also have "\<dots> = length (filter (\<lambda>y. ?s ! n \<le> y) (take n ?s)) + length (filter (\<lambda>y. ?s ! n \<le> y) (drop n ?s))"
    by (metis append_take_drop_id filter_append length_append)
  also have "filter (\<lambda>y. ?s ! n \<le> y) (drop n ?s) = drop n ?s"
    using assms by (auto simp: filter_id_conv in_set_conv_nth intro!: sorted_nth_mono)
  finally show ?thesis by simp
qed

lemma commit_advance:
  assumes "commit rf = Inr rf'" and "commitIndex rf' \<noteq> commitIndex rf"
  shows "commitIndex rf < commitIndex rf' \<and> term_at rf (commitIndex rf') = Some (currentTerm rf) \<and>
    raftState rf = RaftLeader \<and> length (matchIndex rf') = length (matchIndex rf) \<and>
    0 < length (matchIndex rf') \<and>
    commitIndex rf' = sort (matchIndex rf') ! (length (matchIndex rf') div 2)"
  using assms
  by (auto simp: commit_def Let_def go_access_iff log_at_entry entry_def term_at_def GetLastLogIndex_def
      split: if_splits option.splits)

text \<open>
  C11: The leader only commits what enough peers hold: when one pass of \<^verbatim>\<open>commit\<close> moves
  \<^verbatim>\<open>commitIndex\<close>, it moves forward, to an entry of the leader's current term, and at least
  \<open>n - n div 2\<close> of the \<open>n\<close> peers (the leader included) have a match index at or above it;
  for an odd number of peers that is a strict majority.
\<close>

theorem commit_needs_quorum:
  assumes "commit rf = Inr rf'" and "commitIndex rf' \<noteq> commitIndex rf"
  shows "commitIndex rf < commitIndex rf' \<and> term_at rf (commitIndex rf') = Some (currentTerm rf) \<and>
    (let n = length (matchIndex rf');
         holders = length (filter (\<lambda>m. commitIndex rf' \<le> m) (matchIndex rf'))
     in n - n div 2 \<le> holders \<and> (odd n \<longrightarrow> n < 2 * holders))"
proof -
  note c = commit_advance [OF assms]
  let ?n = "length (matchIndex rf')"
  have "0 < ?n" using c by blast
  then have "?n div 2 < ?n" by simp
  from sorted_nth_count [OF this] c
  have "?n - ?n div 2 \<le> length (filter (\<lambda>m. commitIndex rf' \<le> m) (matchIndex rf'))" by simp
  moreover from this have "odd ?n \<longrightarrow> ?n < 2 * length (filter (\<lambda>m. commitIndex rf' \<le> m) (matchIndex rf'))"
    by (auto elim!: oddE)
  ultimately show ?thesis using c unfolding Let_def by blast
qed

theorem commit_needs_quorum_witness:
  "let rf = demo_leader\<lparr>matchIndex := [0, 2, 0]\<rparr>; rf' = projr (commit rf)
   in commit rf = Inr rf' \<and> commitIndex rf < commitIndex rf' \<and>
      3 < 2 * length (filter (\<lambda>m. commitIndex rf' \<le> m) (matchIndex rf'))"
proof -
  let ?rf = "demo_leader\<lparr>matchIndex := [0, 2, 0]\<rparr>"
  let ?rf' = "projr (commit ?rf)"
  have h: "commit ?rf = Inr ?rf'" "commitIndex ?rf' \<noteq> commitIndex ?rf" "length (matchIndex ?rf') = 3"
    by code_simp+
  from commit_needs_quorum [OF h(1,2)] h(1,3) show ?thesis by (auto simp: Let_def)
qed

text \<open>
  With an even number of peers the commit rule is not a majority rule: a leader of
  four peers commits an entry that it and one other peer hold, because
  \<^verbatim>\<open>sortedMatchIndex[n/2]\<close> is the upper median.
\<close>

theorem commit_even_without_majority:
  "let rf = demo_leader\<lparr>npeers := 4, nextIndex := [3, 3, 1, 1], matchIndex := [0, 2, 0, 0]\<rparr>;
       rf' = projr (commit rf)
   in commit rf = Inr rf' \<and> commitIndex rf < commitIndex rf' \<and>
      length (filter (\<lambda>m. commitIndex rf' \<le> m) (matchIndex rf')) = 2"
  by code_simp

section \<open>The messages of a heartbeat round\<close>

lemma heartBeat_msg_AE:
  assumes "heartBeat_msg rf n = Inr (AERpc a)"
  shows "snapshotIndex rf < n" and "n \<le> GetLastLogIndex rf + 1" and "ae_PrevLogIndex a = n - 1"
    and "term_at rf (n - 1) = Some (ae_PrevLogTerm a)" and "ae_Term a = currentTerm rf"
    and "ae_Entries a = drop (nat (n - snapshotIndex rf)) (logs rf)"
    and "ae_LeaderCommit a = commitIndex rf"
  using assms
  by (auto simp: heartBeat_msg_def log_at_entry entry_def term_at_def go_access_iff index_def
      split: if_splits option.splits)

lemma heartBeat_msgs_in:
  assumes "heartBeat_msgs rf i ns = Inr ms" and "(p, m) \<in> set ms"
  shows "p \<noteq> me rf \<and> i \<le> p \<and> p < i + int (length ns) \<and> heartBeat_msg rf (ns ! nat (p - i)) = Inr m"
  using assms
proof (induction ns arbitrary: i ms)
  case (Cons n ns)
  show ?case
  proof (cases "p = i")
    case True
    with Cons show ?thesis by (fastforce split: if_splits)
  next
    case False
    obtain ms' where ms': "heartBeat_msgs rf (i + 1) ns = Inr ms'" "(p, m) \<in> set ms'"
      using Cons.prems False by (auto split: if_splits)
    from Cons.IH [OF this] have "p \<noteq> me rf" "i + 1 \<le> p" "p < i + 1 + int (length ns)"
      "heartBeat_msg rf (ns ! nat (p - (i + 1))) = Inr m" by auto
    moreover from this(2) have "nat (p - i) = Suc (nat (p - (i + 1)))" by simp
    ultimately show ?thesis by simp
  qed
qed simp

lemma entry_drop:
  assumes "snapshotIndex rf < n" and "k < length (drop (nat (n - snapshotIndex rf)) (logs rf))"
  shows "entry rf (n + int k) = Some (drop (nat (n - snapshotIndex rf)) (logs rf) ! k)"
  using assms
  by (auto simp: entry_def GetLastLogIndex_def nat_add_distrib intro!: arg_cong [where f = "nth (logs rf)"])

lemma heartBeat_leader:
  assumes "heartBeat fromCh rf = Inr (rf', ms)" and "(p, m) \<in> set ms"
  shows "raftState rf = RaftLeader" and "heartBeat_msgs rf 0 (nextIndex rf) = Inr ms"
proof -
  have *: "heartBeat_msgs (rf\<lparr>newEntryCh := b\<rparr>) i ns = heartBeat_msgs rf i ns" for b i ns
    by (induction ns arbitrary: i)
       (simp_all add: heartBeat_msg_def log_at_def index_def)
  show "raftState rf = RaftLeader" "heartBeat_msgs rf 0 (nextIndex rf) = Inr ms"
    using assms * by (auto simp: heartBeat_def Let_def split: if_splits)
qed

text \<open>
  C10: One round of replication brings the follower's log into agreement with the leader's.
  If a follower accepts the AppendEntries message that the leader's heartbeat built for
  it, then from \<^verbatim>\<open>nextIndex - 1\<close> up to the leader's last entry both logs carry the same
  terms, the follower's log is at least as long, and the follower's commit index does not
  exceed its own log because of this message.
\<close>

theorem heartBeat_replicates:
  assumes "heartBeat fromCh ldr = Inr (ldr', ms)" and "(p, AERpc args) \<in> set ms"
    and "AppendEntries clk args fol = Inr (fol', reply)" and "aer_Success reply"
  shows "(\<forall>i. ae_PrevLogIndex args \<le> i \<and> i \<le> GetLastLogIndex ldr \<longrightarrow> term_at fol' i = term_at ldr i) \<and>
    ae_PrevLogIndex args = nextIndex ldr ! nat p - 1 \<and>
    GetLastLogIndex ldr \<le> GetLastLogIndex fol' \<and>
    commitIndex fol' \<le> max (commitIndex fol) (min (commitIndex ldr) (GetLastLogIndex fol'))"
proof -
  let ?n = "nextIndex ldr ! nat p"
  have "heartBeat_msg ldr ?n = Inr (AERpc args)"
    using heartBeat_msgs_in [OF heartBeat_leader(2) [OF assms(1,2)] assms(2)] by simp
  note h = heartBeat_msg_AE [OF this]
  have t: "term_at fol' i = term_at ldr i" if "ae_PrevLogIndex args \<le> i" "i \<le> GetLastLogIndex ldr" for i
  proof (cases "i = ae_PrevLogIndex args")
    case True
    with h AE_success_prefix [OF assms(3,4), of i] AE_success_append(2) [OF assms(3,4)]
    show ?thesis by (auto simp: term_at_def)
  next
    case False
    define k where "k = nat (i - ?n)"
    have k: "i = ?n + int k" "k < length (ae_Entries args)"
      using False that h by (auto simp: k_def GetLastLogIndex_def)
    have "term_at fol' i = Some (le_Term (ae_Entries args ! k))"
      using AE_success_terms [OF assms(3,4) k(2)] h(3) k(1) by simp
    moreover have "entry ldr i = Some (ae_Entries args ! k)"
      using entry_drop [OF h(1), of k] k h(6) by simp
    ultimately show ?thesis by (simp add: term_at_def)
  qed
  have "GetLastLogIndex ldr \<le> GetLastLogIndex fol'"
  proof (cases "ae_PrevLogIndex args \<le> GetLastLogIndex ldr")
    case True
    obtain x where "term_at ldr (GetLastLogIndex ldr) = Some x"
      using entry_in_range [of ldr "GetLastLogIndex ldr"] True h(1,3) by (auto simp: term_at_def)
    with t [OF True] term_at_bounds [of fol' "GetLastLogIndex ldr" x] show ?thesis by auto
  qed (use h in auto)
  with t h AE_success_commit(1) [OF assms(3,4)] show ?thesis by auto
qed

theorem heartBeat_replicates_witness:
  "let args = \<lparr>ae_Term = 2, ae_LeaderID = 0, ae_PrevLogIndex = 0, ae_PrevLogTerm = 0,
         ae_Entries = ae_Entries (demo_args 2), ae_LeaderCommit = 0\<rparr>;
       fol' = fst (projr (AppendEntries demo_clock args (demo_peer 2)))
   in term_at fol' 2 = term_at demo_leader 2 \<and> GetLastLogIndex demo_leader \<le> GetLastLogIndex fol'"
proof -
  let ?args = "\<lparr>ae_Term = 2, ae_LeaderID = 0, ae_PrevLogIndex = 0, ae_PrevLogTerm = 0,
         ae_Entries = ae_Entries (demo_args 2), ae_LeaderCommit = 0\<rparr>"
  let ?a = "AppendEntries demo_clock ?args (demo_peer 2)"
  let ?h = "heartBeat False demo_leader"
  have h: "returns ?h" "List.member (snd (projr ?h)) (2, AERpc ?args)" "returns ?a"
    "aer_Success (snd (projr ?a))" "GetLastLogIndex demo_leader = 2" by code_simp+
  have "(2, AERpc ?args) \<in> set (snd (projr ?h))" using h(2) by simp
  from heartBeat_replicates [OF returns_pair [OF h(1)] this returns_pair [OF h(3)] h(4)] h(5)
  show ?thesis by (simp add: Let_def)
qed

section \<open>Hand-over to the service\<close>

lemma collect_spec:
  assumes "collect rf i n = Inr ms"
  shows "length ms = n \<and> (\<forall>k<n. \<exists>e. entry rf (i + int k) = Some e \<and> ms ! k = commandMsg (i + int k) e)"
  using assms
proof (induction n arbitrary: i ms)
  case (Suc n)
  from Suc.prems obtain e ms' where e: "entry rf i = Some e" "collect rf (i + 1) n = Inr ms'"
    "ms = commandMsg i e # ms'" by (auto simp: log_at_Inr_iff)
  with Suc.IH [OF e(2)] show ?case
    by (auto simp: less_Suc_eq_0_disj nth_Cons algebra_simps split: nat.splits)
qed simp

lemma collect_returns:
  assumes "snapshotIndex rf \<le> i" and "i + int n \<le> GetLastLogIndex rf + 1"
  shows "returns (collect rf i n)"
  using assms
proof (induction n arbitrary: i)
  case (Suc n)
  obtain e where "entry rf i = Some e" using entry_in_range [of rf i] Suc.prems by auto
  moreover obtain ms where "collect rf (i + 1) n = Inr ms"
    using Suc.IH [of "i + 1"] Suc.prems by (auto simp: returns_iff)
  ultimately show ?case by (simp add: log_at_entry)
qed simp

text \<open>
  The apply loop hands over the log in order and without gaps: when
  \<^verbatim>\<open>snapshotIndex \<le> lastApplied \<le> commitIndex \<le>\<close> last index, one pass does not panic, sends
  exactly the commands at \<^verbatim>\<open>lastApplied+1 .. commitIndex\<close>, each with its index and the
  command of the log entry there, and ends with \<^verbatim>\<open>lastApplied = commitIndex\<close>.
\<close>

theorem apply_loop_delivers_in_order:
  assumes "snapshotIndex rf \<le> lastApplied rf" and "lastApplied rf \<le> commitIndex rf"
    and "commitIndex rf \<le> GetLastLogIndex rf"
  shows "\<exists>ms. apply_loop rf = Inr (rf\<lparr>lastApplied := commitIndex rf\<rparr>, ms) \<and>
    length ms = nat (commitIndex rf - lastApplied rf) \<and>
    (\<forall>k < length ms. \<exists>e. entry rf (lastApplied rf + 1 + int k) = Some e \<and>
       ms ! k = commandMsg (lastApplied rf + 1 + int k) e)"
proof (cases "lastApplied rf < commitIndex rf")
  case True
  obtain ms where ms: "collect rf (lastApplied rf + 1) (nat (commitIndex rf - lastApplied rf)) = Inr ms"
    using collect_returns [of rf "lastApplied rf + 1" "nat (commitIndex rf - lastApplied rf)"] assms
    by (auto simp: returns_iff)
  with True collect_spec [OF ms] assms show ?thesis
    by (auto simp: apply_loop_def Let_def)
next
  case False
  with assms have "lastApplied rf = commitIndex rf" by simp
  then show ?thesis by (cases rf) (auto simp: apply_loop_def Let_def)
qed

theorem apply_loop_delivers_in_order_witness:
  "\<exists>ms. apply_loop (demo_leader\<lparr>commitIndex := 2\<rparr>) =
     Inr (demo_leader\<lparr>commitIndex := 2, lastApplied := 2\<rparr>, ms) \<and> length ms = 2"
proof -
  let ?rf = "demo_leader\<lparr>commitIndex := 2\<rparr>"
  have h: "snapshotIndex ?rf \<le> lastApplied ?rf" "lastApplied ?rf \<le> commitIndex ?rf"
    "commitIndex ?rf \<le> GetLastLogIndex ?rf" "lastApplied ?rf = 0" by code_simp+
  from apply_loop_delivers_in_order [OF h(1-3)] h(4) show ?thesis by auto
qed

end
