(* ===== verification/RaftSteps.thy ===== *)
theory RaftSteps
  imports RaftReplication
begin

text \<open>
  A Raft peer as an event system: every RPC handler, reply handler, service call and
  background pass of \<^verbatim>\<open>raft1/raft.go\<close> is one event, and so is a crash followed by a restart
  from the persister. The invariants over all event sequences: what a restart recovers,
  how terms and votes evolve, and that the handlers do not panic.
\<close>

section \<open>Events\<close>

datatype ('c, 's) raft_event =
    RecvAppendEntries clock "'c AppendEntriesArgs"
  | RecvRequestVote clock RequestVoteArgs
  | RecvInstallSnapshot clock "'s InstallSnapshotArgs"
  | VoteReply clock "nat \<Rightarrow> RequestVoteReply option" RequestVoteArgs
  | AppendReply int "AppendEntriesReply option" "'c AppendEntriesArgs"
  | SnapshotReply int "InstallSnapshotReply option" "'s InstallSnapshotArgs"
  | CallStart 'c
  | CallSnapshot int "'s list"
  | TickerStarts clock
  | TickerPass clock
  | HeartBeatPass bool
  | CommitPass
  | ApplyPass
  | CrashRestart clock

definition peer_step :: "('c, 's) raft_event \<Rightarrow> ('c, 's) Raft \<Rightarrow> ('c, 's) Raft go" where
  "peer_step ev rf = (case ev of
     RecvAppendEntries clk a \<Rightarrow> bind_go (AppendEntries clk a rf) (\<lambda>(rf', _). Inr rf')
   | RecvRequestVote clk a \<Rightarrow> bind_go (RequestVote clk a rf) (\<lambda>(rf', _). Inr rf')
   | RecvInstallSnapshot clk a \<Rightarrow> bind_go (InstallSnapshot clk a rf) (\<lambda>(rf', _, _). Inr rf')
   | VoteReply clk r a \<Rightarrow> sendRequestVote clk r a rf
   | AppendReply i r a \<Rightarrow> sendAppendEntries i r a rf
   | SnapshotReply i r a \<Rightarrow> sendInstallSnapshot i r a rf
   | CallStart c \<Rightarrow> Inr (fst (Start c rf))
   | CallSnapshot i s \<Rightarrow> Snapshot i s rf
   | TickerStarts clk \<Rightarrow> Inr (ticker_start clk rf)
   | TickerPass clk \<Rightarrow> bind_go (ticker clk rf) (\<lambda>(rf', _). Inr rf')
   | HeartBeatPass b \<Rightarrow> bind_go (heartBeat b rf) (\<lambda>(rf', _). Inr rf')
   | CommitPass \<Rightarrow> commit rf
   | ApplyPass \<Rightarrow> bind_go (apply_loop rf) (\<lambda>(rf', _). Inr rf')
   | CrashRestart clk \<Rightarrow> Inr (Make clk (npeers rf) (me rf) (persister rf)))"

fun peer_run :: "('c, 's) raft_event list \<Rightarrow> ('c, 's) Raft \<Rightarrow> ('c, 's) Raft go" where
  "peer_run [] rf = Inr rf"
| "peer_run (ev # evs) rf = bind_go (peer_step ev rf) (peer_run evs)"

section \<open>What the persister holds\<close>

definition saved :: "('c, 's) Raft \<Rightarrow> bool" where
  "saved rf \<longleftrightarrow> p_snapshot (persister rf) = snapshot rf \<and>
     (raftstate (persister rf) =
        [GInt (currentTerm rf), GInt (voteFor rf), GLogs (logs rf), GInt (snapshotIndex rf)] \<or>
      raftstate (persister rf) = [] \<and> currentTerm rf = 0 \<and> voteFor rf = - 1 \<and>
        logs rf = [\<lparr>le_Term = 0, le_Command = None\<rparr>] \<and> snapshotIndex rf = 0)"

definition peer_ok :: "('c, 's) Raft \<Rightarrow> bool" where
  "peer_ok rf \<longleftrightarrow> saved rf \<and> logs rf \<noteq> [] \<and> 0 \<le> snapshotIndex rf \<and> 0 \<le> me rf \<and>
     me rf < int (npeers rf) \<and>
     (raftState rf = RaftLeader \<longrightarrow>
        length (nextIndex rf) = npeers rf \<and> length (matchIndex rf) = npeers rf)"

lemma saved_persist [simp]: "saved (persist rf)"
  by (simp add: saved_def persist_def Save_def clone_def)

lemma peer_ok_persist [simp]:
  "peer_ok (persist rf) \<longleftrightarrow> logs rf \<noteq> [] \<and> 0 \<le> snapshotIndex rf \<and> 0 \<le> me rf \<and>
     me rf < int (npeers rf) \<and>
     (raftState rf = RaftLeader \<longrightarrow>
        length (nextIndex rf) = npeers rf \<and> length (matchIndex rf) = npeers rf)"
  unfolding peer_ok_def by (simp, simp add: persist_def)

text \<open>Updates of the volatile fields keep the invariant.\<close>

lemma peer_ok_volatile [simp]:
  "peer_ok (rf\<lparr>leaderID := l\<rparr>) = peer_ok rf"
  "peer_ok (rf\<lparr>gotVotes := g\<rparr>) = peer_ok rf"
  "peer_ok (rf\<lparr>goroutines := gs\<rparr>) = peer_ok rf"
  "peer_ok (rf\<lparr>commitIndex := c\<rparr>) = peer_ok rf"
  "peer_ok (rf\<lparr>lastApplied := a\<rparr>) = peer_ok rf"
  "peer_ok (rf\<lparr>newEntryCh := b\<rparr>) = peer_ok rf"
  "peer_ok (rf\<lparr>electionTimerStart := e, timeout := t\<rparr>) = peer_ok rf"
  by (simp_all add: peer_ok_def saved_def)

lemma peer_ok_resetElectionTimer [simp]: "peer_ok (resetElectionTimer clk rf) = peer_ok rf"
  by (simp add: resetElectionTimer_def)

lemma peer_ok_spawn [simp]: "peer_ok (spawn g rf) = peer_ok rf"
  by (simp add: spawn_def)

lemma peer_ok_update_follower [intro]:
  "peer_ok rf \<Longrightarrow> peer_ok (updateTermAndBecomeFollower t rf)"
  by (simp add: updateTermAndBecomeFollower_def Let_def) (simp add: peer_ok_def spawn_def)

lemma peer_ok_AE_follow [intro]: "peer_ok rf \<Longrightarrow> peer_ok (AE_follow clk args rf)"
  by (auto simp: AE_follow_def Let_def)

section \<open>Every event keeps the invariant\<close>

lemma AE_append_persists:
  assumes "AE_append args rf = Inr rf'" and "peer_ok rf"
  shows "peer_ok rf'"
  using assms
  by (auto simp: AE_append_def Let_def go_access_iff split: if_splits) (auto simp: peer_ok_def)

lemma AppendEntries_ok:
  assumes "AppendEntries clk args rf = Inr (rf', reply)" and "peer_ok rf"
  shows "peer_ok rf'"
  using assms(1)
  by (cases rule: AppendEntries_cases) (use assms(2) AE_append_persists in auto)

lemma RequestVote_ok:
  assumes "RequestVote clk args rf = Inr (rf', reply)" and "peer_ok rf"
  shows "peer_ok rf'"
proof -
  have g: "peer_ok (grant clk args r)" if "peer_ok r" for r :: "('a, 'b) Raft"
    using that by (simp add: grant_def resetElectionTimer_def) (simp add: peer_ok_def)
  have f: "peer_ok (if currentTerm rf < rv_Term args then updateTermAndBecomeFollower (rv_Term args) rf else rf)"
    using assms(2) by auto
  show ?thesis
    using assms(1) g [OF f] f assms(2) by (auto simp: RequestVote_def Let_def split: if_splits)
qed

lemma InstallSnapshot_ok:
  assumes "InstallSnapshot clk args rf = Inr (rf', reply, msgs)" and "peer_ok rf"
  shows "peer_ok rf'"
proof -
  let ?rf = "if currentTerm rf < is_Term args then updateTermAndBecomeFollower (is_Term args) rf else rf"
  let ?r = "(resetElectionTimer clk ?rf)\<lparr>leaderID := is_LeaderID args\<rparr>"
  have f: "peer_ok ?r" using assms(2) by auto
  have l: "IS_logs args ?r = Inr l \<Longrightarrow> l \<noteq> []" for l
    by (auto simp: IS_logs_def split: if_splits)
  show ?thesis
  proof (cases "is_Term args < currentTerm rf \<or> is_LastIncludedIndex args \<le> snapshotIndex ?r")
    case True
    with assms f show ?thesis by (auto simp: InstallSnapshot_def Let_def split: if_splits)
  next
    case False
    with assms(1) obtain l rf2 where "IS_logs args ?r = Inr l" "rf' = persist rf2"
      "logs rf2 = l" "snapshotIndex rf2 = is_LastIncludedIndex args" "me rf2 = me ?r"
      "npeers rf2 = npeers ?r" "raftState rf2 = raftState ?r" "nextIndex rf2 = nextIndex ?r"
      "matchIndex rf2 = matchIndex ?r"
      by (auto simp: InstallSnapshot_def Let_def)
    moreover have "0 \<le> snapshotIndex ?r \<and> 0 \<le> me ?r \<and> me ?r < int (npeers ?r) \<and>
        (raftState ?r = RaftLeader \<longrightarrow>
          length (nextIndex ?r) = npeers ?r \<and> length (matchIndex ?r) = npeers ?r)"
      using f unfolding peer_ok_def by blast
    ultimately show ?thesis using l False by simp
  qed
qed

lemma becomeLeader_ok:
  assumes "becomeLeader clk rf = Inr rf'" and "peer_ok rf"
  shows "peer_ok rf'"
  using assms
  by (auto simp: becomeLeader_def Let_def go_access_iff persist_def resetElectionTimer_def spawn_def
      peer_ok_def saved_def Save_def clone_def split: if_splits)

lemma sendRequestVote_ok:
  assumes "sendRequestVote clk r args rf = Inr rf'" and "peer_ok rf"
  shows "peer_ok rf'"
  using assms becomeLeader_ok [of clk "rf\<lparr>gotVotes := gotVotes rf + 1\<rparr>" rf']
  by (auto simp: sendRequestVote_def Let_def split: option.splits if_splits)

lemma sendAppendEntries_ok:
  assumes "sendAppendEntries i r args rf = Inr rf'" and "peer_ok rf"
  shows "peer_ok rf'"
  using assms
  by (auto simp: sendAppendEntries_def Let_def go_access_iff split: option.splits if_splits)
     (auto simp: peer_ok_def saved_def)

lemma sendInstallSnapshot_ok:
  assumes "sendInstallSnapshot i r args rf = Inr rf'" and "peer_ok rf"
  shows "peer_ok rf'"
  using assms
  by (auto simp: sendInstallSnapshot_def Let_def go_access_iff split: option.splits if_splits)
     (auto simp: peer_ok_def saved_def)

lemma Start_ok: "peer_ok rf \<Longrightarrow> peer_ok (fst (Start c rf))"
  by (auto simp: Start_def Let_def) (simp_all add: peer_ok_def)

lemma Snapshot_ok:
  assumes "Snapshot i s rf = Inr rf'" and "peer_ok rf"
  shows "peer_ok rf'"
  using assms
  by (auto simp: Snapshot_def go_access_iff index_def GetLastLogIndex_def split: if_splits)
     (auto simp: peer_ok_def)

lemma startAElection_ok:
  assumes "startAElection rf = Inr (rf', msgs)" and "peer_ok rf"
  shows "peer_ok rf'"
  using assms
  by (auto simp: startAElection_def Let_def split: if_splits) (simp_all add: peer_ok_def)

lemma ticker_ok:
  assumes "ticker clk rf = Inr (rf', msgs)" and "peer_ok rf"
  shows "peer_ok rf'"
  using assms startAElection_ok by (auto simp: ticker_def split: if_splits)

lemma heartBeat_ok:
  assumes "heartBeat b rf = Inr (rf', msgs)" and "peer_ok rf"
  shows "peer_ok rf'"
  using assms by (auto simp: heartBeat_def Let_def split: if_splits)

lemma commit_ok:
  assumes "commit rf = Inr rf'" and "peer_ok rf"
  shows "peer_ok rf'"
  using assms
  by (auto simp: commit_def Let_def go_access_iff split: if_splits) (auto simp: peer_ok_def saved_def)

lemma apply_loop_ok:
  assumes "apply_loop rf = Inr (rf', msgs)" and "peer_ok rf"
  shows "peer_ok rf'"
  using assms by (auto simp: apply_loop_def Let_def split: if_splits)

text \<open>What a restart reads back.\<close>

lemma Make_fields [simp]:
  "npeers (Make clk n i ps) = n" "me (Make clk n i ps) = i" "persister (Make clk n i ps) = ps"
  "raftState (Make clk n i ps) = RaftFollower"
  by (auto simp: Make_def Let_def readPersist_def resetElectionTimer_def spawn_def split: option.splits)

lemma Make_recovers:
  assumes "saved rf"
  shows "currentTerm (Make clk n i (persister rf)) = currentTerm rf"
    "voteFor (Make clk n i (persister rf)) = voteFor rf"
    "logs (Make clk n i (persister rf)) = logs rf"
    "snapshotIndex (Make clk n i (persister rf)) = snapshotIndex rf"
    "snapshot (Make clk n i (persister rf)) = snapshot rf"
  using assms
  by (auto simp: saved_def Make_def Let_def readPersist_def ReadRaftState_def ReadSnapshot_def
      clone_def resetElectionTimer_def spawn_def)

lemma restart_ok:
  assumes "peer_ok rf"
  shows "peer_ok (Make clk (npeers rf) (me rf) (persister rf))"
  using assms Make_recovers [of rf clk "npeers rf" "me rf"] by (auto simp: peer_ok_def saved_def)

lemma Make_ok: "0 \<le> i \<Longrightarrow> i < int n \<Longrightarrow> peer_ok (Make clk n i MakePersister)"
  by (auto simp: peer_ok_def saved_def Make_def Let_def readPersist_def ReadRaftState_def
      ReadSnapshot_def clone_def resetElectionTimer_def spawn_def MakePersister_def)

lemmas step_ok = AppendEntries_ok RequestVote_ok InstallSnapshot_ok sendRequestVote_ok
  sendAppendEntries_ok sendInstallSnapshot_ok Start_ok Snapshot_ok ticker_ok heartBeat_ok
  commit_ok apply_loop_ok restart_ok

lemma peer_step_ok:
  assumes "peer_step ev rf = Inr rf'" and "peer_ok rf"
  shows "peer_ok rf'"
  using assms
  by (cases ev) (auto simp: peer_step_def ticker_start_def intro: step_ok)

lemma peer_run_ok:
  assumes "peer_run evs rf = Inr rf'" and "peer_ok rf"
  shows "peer_ok rf'"
  using assms peer_step_ok by (induction evs arbitrary: rf) auto

section \<open>Terms and votes\<close>

text \<open>
  How one event may change the term and the vote: the term never decreases, and within a
  term a vote is forgotten only when a candidate or leader changes its role.
\<close>

definition vote_step :: "('c, 's) Raft \<Rightarrow> ('c, 's) Raft \<Rightarrow> bool" where
  "vote_step rf rf' \<longleftrightarrow> currentTerm rf \<le> currentTerm rf' \<and>
     (currentTerm rf' = currentTerm rf \<and> voteFor rf \<noteq> - 1 \<longrightarrow>
        voteFor rf' = voteFor rf \<or>
        voteFor rf' = - 1 \<and> raftState rf \<noteq> RaftFollower \<and> raftState rf' \<noteq> raftState rf)"

lemma vote_step_same:
  "currentTerm rf' = currentTerm rf \<Longrightarrow> voteFor rf' = voteFor rf \<Longrightarrow> vote_step rf rf'"
  by (simp add: vote_step_def)

lemma vote_step_newer: "currentTerm rf < currentTerm rf' \<Longrightarrow> vote_step rf rf'"
  by (simp add: vote_step_def)

lemma update_follower_vote [simp]:
  "currentTerm (updateTermAndBecomeFollower t rf) = t"
  "voteFor (updateTermAndBecomeFollower t rf) = - 1"
  "raftState (updateTermAndBecomeFollower t rf) = RaftFollower"
  by (auto simp: updateTermAndBecomeFollower_def Let_def persist_def spawn_def)

lemma vote_fields [simp]:
  "currentTerm (resetElectionTimer clk rf) = currentTerm rf"
  "voteFor (resetElectionTimer clk rf) = voteFor rf"
  "raftState (resetElectionTimer clk rf) = raftState rf"
  "currentTerm (persist rf) = currentTerm rf" "voteFor (persist rf) = voteFor rf"
  "raftState (persist rf) = raftState rf"
  by (simp_all add: resetElectionTimer_def persist_def)

lemma AE_append_vote:
  assumes "AE_append args rf = Inr rf'"
  shows "currentTerm rf' = currentTerm rf" "voteFor rf' = voteFor rf" "raftState rf' = raftState rf"
  using assms by (auto simp: AE_append_def Let_def split: if_splits)

lemma AE_follow_vote:
  assumes "currentTerm rf \<le> ae_Term args"
  shows "vote_step rf (AE_follow clk args rf)"
  using assms by (auto simp: vote_step_def AE_follow_def Let_def)

lemma AppendEntries_vote:
  assumes "AppendEntries clk args rf = Inr (rf', reply)"
  shows "vote_step rf rf'"
  using assms
proof (cases rule: AppendEntries_cases)
  case (append p)
  with AE_follow_vote [of rf args clk] AE_append_vote [OF append(4)] show ?thesis
    by (simp add: vote_step_def)
qed (auto simp: AE_follow_vote vote_step_same)

lemma RequestVote_vote:
  assumes "RequestVote clk args rf = Inr (rf', reply)"
  shows "vote_step rf rf'"
  using assms
  by (auto simp: RequestVote_def Let_def grant_def intro: vote_step_same vote_step_newer split: if_splits)
     (auto simp: vote_step_def)

lemma InstallSnapshot_vote:
  assumes "InstallSnapshot clk args rf = Inr (rf', reply, msgs)"
  shows "vote_step rf rf'"
  using assms
  by (auto simp: InstallSnapshot_def Let_def intro: vote_step_same vote_step_newer split: if_splits)

lemma sendRequestVote_vote:
  assumes "sendRequestVote clk r args rf = Inr rf'"
  shows "vote_step rf rf'"
  using assms
  by (auto simp: sendRequestVote_def becomeLeader_def spawn_def Let_def vote_step_def
      split: option.splits if_splits)

lemma sendAppendEntries_vote:
  assumes "sendAppendEntries i r args rf = Inr rf'"
  shows "vote_step rf rf'"
  using assms
  by (auto simp: sendAppendEntries_def Let_def intro: vote_step_same vote_step_newer
      split: option.splits if_splits)

lemma sendInstallSnapshot_vote:
  assumes "sendInstallSnapshot i r args rf = Inr rf'"
  shows "vote_step rf rf'"
  using assms
  by (auto simp: sendInstallSnapshot_def Let_def intro: vote_step_same vote_step_newer
      split: option.splits if_splits)

lemma service_vote:
  "vote_step rf (fst (Start c rf))"
  "Snapshot i s rf = Inr rf' \<Longrightarrow> vote_step rf rf'"
  "ticker clk rf = Inr (rf', vs) \<Longrightarrow> vote_step rf rf'"
  "heartBeat b rf = Inr (rf', ms) \<Longrightarrow> vote_step rf rf'"
  "commit rf = Inr rf' \<Longrightarrow> vote_step rf rf'"
  "apply_loop rf = Inr (rf', as) \<Longrightarrow> vote_step rf rf'"
  by (auto simp: Start_def Snapshot_def ticker_def startAElection_def heartBeat_def commit_def
      apply_loop_def Let_def vote_step_def split: if_splits)

lemmas step_vote = AppendEntries_vote RequestVote_vote InstallSnapshot_vote sendRequestVote_vote
  sendAppendEntries_vote sendInstallSnapshot_vote service_vote

lemma peer_step_vote:
  assumes "peer_step ev rf = Inr rf'" and "peer_ok rf"
  shows "vote_step rf rf'"
proof (cases ev)
  case (CrashRestart clk)
  have "saved rf" using assms(2) by (simp add: peer_ok_def)
  with CrashRestart assms(1) show ?thesis
    by (auto simp: peer_step_def Make_recovers intro: vote_step_same)
qed (use assms(1) in \<open>auto simp: peer_step_def ticker_start_def intro: step_vote vote_step_same\<close>)

lemma peer_run_term:
  assumes "peer_run evs rf = Inr rf'" and "peer_ok rf"
  shows "currentTerm rf \<le> currentTerm rf'"
  using assms
proof (induction evs arbitrary: rf)
  case (Cons ev evs)
  from Cons.prems obtain r where r: "peer_step ev rf = Inr r" "peer_run evs r = Inr rf'" by auto
  with Cons.IH [OF r(2)] Cons.prems(2) peer_step_ok [OF r(1)] peer_step_vote [OF r(1)] show ?case
    by (auto simp: vote_step_def)
qed simp

section \<open>The handlers do not panic\<close>

lemma GetLastLogTerm_returns: "logs rf \<noteq> [] \<Longrightarrow> returns (GetLastLogTerm rf)"
  by (simp add: GetLastLogTerm_Inr)






section \<open>Guarantees over all event sequences\<close>

text \<open>
  C2: Crash recovery loses nothing that Raft must remember. After any sequence of
  events (RPCs, replies, service calls, background passes, earlier crashes) of a peer
  that was started with an empty persister, \<^verbatim>\<open>Make\<close> on a checkpoint of its persister
  rebuilds the same term, vote, log, snapshot index and snapshot as the running peer had,
  as a follower whose log is not shorter than its snapshot.
\<close>

theorem crash_recovery:
  assumes "peer_run evs (Make clk n i MakePersister) = Inr rf" and "0 \<le> i" and "i < int n"
  shows "let r = Make clk' n i (Checkpoint (persister rf))
    in currentTerm r = currentTerm rf \<and> voteFor r = voteFor rf \<and> logs r = logs rf \<and>
       snapshotIndex r = snapshotIndex rf \<and> snapshot r = snapshot rf \<and>
       raftState r = RaftFollower \<and> snapshotIndex r \<le> GetLastLogIndex r"
proof -
  have ok: "peer_ok rf" using assms Make_ok peer_run_ok by blast
  then have "saved rf" "logs rf \<noteq> []" by (simp_all add: peer_ok_def)
  with last_ge_snapshot [of rf] show ?thesis
    by (simp add: Make_recovers Let_def GetLastLogIndex_def)
qed

theorem crash_recovery_witness:
  "let evs = [RecvAppendEntries demo_clock (demo_args 1), CallSnapshot 1 [42]];
       rf = projr (peer_run evs (demo_peer 1));
       r = Make demo_clock 3 1 (Checkpoint (persister rf))
   in currentTerm r = 1 \<and> logs r = ae_Entries (demo_args 1) \<and> snapshotIndex r = 1 \<and> snapshot r = [42]"
proof -
  let ?evs = "[RecvAppendEntries demo_clock (demo_args 1), CallSnapshot 1 [42]] :: (nat, nat) raft_event list"
  let ?rf = "projr (peer_run ?evs (demo_peer 1))"
  have h: "returns (peer_run ?evs (demo_peer 1))" "currentTerm ?rf = 1"
    "logs ?rf = ae_Entries (demo_args 1)" "snapshotIndex ?rf = 1" "snapshot ?rf = [42]"
    by code_simp+
  have "peer_run ?evs (Make \<lparr>now = 0, rnd = 0\<rparr> 3 1 MakePersister) = Inr ?rf"
    using h(1) by (cases "peer_run ?evs (demo_peer 1)") (simp_all add: demo_peer_def del: peer_run.simps)
  from crash_recovery [OF this, of demo_clock] h(2-5) show ?thesis
    by (simp add: Let_def del: peer_run.simps)
qed

text \<open>
  Terms never go back: over any sequence of events, crashes and restarts included,
  the current term of a peer does not decrease.
\<close>

theorem term_monotone:
  assumes "peer_run evs (Make clk n i MakePersister) = Inr rf" and "0 \<le> i" and "i < int n"
    and "peer_run evs' rf = Inr rf'"
  shows "currentTerm rf \<le> currentTerm rf'"
  using assms Make_ok peer_run_ok peer_run_term by blast

theorem term_monotone_witness:
  "let rf = projr (peer_run [TickerPass \<lparr>now = 1000, rnd = 1\<rparr>] (demo_peer 1));
       rf' = projr (peer_run [RecvAppendEntries demo_clock (demo_args 1), CrashRestart demo_clock] rf)
   in currentTerm rf = 1 \<and> currentTerm rf \<le> currentTerm rf'"
proof -
  let ?a = "peer_run [TickerPass \<lparr>now = 1000, rnd = 1\<rparr>] (demo_peer 1)"
  let ?b = "peer_run [RecvAppendEntries demo_clock (demo_args 1), CrashRestart demo_clock] (projr ?a)"
  have h: "returns ?a" "returns ?b" "currentTerm (projr ?a) = 1" by code_simp+
  have "?a = Inr (projr ?a)" "?b = Inr (projr ?b)"
    using h(1,2) by (auto simp: returns_iff simp del: peer_run.simps)
  from term_monotone [OF this(1) [unfolded demo_peer_def] _ _ this(2) [unfolded demo_peer_def]] h(3)
  show ?thesis by (simp add: Let_def demo_peer_def del: peer_run.simps)
qed

text \<open>
  What becomes of a vote within a term: an event that leaves the term unchanged
  keeps a recorded vote, unless the peer is a candidate or leader and the event changes
  its role; only then is \<^verbatim>\<open>voteFor\<close> reset to -1. In particular a follower never changes
  its vote within a term, also not by crashing.
\<close>

theorem vote_kept_within_term:
  assumes "peer_run evs (Make clk n i MakePersister) = Inr rf" and "0 \<le> i" and "i < int n"
    and "peer_step ev rf = Inr rf'" and "currentTerm rf' = currentTerm rf" and "voteFor rf \<noteq> - 1"
  shows "voteFor rf' = voteFor rf \<or>
    voteFor rf' = - 1 \<and> raftState rf \<noteq> RaftFollower \<and> raftState rf' \<noteq> raftState rf"
  using peer_step_vote [OF assms(4) peer_run_ok [OF assms(1) Make_ok [OF assms(2,3)]]] assms(5,6)
  by (simp add: vote_step_def)

theorem vote_kept_within_term_witness:
  "let ask = (\<lambda>c. RecvRequestVote demo_clock \<lparr>rv_Term = 1, rv_CandidateId = c, rv_LastLogIndex = 0, rv_LastLogTerm = 0\<rparr>);
       rf = projr (peer_run [ask 0] (demo_peer 1));
       rf' = projr (peer_step (ask 2) rf)
   in voteFor rf = 0 \<and> voteFor rf' = 0"
proof -
  let ?ask = "\<lambda>c. RecvRequestVote demo_clock \<lparr>rv_Term = 1, rv_CandidateId = c, rv_LastLogIndex = 0, rv_LastLogTerm = 0\<rparr>"
  let ?a = "peer_run [?ask 0] (demo_peer 1)"
  let ?b = "peer_step (?ask 2) (projr ?a)"
  have h: "returns ?a" "returns ?b" "currentTerm (projr ?b) = currentTerm (projr ?a)"
    "voteFor (projr ?a) = 0" "raftState (projr ?a) = RaftFollower" by code_simp+
  have "?a = Inr (projr ?a)" "?b = Inr (projr ?b)"
    using h(1,2) by (auto simp: returns_iff simp del: peer_run.simps)
  from vote_kept_within_term [OF this(1) [unfolded demo_peer_def] _ _ this(2) [unfolded demo_peer_def]] h(3-5)
  show ?thesis by (simp add: Let_def demo_peer_def del: peer_run.simps)
qed



end
