(* ===== verification/RaftCluster.thy ===== *)
theory RaftCluster
  imports RaftSteps
begin

text \<open>
  A cluster of Raft peers over a network that may lose, delay, duplicate and reorder RPCs
  (\<^verbatim>\<open>labrpc\<close> delivers a call zero or more times to the handler and returns at most one reply
  to the caller). The election logic of \<^verbatim>\<open>raft1/raft.go\<close> is checked here: every leader has
  the votes of a majority, and the ways in which one term can nevertheless see two leaders.
\<close>

section \<open>Calls in flight\<close>

text \<open>
  One entry per outstanding \<^verbatim>\<open>sendRequestVote\<close>, \<^verbatim>\<open>sendAppendEntries\<close> or \<^verbatim>\<open>sendInstallSnapshot\<close>
  goroutine: from which peer, to which peer, with which arguments; the \<open>Done\<close> forms hold
  the reply that the caller has yet to process.
\<close>

datatype ('c, 's) rpc_call =
    VoteCall nat nat RequestVoteArgs
  | VoteDone nat nat RequestVoteArgs RequestVoteReply
  | AppendCall nat nat "'c AppendEntriesArgs"
  | AppendDone nat nat "'c AppendEntriesArgs" AppendEntriesReply
  | SnapCall nat nat "'s InstallSnapshotArgs"
  | SnapDone nat nat "'s InstallSnapshotArgs" InstallSnapshotReply

text \<open>
  \<open>granted\<close> is a record of the votes that were given (voter, term, candidate); it has no
  counterpart in the code and influences nothing.
\<close>

record ('c, 's) Cluster =
  peers :: "('c, 's) Raft list"
  calls :: "('c, 's) rpc_call list"
  granted :: "(nat \<times> int \<times> nat) set"

datatype ('c, 's) action =
    Tick nat clock
  | Beat nat bool
  | Local nat "('c, 's) raft_event"
  | Deliver bool nat clock
  | Process nat clock
  | GiveUp nat

definition init_cluster :: "clock \<Rightarrow> nat \<Rightarrow> ('c, 's) Cluster" where
  "init_cluster clk n = \<lparr>peers = map (\<lambda>i. Make clk n (int i) MakePersister) [0..<n],
                         calls = [], granted = {}\<rparr>"

definition remove_nth :: "nat \<Rightarrow> 'a list \<Rightarrow> 'a list" where
  "remove_nth k xs = take k xs @ drop (Suc k) xs"

text \<open>The events of a peer that need no message: service calls, background passes, restarts.\<close>

fun is_local :: "('c, 's) raft_event \<Rightarrow> bool" where
  "is_local (CallStart c) = True"
| "is_local (CallSnapshot i s) = True"
| "is_local (TickerStarts clk) = True"
| "is_local CommitPass = True"
| "is_local ApplyPass = True"
| "is_local (CrashRestart clk) = True"
| "is_local _ = False"

definition do_tick :: "nat \<Rightarrow> clock \<Rightarrow> ('c, 's) Cluster \<Rightarrow> ('c, 's) Cluster go" where
  "do_tick i clk c = bind_go (ticker clk (peers c ! i)) (\<lambda>(rf, ms).
     Inr (c\<lparr>peers := (peers c)[i := rf],
            calls := calls c @ map (\<lambda>(t, a). VoteCall i (nat t) a) ms,
            granted := (if currentTerm rf = currentTerm (peers c ! i) then granted c
                        else insert (i, currentTerm rf, i) (granted c))\<rparr>))"

definition do_beat :: "nat \<Rightarrow> bool \<Rightarrow> ('c, 's) Cluster \<Rightarrow> ('c, 's) Cluster go" where
  "do_beat i b c = bind_go (heartBeat b (peers c ! i)) (\<lambda>(rf, ms).
     Inr (c\<lparr>peers := (peers c)[i := rf],
            calls := calls c @ map (\<lambda>(t, m). case m of AERpc a \<Rightarrow> AppendCall i (nat t) a
                                                    | ISRpc a \<Rightarrow> SnapCall i (nat t) a) ms\<rparr>))"

text \<open>The handler runs; if the reply is lost the call stays open and may be delivered again.\<close>

definition do_deliver :: "bool \<Rightarrow> nat \<Rightarrow> clock \<Rightarrow> ('c, 's) Cluster \<Rightarrow> ('c, 's) Cluster go" where
  "do_deliver lost k clk c =
     (case calls c ! k of
        VoteCall f t a \<Rightarrow> bind_go (RequestVote clk a (peers c ! t)) (\<lambda>(rf, r).
          Inr (c\<lparr>peers := (peers c)[t := rf],
                 calls := (if lost then calls c else (calls c)[k := VoteDone f t a r]),
                 granted := (if rvr_VoteGranted r then insert (t, rv_Term a, f) (granted c) else granted c)\<rparr>))
      | AppendCall f t a \<Rightarrow> bind_go (AppendEntries clk a (peers c ! t)) (\<lambda>(rf, r).
          Inr (c\<lparr>peers := (peers c)[t := rf],
                 calls := (if lost then calls c else (calls c)[k := AppendDone f t a r])\<rparr>))
      | SnapCall f t a \<Rightarrow> bind_go (InstallSnapshot clk a (peers c ! t)) (\<lambda>(rf, r, _).
          Inr (c\<lparr>peers := (peers c)[t := rf],
                 calls := (if lost then calls c else (calls c)[k := SnapDone f t a r])\<rparr>))
      | _ \<Rightarrow> Inr c)"

definition do_process :: "nat \<Rightarrow> clock \<Rightarrow> ('c, 's) Cluster \<Rightarrow> ('c, 's) Cluster go" where
  "do_process k clk c =
     (case calls c ! k of
        VoteDone f t a r \<Rightarrow> bind_go (sendRequestVote clk (\<lambda>_. Some r) a (peers c ! f)) (\<lambda>rf.
          Inr (c\<lparr>peers := (peers c)[f := rf], calls := remove_nth k (calls c)\<rparr>))
      | AppendDone f t a r \<Rightarrow> bind_go (sendAppendEntries (int t) (Some r) a (peers c ! f)) (\<lambda>rf.
          Inr (c\<lparr>peers := (peers c)[f := rf], calls := remove_nth k (calls c)\<rparr>))
      | SnapDone f t a r \<Rightarrow> bind_go (sendInstallSnapshot (int t) (Some r) a (peers c ! f)) (\<lambda>rf.
          Inr (c\<lparr>peers := (peers c)[f := rf], calls := remove_nth k (calls c)\<rparr>))
      | _ \<Rightarrow> Inr c)"

definition cluster_do :: "('c, 's) action \<Rightarrow> ('c, 's) Cluster \<Rightarrow> ('c, 's) Cluster go" where
  "cluster_do act c = (case act of
     Tick i clk \<Rightarrow> if i < length (peers c) then do_tick i clk c else Inr c
   | Beat i b \<Rightarrow> if i < length (peers c) then do_beat i b c else Inr c
   | Local i ev \<Rightarrow> if i < length (peers c) \<and> is_local ev
       then bind_go (peer_step ev (peers c ! i)) (\<lambda>rf. Inr (c\<lparr>peers := (peers c)[i := rf]\<rparr>))
       else Inr c
   | Deliver lost k clk \<Rightarrow> if k < length (calls c) then do_deliver lost k clk c else Inr c
   | Process k clk \<Rightarrow> if k < length (calls c) then do_process k clk c else Inr c
   | GiveUp k \<Rightarrow> Inr (c\<lparr>calls := remove_nth k (calls c)\<rparr>))"

fun cluster_run :: "('c, 's) action list \<Rightarrow> ('c, 's) Cluster \<Rightarrow> ('c, 's) Cluster go" where
  "cluster_run [] c = Inr c"
| "cluster_run (act # acts) c = bind_go (cluster_do act c) (cluster_run acts)"

inductive reachable :: "clock \<Rightarrow> nat \<Rightarrow> ('c, 's) Cluster \<Rightarrow> bool" for clk n where
  start: "reachable clk n (init_cluster clk n)"
| step: "reachable clk n c \<Longrightarrow> cluster_do act c = Inr c' \<Longrightarrow> reachable clk n c'"

lemma run_reachable:
  assumes "reachable clk n c" and "cluster_run acts c = Inr c'"
  shows "reachable clk n c'"
  using assms by (induction acts arbitrary: c) (auto intro: reachable.step)

section \<open>Steps that elect nobody\<close>

definition quiet :: "('c, 's) Raft \<Rightarrow> ('c, 's) Raft \<Rightarrow> bool" where
  "quiet rf rf' \<longleftrightarrow> me rf' = me rf \<and> npeers rf' = npeers rf \<and> currentTerm rf \<le> currentTerm rf' \<and>
     (raftState rf' \<noteq> RaftFollower \<longrightarrow>
        raftState rf' = raftState rf \<and> currentTerm rf' = currentTerm rf \<and> gotVotes rf' = gotVotes rf)"

lemma quiet_same:
  "me rf' = me rf \<Longrightarrow> npeers rf' = npeers rf \<Longrightarrow> currentTerm rf' = currentTerm rf \<Longrightarrow>
   raftState rf' = raftState rf \<Longrightarrow> gotVotes rf' = gotVotes rf \<Longrightarrow> quiet rf rf'"
  by (simp add: quiet_def)

lemma quiet_follower:
  "currentTerm rf \<le> t \<Longrightarrow> quiet rf (updateTermAndBecomeFollower t rf)"
  by (simp add: quiet_def) (auto simp: raft_upd)

lemma quiet_AE_follow: "currentTerm rf \<le> ae_Term args \<Longrightarrow> quiet rf (AE_follow clk args rf)"
  by (auto simp: quiet_def raft_upd)

lemma quiet_fields:
  "quiet rf (rf'\<lparr>leaderID := l\<rparr>) = quiet rf rf'" "quiet rf (persist rf') = quiet rf rf'"
  "quiet rf (resetElectionTimer clk rf') = quiet rf rf'"
  by (simp_all add: quiet_def persist_def resetElectionTimer_def)

lemma quiet_AppendEntries:
  assumes "AppendEntries clk args rf = Inr (rf', reply)"
  shows "quiet rf rf'"
  using assms
proof (cases rule: AppendEntries_cases)
  case (append p)
  have "me rf' = me (AE_follow clk args rf)" "npeers rf' = npeers (AE_follow clk args rf)"
    "gotVotes rf' = gotVotes (AE_follow clk args rf)"
    using append(4) by (auto simp: AE_append_def Let_def persist_def split: if_splits)
  with AE_append_vote [OF append(4)] quiet_AE_follow [OF append(1), of clk] show ?thesis
    by (simp add: quiet_def)
qed (auto simp: quiet_AE_follow quiet_same)

lemma quiet_RequestVote:
  assumes "RequestVote clk args rf = Inr (rf', reply)"
  shows "quiet rf rf'"
  using assms quiet_follower [of rf "rv_Term args"]
  by (auto simp: RequestVote_def Let_def grant_def quiet_fields intro: quiet_same split: if_splits)
     (auto simp: quiet_def)

lemma quiet_snapshot_fields:
  "quiet rf (rf'\<lparr>logs := l, snapshot := d, snapshotIndex := i\<rparr>) = quiet rf rf'"
  "quiet rf (rf'\<lparr>commitIndex := j\<rparr>) = quiet rf rf'" "quiet rf (rf'\<lparr>lastApplied := j\<rparr>) = quiet rf rf'"
  by (simp_all add: quiet_def)

lemma quiet_InstallSnapshot:
  assumes "InstallSnapshot clk args rf = Inr (rf', reply, msgs)"
  shows "quiet rf rf'"
proof -
  let ?rf = "if currentTerm rf < is_Term args then updateTermAndBecomeFollower (is_Term args) rf else rf"
  have "quiet rf ?rf" by (simp add: quiet_follower quiet_same)
  with assms show ?thesis
    unfolding InstallSnapshot_def Let_def
    by (auto simp: quiet_fields quiet_snapshot_fields quiet_same simp del: if_split split: if_split_asm
        elim!: bind_go_InrE)
qed

lemma quiet_replies:
  "sendAppendEntries i r args rf = Inr rf' \<Longrightarrow> quiet rf rf'"
  "sendInstallSnapshot i r' args' rf = Inr rf' \<Longrightarrow> quiet rf rf'"
  by (auto simp: sendAppendEntries_def sendInstallSnapshot_def Let_def intro: quiet_same quiet_follower
      split: option.splits if_splits)

lemma quiet_heartBeat: "heartBeat b rf = Inr (rf', ms) \<Longrightarrow> quiet rf rf'"
  by (auto simp: heartBeat_def Let_def intro: quiet_same split: if_splits)

lemma quiet_local:
  assumes "is_local ev" and "peer_step ev rf = Inr rf'" and "peer_ok rf"
  shows "quiet rf rf'"
proof (cases ev)
  case (CrashRestart clk)
  have "saved rf" using assms(3) by (simp add: peer_ok_def)
  with CrashRestart assms(2) show ?thesis by (auto simp: peer_step_def quiet_def Make_recovers)
qed (use assms(1,2) in \<open>auto simp: peer_step_def Start_def Snapshot_def ticker_start_def commit_def
  apply_loop_def Let_def quiet_def persist_def resetElectionTimer_def split: if_splits\<close>)

section \<open>The election invariant\<close>

fun vote_key :: "('c, 's) rpc_call \<Rightarrow> (nat \<times> nat \<times> int) option" where
  "vote_key (VoteCall f t a) = Some (f, t, rv_Term a)"
| "vote_key (VoteDone f t a r) = Some (f, t, rv_Term a)"
| "vote_key _ = None"

definition vote_keys :: "('c, 's) rpc_call list \<Rightarrow> (nat \<times> nat \<times> int) option list" where
  "vote_keys cs = filter (\<lambda>k. \<not> Option.is_none k) (map vote_key cs)"

definition supporters :: "('c, 's) Cluster \<Rightarrow> nat \<Rightarrow> int \<Rightarrow> nat set" where
  "supporters c i t = {v. v < length (peers c) \<and> (v, t, i) \<in> granted c}"

text \<open>Votes whose call is finished: each of them was counted at most once.\<close>

definition counted :: "('c, 's) Cluster \<Rightarrow> nat \<Rightarrow> int \<Rightarrow> nat set" where
  "counted c i t = {v \<in> supporters c i t. Some (i, v, t) \<notin> set (vote_keys (calls c))}"

fun call_ok :: "('c, 's) Cluster \<Rightarrow> ('c, 's) rpc_call \<Rightarrow> bool" where
  "call_ok c (VoteCall f t a) = (f < length (peers c) \<and> t < length (peers c) \<and>
     rv_Term a \<le> currentTerm (peers c ! f))"
| "call_ok c (VoteDone f t a r) = (f < length (peers c) \<and> t < length (peers c) \<and>
     rv_Term a \<le> currentTerm (peers c ! f) \<and>
     (rvr_VoteGranted r \<longrightarrow> (t, rv_Term a, f) \<in> granted c))"
| "call_ok c (AppendCall f t a) = (f < length (peers c) \<and> t < length (peers c))"
| "call_ok c (AppendDone f t a r) = (f < length (peers c) \<and> t < length (peers c))"
| "call_ok c (SnapCall f t a) = (f < length (peers c) \<and> t < length (peers c))"
| "call_ok c (SnapDone f t a r) = (f < length (peers c) \<and> t < length (peers c))"

definition peer_inv :: "('c, 's) Cluster \<Rightarrow> nat \<Rightarrow> bool" where
  "peer_inv c i \<longleftrightarrow> (let rf = peers c ! i in
     peer_ok rf \<and> me rf = int i \<and> npeers rf = length (peers c) \<and>
     (raftState rf = RaftCandidate \<longrightarrow> gotVotes rf \<le> int (card (counted c i (currentTerm rf)))) \<and>
     (raftState rf = RaftLeader \<longrightarrow> length (peers c) < 2 * card (supporters c i (currentTerm rf))))"

definition cluster_inv :: "('c, 's) Cluster \<Rightarrow> bool" where
  "cluster_inv c \<longleftrightarrow> (\<forall>i < length (peers c). peer_inv c i) \<and>
     (\<forall>x \<in> set (calls c). call_ok c x) \<and> distinct (vote_keys (calls c))"

lemma finite_supporters [simp]: "finite (supporters c i t)"
  by (simp add: supporters_def)

lemma finite_counted [simp]: "finite (counted c i t)"
  by (simp add: counted_def)

lemma counted_supporters: "card (counted c i t) \<le> card (supporters c i t)"
  by (rule card_mono) (auto simp: counted_def)

text \<open>
  The frame rule of the invariant: one peer takes a quiet step, no vote call is added, and
  the record of granted votes may grow.
\<close>

lemma supporters_mono:
  assumes "length (peers c') = length (peers c)" and "granted c \<subseteq> granted c'"
  shows "supporters c i t \<subseteq> supporters c' i t"
  using assms by (auto simp: supporters_def)

lemma counted_mono:
  assumes "length (peers c') = length (peers c)" and "granted c \<subseteq> granted c'"
    and "set (vote_keys (calls c')) \<subseteq> set (vote_keys (calls c))"
  shows "counted c i t \<subseteq> counted c' i t"
  using assms(3) supporters_mono [OF assms(1,2), of i t] by (auto simp: counted_def)

lemma peer_inv_other:
  assumes "peer_inv c i" and "peers c' ! i = peers c ! i" and "length (peers c') = length (peers c)"
    and "granted c \<subseteq> granted c'"
    and "counted c i (currentTerm (peers c ! i)) \<subseteq> counted c' i (currentTerm (peers c ! i))"
  shows "peer_inv c' i"
  using assms card_mono [OF finite_counted assms(5)]
    card_mono [OF finite_supporters supporters_mono [OF assms(3,4)], of i "currentTerm (peers c ! i)"]
  by (auto simp: peer_inv_def Let_def)

lemma peer_inv_quiet:
  assumes "peer_inv c i" and "quiet (peers c ! i) (peers c' ! i)" and "peer_ok (peers c' ! i)"
    and "length (peers c') = length (peers c)" and "granted c \<subseteq> granted c'"
    and "set (vote_keys (calls c')) \<subseteq> set (vote_keys (calls c))"
  shows "peer_inv c' i"
proof -
  have s: "card (supporters c i t) \<le> card (supporters c' i t)" for t
    by (rule card_mono) (use supporters_mono [OF assms(4,5)] in auto)
  have k: "card (counted c i t) \<le> card (counted c' i t)" for t
    by (rule card_mono) (use counted_mono [OF assms(4-6)] in auto)
  show ?thesis
    using assms(1-4) s [of "currentTerm (peers c ! i)"] k [of "currentTerm (peers c ! i)"]
    by (auto simp: peer_inv_def quiet_def Let_def)
qed

lemma call_ok_mono:
  assumes "call_ok c x" and "length (peers c') = length (peers c)" and "granted c \<subseteq> granted c'"
    and "\<forall>i < length (peers c). currentTerm (peers c ! i) \<le> currentTerm (peers c' ! i)"
  shows "call_ok c' x"
  using assms by (cases x) (auto intro: order_trans)

lemma update_terms:
  assumes "currentTerm (peers c ! i) \<le> currentTerm rf'"
  shows "\<forall>j < length (peers c). currentTerm (peers c ! j) \<le> currentTerm ((peers c)[i := rf'] ! j)"
  using assms by (metis nth_list_update_eq nth_list_update_neq order_refl list_update_beyond not_le)

lemma inv_quiet_step:
  assumes "cluster_inv c" and "i < length (peers c)" and "quiet (peers c ! i) rf'" and "peer_ok rf'"
    and "peers c' = (peers c)[i := rf']" and "granted c \<subseteq> granted c'"
    and "set (vote_keys (calls c')) \<subseteq> set (vote_keys (calls c))" and "distinct (vote_keys (calls c'))"
    and "\<forall>x \<in> set (calls c'). x \<in> set (calls c) \<or> call_ok c' x"
  shows "cluster_inv c'"
proof -
  have len: "length (peers c') = length (peers c)" using assms(5) by simp
  have "peer_inv c' j" if "j < length (peers c)" for j
  proof (cases "j = i")
    case True
    have "peer_inv c i" using assms(1,2) by (simp add: cluster_inv_def)
    moreover have "peers c' ! i = rf'" using assms(2,5) by simp
    ultimately show ?thesis
      using peer_inv_quiet [of c i c', OF _ _ _ len assms(6,7)] assms(3,4) True by simp
  next
    case False
    have "peer_inv c j" using assms(1) that by (simp add: cluster_inv_def)
    moreover have "peers c' ! j = peers c ! j" using False assms(5) by simp
    ultimately show ?thesis
      by (rule peer_inv_other [OF _ _ len assms(6) counted_mono [OF len assms(6,7)]])
  qed
  moreover have "\<forall>j < length (peers c). currentTerm (peers c ! j) \<le> currentTerm (peers c' ! j)"
    unfolding assms(5) by (rule update_terms) (use assms(3) in \<open>simp add: quiet_def\<close>)
  then have "call_ok c' x" if "x \<in> set (calls c')" for x
    using assms(1,6,9) that len call_ok_mono [of c x c'] unfolding cluster_inv_def by blast
  ultimately show ?thesis using assms(8) len by (simp add: cluster_inv_def)
qed

lemma vote_keys_simps [simp]:
  "vote_keys [] = []"
  "vote_keys (x # xs) = (if Option.is_none (vote_key x) then vote_keys xs else vote_key x # vote_keys xs)"
  "vote_keys (xs @ ys) = vote_keys xs @ vote_keys ys"
  by (simp_all add: vote_keys_def)

lemma vote_keys_update:
  "k < length cs \<Longrightarrow> vote_key x = vote_key (cs ! k) \<Longrightarrow> vote_keys (cs[k := x]) = vote_keys cs"
  unfolding vote_keys_def map_update by (metis list_update_id nth_map length_map)

lemma vote_keys_remove:
  assumes "k < length cs"
  obtains xs ys where "vote_keys (remove_nth k cs) = xs @ ys"
    and "vote_keys cs = xs @ (if Option.is_none (vote_key (cs ! k)) then ys else vote_key (cs ! k) # ys)"
proof
  show "vote_keys (remove_nth k cs) = vote_keys (take k cs) @ vote_keys (drop (Suc k) cs)"
    by (simp add: remove_nth_def)
  show "vote_keys cs = vote_keys (take k cs) @ (if Option.is_none (vote_key (cs ! k))
      then vote_keys (drop (Suc k) cs) else vote_key (cs ! k) # vote_keys (drop (Suc k) cs))"
    by (subst id_take_nth_drop [OF assms]) simp
qed

lemma remove_subset: "set (remove_nth k cs) \<subseteq> set cs"
  using set_take_subset [of k cs] set_drop_subset [of "Suc k" cs] by (auto simp: remove_nth_def)

lemma vote_keys_remove_set:
  "set (vote_keys (remove_nth k cs)) \<subseteq> set (vote_keys cs)"
  "distinct (vote_keys cs) \<Longrightarrow> distinct (vote_keys (remove_nth k cs))"
proof -
  have "k < length cs \<or> remove_nth k cs = cs"
    by (cases "k < length cs") (simp_all add: remove_nth_def)
  then show "set (vote_keys (remove_nth k cs)) \<subseteq> set (vote_keys cs)"
    by (auto elim!: vote_keys_remove [of k cs] split: if_splits)
  assume "distinct (vote_keys cs)"
  with \<open>k < length cs \<or> remove_nth k cs = cs\<close> show "distinct (vote_keys (remove_nth k cs))"
    by (auto elim!: vote_keys_remove [of k cs] split: if_splits)
qed

lemma inv_drop_call:
  assumes "cluster_inv c" and "i < length (peers c)" and "quiet (peers c ! i) rf'" and "peer_ok rf'"
  shows "cluster_inv (c\<lparr>peers := (peers c)[i := rf'], calls := remove_nth k (calls c)\<rparr>)"
  by (rule inv_quiet_step [OF assms])
     (use assms(1) remove_subset [of k "calls c"] vote_keys_remove_set [where k = k and cs = "calls c"]
      in \<open>auto simp: cluster_inv_def\<close>)

lemma inv_answer:
  assumes "cluster_inv c" and "i < length (peers c)" and "quiet (peers c ! i) rf'" and "peer_ok rf'"
    and "k < length (calls c)" and "vote_key x = vote_key (calls c ! k)" and "granted c \<subseteq> G"
    and "call_ok (c\<lparr>peers := (peers c)[i := rf'], calls := cs, granted := G\<rparr>) x"
    and "cs = calls c \<or> cs = (calls c)[k := x]"
  shows "cluster_inv (c\<lparr>peers := (peers c)[i := rf'], calls := cs, granted := G\<rparr>)"
  using assms(9)
proof
  assume cs: "cs = calls c"
  show ?thesis
    by (rule inv_quiet_step [OF assms(1-4)]) (use assms(1,7) cs in \<open>auto simp: cluster_inv_def\<close>)
next
  assume cs: "cs = (calls c)[k := x]"
  have "set cs \<subseteq> insert x (set (calls c))" unfolding cs by (rule set_update_subset_insert)
  moreover have "vote_keys cs = vote_keys (calls c)" unfolding cs by (rule vote_keys_update [OF assms(5,6)])
  ultimately show ?thesis
    by (intro inv_quiet_step [OF assms(1-4)]) (use assms(1,7,8) in \<open>auto simp: cluster_inv_def\<close>)
qed

text \<open>A candidate counts one more vote: the call it came from is finished and was open before.\<close>

lemma counted_after_vote:
  assumes "cluster_inv c" and "k < length (calls c)" and "calls c ! k = VoteDone f t a r"
    and "rvr_VoteGranted r" and "length (peers c') = length (peers c)" and "granted c' = granted c"
    and "calls c' = remove_nth k (calls c)"
  shows "Suc (card (counted c f (rv_Term a))) \<le> card (counted c' f (rv_Term a))"
proof -
  have d: "distinct (vote_keys (calls c))" and ok: "call_ok c (calls c ! k)"
    using assms(1,2) by (auto simp: cluster_inv_def)
  obtain xs ys where v: "vote_keys (calls c') = xs @ ys"
    "vote_keys (calls c) = xs @ Some (f, t, rv_Term a) # ys"
    using vote_keys_remove [OF assms(2)] assms(3,7) by auto
  have "t \<in> supporters c f (rv_Term a)"
    using ok assms(3,4) by (simp add: supporters_def)
  then have "insert t (counted c f (rv_Term a)) \<subseteq> counted c' f (rv_Term a)"
    using d v assms(5,6) by (auto simp: counted_def supporters_def)
  moreover have "t \<notin> counted c f (rv_Term a)" using v by (simp add: counted_def)
  ultimately show ?thesis
    by (metis card_insert_disjoint card_mono finite_counted)
qed

lemma becomeLeader_fields:
  assumes "becomeLeader clk rf = Inr rf'"
  shows "me rf' = me rf" "npeers rf' = npeers rf" "currentTerm rf' = currentTerm rf"
    "raftState rf' = RaftLeader" "int (npeers rf div 2) < gotVotes rf"
  using assms by (auto simp: becomeLeader_def spawn_def Let_def persist_def resetElectionTimer_def split: if_splits)

lemma sendRequestVote_outcomes:
  assumes "sendRequestVote clk (\<lambda>_. Some r) a rf = Inr rf'" and "rv_Term a \<le> currentTerm rf"
  obtains (quiet) "quiet rf rf'"
  | (counts) "raftState rf = RaftCandidate" "rvr_VoteGranted r" "rv_Term a = currentTerm rf"
      "currentTerm rf' = currentTerm rf" "me rf' = me rf" "npeers rf' = npeers rf"
      "raftState rf' = RaftCandidate \<and> gotVotes rf' = gotVotes rf + 1 \<or>
       raftState rf' = RaftLeader \<and> int (npeers rf div 2) < gotVotes rf + 1"
  using assms becomeLeader_fields [of clk "rf\<lparr>gotVotes := gotVotes rf + 1\<rparr>" rf']
    quiet_follower [of rf "rvr_Term r"] quiet_same [of rf rf]
  by (auto simp: sendRequestVote_def Let_def numeral_3_eq_3 split: if_splits)

lemma inv_vote_reply:
  assumes "cluster_inv c" and "k < length (calls c)" and "calls c ! k = VoteDone f t a r"
    and "sendRequestVote clk (\<lambda>_. Some r) a (peers c ! f) = Inr rf'"
  shows "cluster_inv (c\<lparr>peers := (peers c)[f := rf'], calls := remove_nth k (calls c)\<rparr>)"
    (is "cluster_inv ?c")
proof -
  have ok: "call_ok c (VoteDone f t a r)" using assms(1-3) by (metis cluster_inv_def nth_mem)
  then have f: "f < length (peers c)" and le: "rv_Term a \<le> currentTerm (peers c ! f)" by auto
  have pf: "peer_inv c f" using assms(1) f by (simp add: cluster_inv_def)
  then have rf': "peer_ok rf'" using sendRequestVote_ok [OF assms(4)] by (simp add: peer_inv_def Let_def)
  from assms(4) le show ?thesis
  proof (cases rule: sendRequestVote_outcomes)
    case quiet
    then show ?thesis using inv_drop_call [OF assms(1) f _ rf'] by simp
  next
    case counts
    have suc: "Suc (card (counted c f (currentTerm rf'))) \<le> card (counted ?c f (currentTerm rf'))"
      using counted_after_vote [OF assms(1-3) counts(2), of ?c] counts(3,4) by simp
    have sub: "card (counted ?c f (currentTerm rf')) \<le> card (supporters ?c f (currentTerm rf'))"
      by (rule counted_supporters)
    have g: "gotVotes (peers c ! f) \<le> int (card (counted c f (currentTerm rf')))"
      using pf counts(1,4) by (simp add: peer_inv_def Let_def)
    have "peer_inv ?c f"
      using pf f counts rf' suc sub g by (auto simp: peer_inv_def Let_def)
    moreover have "peer_inv ?c j" if "j < length (peers c)" "j \<noteq> f" for j
    proof (rule peer_inv_other [of c j ?c])
      show "counted c j (currentTerm (peers c ! j)) \<subseteq> counted ?c j (currentTerm (peers c ! j))"
        by (rule counted_mono) (simp_all add: vote_keys_remove_set)
    qed (use assms(1) that in \<open>simp_all add: cluster_inv_def\<close>)
    moreover have "call_ok ?c x" if "x \<in> set (calls ?c)" for x
    proof (rule call_ok_mono [of c x ?c])
      show "call_ok c x" using that assms(1) remove_subset [of k "calls c"] by (auto simp: cluster_inv_def)
      show "\<forall>j < length (peers c). currentTerm (peers c ! j) \<le> currentTerm (peers ?c ! j)"
        using update_terms [of c f rf'] counts(4) by simp
    qed simp_all
    ultimately show ?thesis
      using assms(1) vote_keys_remove_set(2) [of "calls c" k] by (auto simp: cluster_inv_def)
  qed
qed

lemma ticker_outcomes:
  assumes "ticker clk rf = Inr (rf', ms)"
  obtains (quiet) "quiet rf rf'" "ms = []" "currentTerm rf' = currentTerm rf"
  | (election) a where "currentTerm rf' = currentTerm rf + 1" "raftState rf' = RaftCandidate"
      "gotVotes rf' = 1" "me rf' = me rf" "npeers rf' = npeers rf"
      "rv_Term a = currentTerm rf'" "ms = map (\<lambda>t. (t, a)) (others rf)"
proof (cases "raftState rf \<noteq> RaftLeader \<and> timeout rf < now clk - electionTimerStart rf")
  case True
  let ?r = "persist (rf\<lparr>currentTerm := currentTerm rf + 1, raftState := RaftCandidate, gotVotes := 1, voteFor := me rf\<rparr>)"
  from True assms obtain t where "rf' = resetElectionTimer clk ?r"
    and ms: "ms = map (\<lambda>j. (j, \<lparr>rv_Term = currentTerm ?r, rv_CandidateId = me ?r,
                   rv_LastLogIndex = GetLastLogIndex ?r, rv_LastLogTerm = t\<rparr>)) (others ?r)"
    by (auto simp: ticker_def startAElection_def Let_def)
  moreover have "others ?r = others rf" by (simp add: others_def persist_def)
  ultimately show thesis
    by (intro election [of "\<lparr>rv_Term = currentTerm ?r, rv_CandidateId = me ?r,
          rv_LastLogIndex = GetLastLogIndex ?r, rv_LastLogTerm = t\<rparr>"])
       (simp_all add: persist_def resetElectionTimer_def)
next
  case False
  with assms show thesis
    by (intro quiet) (auto simp: ticker_def intro: quiet_same split: if_splits)
qed

lemma others_spec:
  "distinct (map nat (others rf))" "t \<in> set (others rf) \<Longrightarrow> 0 \<le> t \<and> nat t < npeers rf \<and> t \<noteq> me rf"
proof -
  have "map nat (others rf) = filter (\<lambda>j. int j \<noteq> me rf) [0..<npeers rf]"
    by (simp add: others_def filter_map o_def)
  then show "distinct (map nat (others rf))" by simp
qed (auto simp: others_def)

lemma election_keys:
  "vote_keys (map (\<lambda>(t, x). VoteCall i (nat t) x) (map (\<lambda>t. (t, a)) ts)) =
     map (\<lambda>t. Some (i, nat t, rv_Term a)) ts"
  by (induction ts) simp_all

lemma open_call_term:
  assumes "cluster_inv c" and "Some (i, v, t) \<in> set (vote_keys (calls c))"
  shows "t \<le> currentTerm (peers c ! i)"
proof -
  from assms(2) obtain x where x: "x \<in> set (calls c)" "vote_key x = Some (i, v, t)"
    by (auto simp: vote_keys_def)
  then have "call_ok c x" using assms(1) by (simp add: cluster_inv_def)
  with x(2) show ?thesis by (cases x) auto
qed

lemma inv_tick:
  assumes "cluster_inv c" and "i < length (peers c)" and "do_tick i clk c = Inr c'"
  shows "cluster_inv c'"
proof -
  obtain rf' ms where tk: "ticker clk (peers c ! i) = Inr (rf', ms)" and
    c': "c' = c\<lparr>peers := (peers c)[i := rf'],
      calls := calls c @ map (\<lambda>(t, a). VoteCall i (nat t) a) ms,
      granted := (if currentTerm rf' = currentTerm (peers c ! i) then granted c
                  else insert (i, currentTerm rf', i) (granted c))\<rparr>"
    using assms(3) by (auto simp: do_tick_def)
  have pi: "peer_inv c i" using assms(1,2) by (simp add: cluster_inv_def)
  then have rf': "peer_ok rf'" using ticker_ok [OF tk] by (simp add: peer_inv_def Let_def)
  from tk show ?thesis
  proof (cases rule: ticker_outcomes)
    case quiet
    have inv: "distinct (vote_keys (calls c))" using assms(1) by (simp add: cluster_inv_def)
    show ?thesis
      by (rule inv_quiet_step [OF assms(1,2) quiet(1) rf']) (use quiet inv in \<open>simp_all add: c'\<close>)
  next
    case (election a)
    let ?T = "currentTerm rf'"
    have len: "length (peers c') = length (peers c)" and sub: "granted c \<subseteq> granted c'" by (auto simp: c')
    have keys: "vote_keys (calls c') = vote_keys (calls c) @ map (\<lambda>t. Some (i, nat t, ?T)) (others (peers c ! i))"
      using election by (simp add: c' election_keys del: map_map)
    have fresh: "Some (i, v, ?T) \<notin> set (vote_keys (calls c))" for v
      using open_call_term [OF assms(1), of i v ?T] election(1) by auto
    have "me (peers c ! i) = int i" using pi by (simp add: peer_inv_def Let_def)
    then have "nat t \<noteq> i" if "t \<in> set (others (peers c ! i))" for t
      using others_spec(2) [OF that] by auto
    then have "Some (i, i, ?T) \<notin> set (vote_keys (calls c'))"
      using fresh [of i] by (auto simp: keys)
    moreover have "(i, ?T, i) \<in> granted c'" using election(1) by (simp add: c')
    ultimately have "i \<in> counted c' i ?T"
      using assms(2) by (simp add: counted_def supporters_def len)
    then have "1 \<le> card (counted c' i ?T)"
      using card_mono [of "counted c' i ?T" "{i}"] by simp
    then have "peer_inv c' i"
      using pi rf' election assms(2) by (simp add: peer_inv_def Let_def len) (simp add: c')
    moreover have "peer_inv c' j" if "j < length (peers c)" "j \<noteq> i" for j
    proof (rule peer_inv_other [OF _ _ len sub])
      show "counted c j (currentTerm (peers c ! j)) \<subseteq> counted c' j (currentTerm (peers c ! j))"
        using that(2) keys sub by (auto simp: counted_def supporters_def len)
    qed (use assms(1) that in \<open>simp_all add: cluster_inv_def c'\<close>)
    moreover have "call_ok c' x" if "x \<in> set (calls c')" for x
    proof (cases "x \<in> set (calls c)")
      case True
      show ?thesis
        by (rule call_ok_mono [OF _ len sub])
           (use True assms(1) update_terms [of c i rf'] election(1) in \<open>simp_all add: cluster_inv_def c'\<close>)
    next
      case False
      then show ?thesis
        using that election(6,7) others_spec(2) [of _ "peers c ! i"] pi assms(2)
        by (auto simp: c' peer_inv_def Let_def)
    qed
    moreover have "distinct (vote_keys (calls c'))"
      using assms(1) others_spec(1) [of "peers c ! i"] fresh
      by (auto simp: keys cluster_inv_def distinct_map inj_on_def)
    ultimately show ?thesis unfolding cluster_inv_def len by blast
  qed
qed

lemma heartBeat_targets:
  assumes "heartBeat b rf = Inr (rf', ms)" and "(t, m) \<in> set ms" and "peer_ok rf"
  shows "nat t < npeers rf"
proof -
  have "0 \<le> t \<and> t < int (length (nextIndex rf))"
    using heartBeat_msgs_in [OF heartBeat_leader(2) [OF assms(1,2)] assms(2)] by simp
  moreover have "length (nextIndex rf) = npeers rf"
    using heartBeat_leader(1) [OF assms(1,2)] assms(3) by (simp add: peer_ok_def)
  ultimately show ?thesis by auto
qed

lemma inv_beat:
  assumes "cluster_inv c" and "i < length (peers c)" and "do_beat i b c = Inr c'"
  shows "cluster_inv c'"
proof -
  let ?call = "\<lambda>(t, m). case m of AERpc a \<Rightarrow> AppendCall i (nat t) a | ISRpc a \<Rightarrow> SnapCall i (nat t) a"
  obtain rf' ms where hb: "heartBeat b (peers c ! i) = Inr (rf', ms)" and
    c': "c' = c\<lparr>peers := (peers c)[i := rf'], calls := calls c @ map ?call ms\<rparr>"
    using assms(3) by (auto simp: do_beat_def)
  have pi: "peer_ok (peers c ! i)" "npeers (peers c ! i) = length (peers c)"
    using assms(1,2) by (auto simp: cluster_inv_def peer_inv_def Let_def)
  have keys: "vote_keys (map ?call ms) = []"
    by (induction ms) (auto split: leaderRPC.splits)
  have "call_ok c' (?call x)" if "x \<in> set ms" for x
    using heartBeat_targets [OF hb _ pi(1)] that pi(2) assms(2)
    by (cases x; cases "snd x") (auto simp: c')
  then show ?thesis
    by (intro inv_quiet_step [OF assms(1,2) quiet_heartBeat [OF hb] heartBeat_ok [OF hb pi(1)]])
       (use keys assms(1) in \<open>auto simp: c' cluster_inv_def\<close>)
qed

lemma inv_deliver:
  assumes "cluster_inv c" and "k < length (calls c)" and "do_deliver lost k clk c = Inr c'"
  shows "cluster_inv c'"
proof -
  have ok: "call_ok c (calls c ! k)" using assms(1,2) by (simp add: cluster_inv_def)
  have pk: "peer_ok (peers c ! t)" if "t < length (peers c)" for t
    using assms(1) that by (simp add: cluster_inv_def peer_inv_def Let_def)
  show ?thesis
  proof (cases "calls c ! k")
    case (VoteCall f t a)
    with ok have t: "t < length (peers c)" by simp
    from VoteCall assms(3) obtain rf r where rv: "RequestVote clk a (peers c ! t) = Inr (rf, r)" and
      c': "c' = c\<lparr>peers := (peers c)[t := rf],
                 calls := (if lost then calls c else (calls c)[k := VoteDone f t a r]),
                 granted := (if rvr_VoteGranted r then insert (t, rv_Term a, f) (granted c) else granted c)\<rparr>"
      by (auto simp: do_deliver_def)
    note q = quiet_RequestVote [OF rv]
    have "currentTerm (peers c ! f) \<le> currentTerm ((peers c)[t := rf] ! f)"
      using update_terms [of c t rf] q ok VoteCall by (simp add: quiet_def)
    then show ?thesis unfolding c'
      by (intro inv_answer [OF assms(1) t q RequestVote_ok [OF rv pk [OF t]] assms(2), of "VoteDone f t a r"])
         (use ok VoteCall in \<open>auto intro: order_trans\<close>)
  next
    case (AppendCall f t a)
    with ok have t: "t < length (peers c)" by simp
    from AppendCall assms(3) obtain rf r where ae: "AppendEntries clk a (peers c ! t) = Inr (rf, r)" and
      c': "c' = c\<lparr>peers := (peers c)[t := rf],
                 calls := (if lost then calls c else (calls c)[k := AppendDone f t a r])\<rparr>"
      by (auto simp: do_deliver_def)
    have "cluster_inv (c\<lparr>peers := (peers c)[t := rf],
        calls := (if lost then calls c else (calls c)[k := AppendDone f t a r]), granted := granted c\<rparr>)"
      by (rule inv_answer [OF assms(1) t quiet_AppendEntries [OF ae] AppendEntries_ok [OF ae pk [OF t]]
            assms(2), of "AppendDone f t a r"]) (use ok AppendCall in auto)
    then show ?thesis by (simp add: c')
  next
    case (SnapCall f t a)
    with ok have t: "t < length (peers c)" by simp
    from SnapCall assms(3) obtain rf r ms where sn: "InstallSnapshot clk a (peers c ! t) = Inr (rf, r, ms)" and
      c': "c' = c\<lparr>peers := (peers c)[t := rf],
                 calls := (if lost then calls c else (calls c)[k := SnapDone f t a r])\<rparr>"
      by (auto simp: do_deliver_def)
    have "cluster_inv (c\<lparr>peers := (peers c)[t := rf],
        calls := (if lost then calls c else (calls c)[k := SnapDone f t a r]), granted := granted c\<rparr>)"
      by (rule inv_answer [OF assms(1) t quiet_InstallSnapshot [OF sn] InstallSnapshot_ok [OF sn pk [OF t]]
            assms(2), of "SnapDone f t a r"]) (use ok SnapCall in auto)
    then show ?thesis by (simp add: c')
  qed (use assms(1,3) in \<open>auto simp: do_deliver_def\<close>)
qed

lemma inv_process:
  assumes "cluster_inv c" and "k < length (calls c)" and "do_process k clk c = Inr c'"
  shows "cluster_inv c'"
proof -
  have ok: "call_ok c (calls c ! k)" using assms(1,2) by (simp add: cluster_inv_def)
  have pk: "peer_ok (peers c ! t)" if "t < length (peers c)" for t
    using assms(1) that by (simp add: cluster_inv_def peer_inv_def Let_def)
  show ?thesis
  proof (cases "calls c ! k")
    case (VoteDone f t a r)
    with assms(3) inv_vote_reply [OF assms(1,2) VoteDone] show ?thesis by (auto simp: do_process_def)
  next
    case (AppendDone f t a r)
    with assms(3) ok show ?thesis
      by (auto simp: do_process_def intro!: inv_drop_call assms(1) intro: quiet_replies(1) sendAppendEntries_ok pk)
  next
    case (SnapDone f t a r)
    with assms(3) ok show ?thesis
      by (auto simp: do_process_def intro!: inv_drop_call assms(1) intro: quiet_replies(2) sendInstallSnapshot_ok pk)
  qed (use assms(1,3) in \<open>auto simp: do_process_def\<close>)
qed

lemma inv_local:
  assumes "cluster_inv c" and "i < length (peers c)" and "is_local ev"
    and "peer_step ev (peers c ! i) = Inr rf"
  shows "cluster_inv (c\<lparr>peers := (peers c)[i := rf]\<rparr>)"
proof -
  have "peer_ok (peers c ! i)" using assms(1,2) by (simp add: cluster_inv_def peer_inv_def Let_def)
  with inv_quiet_step [OF assms(1,2) quiet_local [OF assms(3,4)] peer_step_ok [OF assms(4)]] assms(1)
  show ?thesis by (simp add: cluster_inv_def)
qed

lemma inv_give_up: "cluster_inv c \<Longrightarrow> cluster_inv (c\<lparr>calls := remove_nth k (calls c)\<rparr>)"
  using remove_subset [of k "calls c"] vote_keys_remove_set [where k = k and cs = "calls c"]
    peer_inv_other [of c _ "c\<lparr>calls := remove_nth k (calls c)\<rparr>"]
    counted_mono [of "c\<lparr>calls := remove_nth k (calls c)\<rparr>" c]
    call_ok_mono [of c _ "c\<lparr>calls := remove_nth k (calls c)\<rparr>"]
  unfolding cluster_inv_def by auto

lemma cluster_do_inv:
  assumes "cluster_do act c = Inr c'" and "cluster_inv c"
  shows "cluster_inv c'"
  using assms
  by (cases act)
     (auto simp: cluster_do_def inv_give_up intro: inv_tick inv_beat inv_local inv_deliver inv_process
       split: if_splits)

lemma init_inv: "cluster_inv (init_cluster clk n)"
  by (auto simp: cluster_inv_def peer_inv_def init_cluster_def Let_def intro: Make_ok)

lemma reachable_inv: "reachable clk n c \<Longrightarrow> cluster_inv c"
  by (induction rule: reachable.induct) (auto intro: init_inv cluster_do_inv)

lemma cluster_do_size: "cluster_do act c = Inr c' \<Longrightarrow> length (peers c') = length (peers c)"
  by (cases act)
     (auto simp: cluster_do_def do_tick_def do_beat_def do_deliver_def do_process_def
       split: if_splits rpc_call.splits)

lemma reachable_size: "reachable clk n c \<Longrightarrow> length (peers c) = n"
  by (induction rule: reachable.induct) (auto simp: init_cluster_def dest: cluster_do_size)

section \<open>Quorums\<close>

locale quorum_system =
  fixes quorum :: "'a set \<Rightarrow> bool"
  assumes quorum_inter: "quorum P \<Longrightarrow> quorum Q \<Longrightarrow> P \<inter> Q \<noteq> {}"
begin

lemma quorums_share:
  assumes "quorum P" and "quorum Q"
  obtains v where "v \<in> P" and "v \<in> Q"
  using quorum_inter [OF assms] by auto

text \<open>If no member votes for two values, at most one value has a quorum behind it.\<close>

lemma unique_choice:
  assumes "quorum {v. votes v a}" and "quorum {v. votes v b}"
    and "\<And>v x y. votes v x \<Longrightarrow> votes v y \<Longrightarrow> x = y"
  shows "a = b"
  using quorum_inter [OF assms(1,2)] assms(3) by auto

end

definition majority :: "nat \<Rightarrow> nat set \<Rightarrow> bool" where
  "majority n Q \<longleftrightarrow> n < 2 * card (Q \<inter> {..<n})"

interpretation maj: quorum_system "majority n" for n
proof unfold_locales
  fix P Q assume "majority n P" "majority n Q"
  then have "n < card (P \<inter> {..<n}) + card (Q \<inter> {..<n})" by (simp add: majority_def)
  moreover have "card (P \<inter> {..<n} \<union> Q \<inter> {..<n}) \<le> n"
    using card_mono [of "{..<n}" "P \<inter> {..<n} \<union> Q \<inter> {..<n}"] by auto
  ultimately show "P \<inter> Q \<noteq> {}"
    using card_Un_disjoint [of "P \<inter> {..<n}" "Q \<inter> {..<n}"] by fastforce
qed

lemma leader_majority:
  assumes "reachable clk n c" and "i < n" and "raftState (peers c ! i) = RaftLeader"
  shows "majority n {v. (v, currentTerm (peers c ! i), i) \<in> granted c}"
proof -
  have "{v. (v, t, i) \<in> granted c} \<inter> {..<n} = supporters c i t" for t
    using reachable_size [OF assms(1)] by (auto simp: supporters_def)
  with reachable_inv [OF assms(1)] reachable_size [OF assms(1)] assms(2,3) show ?thesis
    by (simp add: majority_def cluster_inv_def peer_inv_def Let_def)
qed

text \<open>
  C6: Every leader was elected by a majority: in each reachable state of a cluster, over a
  network that loses, delays, repeats and reorders RPCs, and with crashes and restarts, a
  peer that is leader in a term was granted the vote of that term by a strict majority of
  the peers (counting each of them once, its own vote included).
\<close>

theorem leader_elected_by_majority:
  assumes "reachable clk n c" and "i < n" and "raftState (peers c ! i) = RaftLeader"
  shows "majority n {v. (v, currentTerm (peers c ! i), i) \<in> granted c}"
  using assms by (rule leader_majority)

text \<open>
  Two leaders of one term are possible only through a peer that voted twice: if two
  different peers are leaders with the same current term, some peer granted its vote of
  that term to both of them.
\<close>

theorem two_leaders_share_voter:
  assumes "reachable clk n c" and "i < n" and "j < n" and "i \<noteq> j"
    and "raftState (peers c ! i) = RaftLeader" and "raftState (peers c ! j) = RaftLeader"
    and "currentTerm (peers c ! i) = currentTerm (peers c ! j)"
  shows "\<exists>v. (v, currentTerm (peers c ! i), i) \<in> granted c \<and> (v, currentTerm (peers c ! i), j) \<in> granted c"
  by (rule maj.quorums_share [OF leader_majority [OF assms(1,2,5)] leader_majority [OF assms(1,3,6)]])
     (use assms(7) in auto)

text \<open>
  The schedule of the double election: peers 0 and 2 time out in the same term; peer 1
  votes for peer 0, which becomes leader and thereby forgets its own vote; the delayed
  request of peer 2 then reaches the new leader, which grants it.
\<close>

definition late :: clock where
  "late = \<lparr>now = 1000, rnd = 7\<rparr>"

definition double_election :: "(nat, nat) action list" where
  "double_election = [Tick 0 late, Tick 2 late, Deliver False 0 late, Process 0 late,
     Deliver False 1 late, Process 1 late]"

lemma double_election_run:
  "cluster_run double_election (init_cluster demo_clock 3) =
     Inr (projr (cluster_run double_election (init_cluster demo_clock 3)))"
  "raftState (peers (projr (cluster_run double_election (init_cluster demo_clock 3))) ! 0) = RaftLeader"
  "raftState (peers (projr (cluster_run double_election (init_cluster demo_clock 3))) ! 2) = RaftLeader"
  "currentTerm (peers (projr (cluster_run double_election (init_cluster demo_clock 3))) ! 0) = 1"
  "currentTerm (peers (projr (cluster_run double_election (init_cluster demo_clock 3))) ! 2) = 1"
proof -
  have "returns (cluster_run double_election (init_cluster demo_clock 3))" by code_simp
  then show "cluster_run double_election (init_cluster demo_clock 3) =
     Inr (projr (cluster_run double_election (init_cluster demo_clock 3)))"
    by (cases "cluster_run double_election (init_cluster demo_clock 3)") simp_all
qed code_simp+

lemma double_election_reachable:
  "reachable demo_clock 3 (projr (cluster_run double_election (init_cluster demo_clock 3)))"
  using run_reachable [OF reachable.start double_election_run(1)] .

theorem leader_elected_by_majority_witness:
  "majority 3 {v. (v, 1, 0) \<in> granted (projr (cluster_run double_election (init_cluster demo_clock 3)))}"
  using leader_elected_by_majority [OF double_election_reachable _ double_election_run(2)]
  unfolding double_election_run(4) by simp

theorem two_leaders_share_voter_witness:
  "\<exists>v. (v, 1, 0) \<in> granted (projr (cluster_run double_election (init_cluster demo_clock 3))) \<and>
       (v, 1, 2) \<in> granted (projr (cluster_run double_election (init_cluster demo_clock 3)))"
  using two_leaders_share_voter [OF double_election_reachable _ _ _ double_election_run(2,3)]
  unfolding double_election_run(4,5) by simp

text \<open>
  C1: Election safety does not hold: a cluster of three peers reaches, by timeouts and
  message deliveries alone, a state in which two peers are leaders of the same term. The
  cause is that \<^verbatim>\<open>becomeLeader\<close> resets \<^verbatim>\<open>voteFor\<close> to -1 and persists it.
\<close>

theorem two_leaders_in_one_term:
  "\<exists>c :: (nat, nat) Cluster. reachable demo_clock 3 c \<and>
     raftState (peers c ! 0) = RaftLeader \<and> raftState (peers c ! 2) = RaftLeader \<and>
     currentTerm (peers c ! 0) = currentTerm (peers c ! 2)"
  using double_election_reachable double_election_run(2-5) by metis

end
