(* ===== verification/RaftTimer.thy ===== *)
theory RaftTimer
  imports RaftSteps
begin

text \<open>
  The election timer of a Raft peer: every reset draws a timeout between 400 and 699
  milliseconds, no event leaves another value behind, and the ticker starts elections
  within these bounds.
\<close>

definition timeout_ok :: "('c, 's) Raft \<Rightarrow> bool" where
  "timeout_ok rf \<longleftrightarrow> 400 \<le> timeout rf \<and> timeout rf < 700"

lemma timeout_reset [simp]: "timeout_ok (resetElectionTimer clk rf)"
  by (simp add: timeout_ok_def resetElectionTimer_def)

lemma timeout_frame [simp]:
  "timeout_ok (persist rf) = timeout_ok rf"
  "timeout_ok (spawn g rf) = timeout_ok rf"
  "timeout_ok (updateTermAndBecomeFollower t rf) = timeout_ok rf"
  "timeout_ok (rf\<lparr>leaderID := l\<rparr>) = timeout_ok rf"
  "timeout_ok (rf\<lparr>voteFor := v\<rparr>) = timeout_ok rf"
  "timeout_ok (rf\<lparr>gotVotes := g'\<rparr>) = timeout_ok rf"
  "timeout_ok (rf\<lparr>goroutines := gs\<rparr>) = timeout_ok rf"
  "timeout_ok (rf\<lparr>commitIndex := c\<rparr>) = timeout_ok rf"
  "timeout_ok (rf\<lparr>lastApplied := a\<rparr>) = timeout_ok rf"
  "timeout_ok (rf\<lparr>newEntryCh := b\<rparr>) = timeout_ok rf"
  "timeout_ok (rf\<lparr>logs := ls\<rparr>) = timeout_ok rf"
  "timeout_ok (rf\<lparr>nextIndex := ns\<rparr>) = timeout_ok rf"
  "timeout_ok (rf\<lparr>matchIndex := ms\<rparr>) = timeout_ok rf"
  "timeout_ok (rf\<lparr>raftState := st\<rparr>) = timeout_ok rf"
  "timeout_ok (rf\<lparr>currentTerm := t\<rparr>) = timeout_ok rf"
  "timeout_ok (rf\<lparr>snapshot := sn\<rparr>) = timeout_ok rf"
  "timeout_ok (rf\<lparr>snapshotIndex := si\<rparr>) = timeout_ok rf"
  by (auto simp: timeout_ok_def persist_def spawn_def updateTermAndBecomeFollower_def Let_def)

lemma timeout_AppendEntries:
  assumes "AppendEntries clk args rf = Inr (rf', reply)" and "timeout_ok rf"
  shows "timeout_ok rf'"
proof -
  have f: "timeout_ok (AE_follow clk args rf)" using assms(2) by (auto simp: AE_follow_def Let_def)
  have "timeout_ok r'" if "AE_append args r = Inr r'" "timeout_ok r" for r r' :: "('a, 'b) Raft"
    using that by (auto simp: AE_append_def Let_def split: if_splits)
  with assms(1) show ?thesis by (cases rule: AppendEntries_cases) (use f assms(2) in auto)
qed

lemma timeout_handlers:
  "RequestVote clk a rf = Inr (rf', r) \<Longrightarrow> timeout_ok rf \<Longrightarrow> timeout_ok rf'"
  "InstallSnapshot clk b rf = Inr (rf', r2, msgs) \<Longrightarrow> timeout_ok rf \<Longrightarrow> timeout_ok rf'"
  "sendRequestVote clk q a rf = Inr rf' \<Longrightarrow> timeout_ok rf \<Longrightarrow> timeout_ok rf'"
  "sendAppendEntries i q2 c rf = Inr rf' \<Longrightarrow> timeout_ok rf \<Longrightarrow> timeout_ok rf'"
  "sendInstallSnapshot i q3 b rf = Inr rf' \<Longrightarrow> timeout_ok rf \<Longrightarrow> timeout_ok rf'"
  by (auto simp: RequestVote_def InstallSnapshot_def sendRequestVote_def sendAppendEntries_def
      sendInstallSnapshot_def becomeLeader_def grant_def Let_def split: if_splits option.splits)

lemma timeout_service:
  "timeout_ok rf \<Longrightarrow> timeout_ok (fst (Start c rf))"
  "Snapshot i s rf = Inr rf' \<Longrightarrow> timeout_ok rf \<Longrightarrow> timeout_ok rf'"
  "ticker clk rf = Inr (rf', vs) \<Longrightarrow> timeout_ok rf \<Longrightarrow> timeout_ok rf'"
  "heartBeat b rf = Inr (rf', ms) \<Longrightarrow> timeout_ok rf \<Longrightarrow> timeout_ok rf'"
  "commit rf = Inr rf' \<Longrightarrow> timeout_ok rf \<Longrightarrow> timeout_ok rf'"
  "apply_loop rf = Inr (rf', as) \<Longrightarrow> timeout_ok rf \<Longrightarrow> timeout_ok rf'"
  by (auto simp: Start_def Snapshot_def ticker_def startAElection_def heartBeat_def commit_def
      apply_loop_def Let_def split: if_splits)

lemma timeout_Make [simp]: "timeout_ok (Make clk n i ps)"
  by (simp add: Make_def Let_def)

lemmas step_timeout = timeout_AppendEntries timeout_handlers timeout_service

lemma peer_step_timeout:
  assumes "peer_step ev rf = Inr rf'" and "timeout_ok rf"
  shows "timeout_ok rf'"
  using assms by (cases ev) (auto simp: peer_step_def ticker_start_def intro: step_timeout)

lemma peer_run_timeout: "peer_run evs rf = Inr rf' \<Longrightarrow> timeout_ok rf \<Longrightarrow> timeout_ok rf'"
  by (induction evs arbitrary: rf) (auto intro: peer_step_timeout)

text \<open>
  C31: Elections start within the documented bounds. After any events, a pass of the ticker
  leaves the term alone while at most 400 milliseconds have passed since the timer was
  reset, and from 700 milliseconds on a peer that is not leader does start an election: it is a candidate
  of the next term that has voted for itself.
\<close>

theorem election_timeout_bounds:
  assumes "peer_run evs (Make clk0 n i ps) = Inr rf" and "ticker clk rf = Inr (rf', msgs)"
  shows "(now clk - electionTimerStart rf \<le> 400 \<longrightarrow> currentTerm rf' = currentTerm rf) \<and>
    (700 \<le> now clk - electionTimerStart rf \<and> raftState rf \<noteq> RaftLeader \<longrightarrow>
      currentTerm rf' = currentTerm rf + 1 \<and> raftState rf' = RaftCandidate \<and> voteFor rf' = me rf)"
proof -
  have "timeout_ok rf" using peer_run_timeout [OF assms(1)] by simp
  then show ?thesis
    using assms(2) by (auto simp: ticker_def startAElection_def Let_def timeout_ok_def split: if_splits)
qed

theorem election_timeout_bounds_witness:
  "let rf = demo_peer 1; early = projr (ticker \<lparr>now = 300, rnd = 9\<rparr> rf); late = projr (ticker \<lparr>now = 800, rnd = 9\<rparr> rf)
   in currentTerm (fst early) = 0 \<and> currentTerm (fst late) = 1 \<and> voteFor (fst late) = 1"
proof -
  let ?rf = "demo_peer 1"
  have r: "peer_run [] (Make \<lparr>now = 0, rnd = 0\<rparr> 3 1 MakePersister) = Inr ?rf" by (simp add: demo_peer_def)
  have e: "returns (ticker \<lparr>now = 300, rnd = 9\<rparr> ?rf)" and l: "returns (ticker \<lparr>now = 800, rnd = 9\<rparr> ?rf)" by code_simp+
  have f: "electionTimerStart ?rf = 0 \<and> currentTerm ?rf = 0 \<and> raftState ?rf = RaftFollower \<and> me ?rf = 1" by code_simp
  show ?thesis
    using election_timeout_bounds [OF r returns_pair [OF e]] election_timeout_bounds [OF r returns_pair [OF l]] f
    by (simp add: Let_def)
qed

end
