(* ===== verification/RaftSrv.thy ===== *)
theory RaftSrv
  imports RaftSteps
begin

text \<open>
  The server that drives a Raft peer in the Raft lab, \<^verbatim>\<open>src/src/raft1/server.go\<close>: it reads
  the committed commands from the apply channel, has the tester check them, keeps them in a
  log of its own, and every ten commands hands the peer a snapshot of that log.  The
  tester's side (\<^verbatim>\<open>CheckLogs\<close>, \<^verbatim>\<open>IngestLog\<close> and \<^verbatim>\<open>ApplyErr\<close> of \<^verbatim>\<open>raft1/test.go\<close>) and the
  RPCs between them (\<^verbatim>\<open>raft1/proxy.go\<close>), which may be lost, are part of the model.
\<close>

section \<open>The tester's record of the servers\<close>

datatype apply_err =
    CommitDiffers nat \<comment> \<open>another server committed another command\<close>
  | OutOfOrder int
  | NilSnapshot
  | BadSnapshot
  | WrongSnapshotIndex
  | ErrRPC

record 'c raftTest =
  t_logs :: "(int \<rightharpoonup> 'c option) list"
  t_applyErr :: "apply_err option list"
  maxIndex :: int

text \<open>The loop over the servers: the last one with another command gives the message.\<close>

fun differing :: "nat \<Rightarrow> (int \<rightharpoonup> 'c option) list \<Rightarrow> int \<Rightarrow> 'c option \<Rightarrow> apply_err option \<Rightarrow> apply_err option" where
  "differing j [] i v e = e"
| "differing j (l # ls) i v e = differing (Suc j) ls i v
     (case l i of Some old \<Rightarrow> if old \<noteq> v then Some (CommitDiffers j) else e | None \<Rightarrow> e)"

definition CheckLogs ::
  "nat \<Rightarrow> ('c, 's) ApplyMsg \<Rightarrow> 'c raftTest \<Rightarrow> ('c raftTest \<times> apply_err option \<times> bool) go" where
  "CheckLogs i m ts =
     (let n = am_CommandIndex m; v = am_Command m in
      bind_go (go_nth (t_logs ts) (int i)) (\<lambda>mine.
        let err = differing 0 (t_logs ts) n v None;
            prevok = (mine (n - 1) \<noteq> None)
        in Inr (ts\<lparr>t_logs := (t_logs ts)[i := mine(n \<mapsto> v)],
                   maxIndex := (if n > maxIndex ts then n else maxIndex ts)\<rparr>, err, prevok)))"

definition IngestLog :: "nat \<Rightarrow> (int \<rightharpoonup> 'c option) \<Rightarrow> 'c raftTest \<Rightarrow> 'c raftTest go" where
  "IngestLog i xlog ts =
     bind_go (go_update (t_logs ts) (int i) xlog) (\<lambda>l. Inr (ts\<lparr>t_logs := l\<rparr>))"

definition ApplyErr :: "nat \<Rightarrow> apply_err \<Rightarrow> 'c raftTest \<Rightarrow> 'c raftTest go" where
  "ApplyErr i err ts =
     bind_go (go_update (t_applyErr ts) (int i) (Some err)) (\<lambda>l. Inr (ts\<lparr>t_applyErr := l\<rparr>))"

text \<open>
  The calls of the server over the network: \<open>req\<close> says whether the request arrives, \<open>rep\<close>
  whether the reply does.
\<close>

record rpc_fate =
  req :: bool
  rep :: bool

definition proxy_CheckLogs ::
  "rpc_fate \<Rightarrow> nat \<Rightarrow> ('c, 's) ApplyMsg \<Rightarrow> 'c raftTest
   \<Rightarrow> ('c raftTest \<times> apply_err option \<times> bool) go" where
  "proxy_CheckLogs f i m ts =
     (if req f then bind_go (CheckLogs i m ts) (\<lambda>(ts', err, prevok).
        Inr (if rep f then (ts', err, prevok) else (ts', Some ErrRPC, False)))
      else Inr (ts, Some ErrRPC, False))"

definition proxy_IngestLog ::
  "rpc_fate \<Rightarrow> nat \<Rightarrow> (int \<rightharpoonup> 'c option) \<Rightarrow> 'c raftTest \<Rightarrow> 'c raftTest go" where
  "proxy_IngestLog f i l ts = (if req f then IngestLog i l ts else Inr ts)"

definition proxy_ApplyErr :: "rpc_fate \<Rightarrow> nat \<Rightarrow> apply_err \<Rightarrow> 'c raftTest \<Rightarrow> 'c raftTest go" where
  "proxy_ApplyErr f i e ts = (if req f then ApplyErr i e ts else Inr ts)"

section \<open>The server\<close>

text \<open>A snapshot is the stream of the last index and of the list of commands up to it.\<close>

datatype 'c snap_val = SInt int | SLog "'c option list"

record 'c rfsrv =
  rs_me :: nat
  rs_lastApplied :: int
  rs_log :: "int \<rightharpoonup> 'c option"

definition SnapShotInterval :: int where "SnapShotInterval = 10"

definition log_read :: "(int \<rightharpoonup> 'c option) \<Rightarrow> int \<Rightarrow> 'c option" where
  "log_read l j = (case l j of None \<Rightarrow> None | Some v \<Rightarrow> v)"

definition ingestSnap ::
  "'c snap_val list \<Rightarrow> int \<Rightarrow> 'c rfsrv \<Rightarrow> 'c rfsrv \<times> apply_err option" where
  "ingestSnap snap i rs =
     (case snap of
        [] \<Rightarrow> (rs, Some NilSnapshot)
      | SInt lastIncludedIndex # SLog xlog # _ \<Rightarrow>
          if i \<noteq> -1 \<and> i \<noteq> lastIncludedIndex then (rs, Some WrongSnapshotIndex)
          else (rs\<lparr>rs_log := (\<lambda>j. if 0 \<le> j \<and> j < int (length xlog) then Some (xlog ! nat j) else None),
                   rs_lastApplied := lastIncludedIndex\<rparr>, None)
      | _ \<Rightarrow> (rs, Some BadSnapshot))"

definition makeSnap :: "int \<Rightarrow> 'c rfsrv \<Rightarrow> 'c snap_val list" where
  "makeSnap i rs = [SInt i, SLog (map (\<lambda>j. log_read (rs_log rs) (int j)) [0..<nat (i + 1)])]"

text \<open>The server with its peer and the tester.\<close>

record 'c rfsys =
  srv :: "'c rfsrv"
  peer :: "('c, 'c snap_val) Raft"
  tester :: "'c raftTest"

definition report :: "rpc_fate \<Rightarrow> apply_err option \<Rightarrow> 'c rfsys \<Rightarrow> 'c rfsys go" where
  "report f err s = (case err of None \<Rightarrow> Inr s
     | Some e \<Rightarrow> bind_go (proxy_ApplyErr f (rs_me (srv s)) e (tester s)) (\<lambda>ts.
         Inr (s\<lparr>tester := ts\<rparr>)))"

definition apply_command ::
  "rpc_fate \<Rightarrow> ('c, 'c snap_val) ApplyMsg \<Rightarrow> 'c rfsys \<Rightarrow> ('c rfsys \<times> apply_err option) go" where
  "apply_command f m s =
     (let n = am_CommandIndex m; rs = srv s in
      bind_go (if n \<noteq> rs_lastApplied rs + 1 then Inr (tester s, Some (OutOfOrder n))
               else bind_go (proxy_CheckLogs f (rs_me rs) m (tester s)) (\<lambda>(ts, err, prevok).
                 Inr (ts, if err \<noteq> Some ErrRPC \<and> n > 1 \<and> \<not> prevok then Some (OutOfOrder n) else err)))
        (\<lambda>(ts, err).
          let rs' = rs\<lparr>rs_log := (rs_log rs)(n \<mapsto> am_Command m), rs_lastApplied := n\<rparr>
          in bind_go (if (n + 1) mod SnapShotInterval = 0
                      then Snapshot n (makeSnap n rs') (peer s) else Inr (peer s))
               (\<lambda>rf. Inr (s\<lparr>srv := rs', peer := rf, tester := ts\<rparr>, err))))"

definition applierSnap_step ::
  "rpc_fate \<Rightarrow> rpc_fate \<Rightarrow> ('c, 'c snap_val) ApplyMsg \<Rightarrow> 'c rfsys \<Rightarrow> 'c rfsys go" where
  "applierSnap_step f g m s =
     (if am_SnapshotValid m then
        (let (rs, err) = ingestSnap (am_Snapshot m) (am_SnapshotIndex m) (srv s)
         in bind_go (proxy_IngestLog f (rs_me rs) (rs_log rs) (tester s)) (\<lambda>ts.
              report g err (s\<lparr>srv := rs, tester := ts\<rparr>)))
      else if am_CommandValid m then
        bind_go (apply_command f m s) (\<lambda>(s', err). report g err s')
      else Inr s)"

fun applierSnap ::
  "(rpc_fate \<times> rpc_fate \<times> ('c, 'c snap_val) ApplyMsg) list \<Rightarrow> 'c rfsys \<Rightarrow> 'c rfsys go" where
  "applierSnap [] s = Inr s"
| "applierSnap ((f, g, m) # ms) s = bind_go (applierSnap_step f g m s) (applierSnap ms)"

text \<open>The applier without snapshots only has the commands checked.\<close>

definition applier_step ::
  "rpc_fate \<Rightarrow> rpc_fate \<Rightarrow> ('c, 'c snap_val) ApplyMsg \<Rightarrow> 'c rfsys \<Rightarrow> 'c rfsys go" where
  "applier_step f g m s =
     (if \<not> am_CommandValid m then Inr s
      else bind_go (proxy_CheckLogs f (rs_me (srv s)) m (tester s)) (\<lambda>(ts, err, prevok).
        report g (if am_CommandIndex m > 1 \<and> \<not> prevok then Some (OutOfOrder (am_CommandIndex m)) else err)
          (s\<lparr>tester := ts\<rparr>)))"

definition newRfsrv ::
  "clock \<Rightarrow> rpc_fate \<Rightarrow> nat \<Rightarrow> nat \<Rightarrow> ('c rgob, 'c snap_val) Persister \<Rightarrow> bool \<Rightarrow> 'c raftTest
   \<Rightarrow> 'c rfsys go" where
  "newRfsrv clk f n i ps snapshots ts =
     (let sn = ReadSnapshot ps;
          rs = \<lparr>rs_me = i, rs_lastApplied = 0, rs_log = Map.empty\<rparr>;
          rf = Make clk n (int i) ps
      in if snapshots \<and> sn \<noteq> [] then
           (case ingestSnap sn (-1) rs of
              (rs', None) \<Rightarrow> bind_go (proxy_IngestLog f i (rs_log rs') ts) (\<lambda>ts'.
                 Inr \<lparr>srv = rs', peer = rf, tester = ts'\<rparr>)
            | (_, Some e) \<Rightarrow> Inl (Fatal ''ingestSnap err''))
         else Inr \<lparr>srv = rs, peer = rf, tester = ts\<rparr>)"

section \<open>Commands in order are accepted\<close>

lemma differing_none:
  assumes "\<And>l. l \<in> set ls \<Longrightarrow> l i = None \<or> l i = Some v"
  shows "differing j ls i v e = e"
  using assms by (induction ls arbitrary: j e) (fastforce split: option.splits)+

lemma Snapshot_returns:
  assumes "snapshotIndex rf \<le> i" "i \<le> GetLastLogIndex rf"
  shows "\<exists>rf'. Snapshot i sn rf = Inr rf' \<and> snapshotIndex rf' = i
               \<and> GetLastLogIndex rf' = GetLastLogIndex rf \<and> saved rf' \<and> snapshot rf' = sn"
proof -
  define l where "l = drop (nat (i - snapshotIndex rf)) (logs rf)"
  define rf' where "rf' = persist (rf\<lparr>logs := l, snapshotIndex := i, snapshot := sn\<rparr>)"
  have "Snapshot i sn rf = Inr rf'"
    using assms by (simp add: Snapshot_def index_def GetLastLogIndex_def go_from_Inr l_def rf'_def)
  moreover have "int (length l) = int (length (logs rf)) - (i - snapshotIndex rf)"
    using assms by (simp add: l_def GetLastLogIndex_def of_nat_diff)
  then have "GetLastLogIndex rf' = GetLastLogIndex rf" "snapshotIndex rf' = i" "snapshot rf' = sn"
    by (simp_all add: rf'_def GetLastLogIndex_def persist_def)
  ultimately show ?thesis by (auto simp: rf'_def)
qed

definition fine :: rpc_fate where "fine = \<lparr>req = True, rep = True\<rparr>"

text \<open>What the tester must know for the next command \<open>v\<close> at index \<open>n\<close> to pass.\<close>

definition agrees :: "(int \<rightharpoonup> 'c option) list \<Rightarrow> int \<Rightarrow> 'c option \<Rightarrow> bool" where
  "agrees ls n v = (\<forall>l \<in> set ls. l n = None \<or> l n = Some v)"

definition in_step :: "int \<Rightarrow> int \<Rightarrow> 'c rfsys \<Rightarrow> bool" where
  "in_step a b s = (rs_lastApplied (srv s) = a
     \<and> rs_me (srv s) < length (t_logs (tester s))
     \<and> (1 \<le> a \<longrightarrow> (t_logs (tester s) ! rs_me (srv s)) a \<noteq> None)
     \<and> snapshotIndex (peer s) \<le> a \<and> b \<le> GetLastLogIndex (peer s))"

lemma command_accepted:
  assumes r: "in_step a b s" and "a < b" "0 \<le> a"
    and "agrees (t_logs (tester s)) (a + 1) (le_Command e)"
  shows "\<exists>s'. applierSnap_step fine g (commandMsg (a + 1) e) s = Inr s' \<and> in_step (a + 1) b s'
     \<and> t_applyErr (tester s') = t_applyErr (tester s)
     \<and> t_logs (tester s') = (t_logs (tester s))[rs_me (srv s) :=
          (t_logs (tester s) ! rs_me (srv s))(a + 1 \<mapsto> le_Command e)]
     \<and> rs_me (srv s') = rs_me (srv s)
     \<and> rs_log (srv s') = (rs_log (srv s))(a + 1 \<mapsto> le_Command e)"
proof -
  define i where "i = rs_me (srv s)"
  define mine where "mine = t_logs (tester s) ! i"
  define rs where "rs = (srv s)\<lparr>rs_log := (rs_log (srv s))(a + 1 \<mapsto> le_Command e),
                               rs_lastApplied := a + 1\<rparr>"
  define ts where "ts = (tester s)\<lparr>t_logs := (t_logs (tester s))[i := mine(a + 1 \<mapsto> le_Command e)],
      maxIndex := (if a + 1 > maxIndex (tester s) then a + 1 else maxIndex (tester s))\<rparr>"
  have i: "i < length (t_logs (tester s))" using r by (simp add: in_step_def i_def)
  define m where "m = (commandMsg (a + 1) e :: ('a, 'a snap_val) ApplyMsg)"
  have m: "am_CommandIndex m = a + 1" "am_Command m = le_Command e" "am_CommandValid m"
    "\<not> am_SnapshotValid m"
    by (simp_all add: m_def commandMsg_def)
  have check: "proxy_CheckLogs fine i m (tester s) = Inr (ts, None, mine a \<noteq> None)"
    using i assms(4) differing_none [of "t_logs (tester s)" "a + 1" "le_Command e"]
    by (simp add: proxy_CheckLogs_def fine_def CheckLogs_def m go_nth_Inr Let_def
        ts_def mine_def agrees_def)
  obtain rf where rf: "(if (a + 1 + 1) mod SnapShotInterval = 0
      then Snapshot (a + 1) (makeSnap (a + 1) rs) (peer s) else Inr (peer s)) = Inr rf"
    "snapshotIndex rf \<le> a + 1" "b \<le> GetLastLogIndex rf"
    using Snapshot_returns [of "peer s" "a + 1" "makeSnap (a + 1) rs"] r assms(2)
    by (cases "(a + 1 + 1) mod SnapShotInterval = 0") (fastforce simp: in_step_def)+
  have "rs_lastApplied (srv s) = a" "1 \<le> a \<longrightarrow> mine a \<noteq> None"
    using r by (simp_all add: in_step_def mine_def i_def)
  then have "apply_command fine m s = Inr (s\<lparr>srv := rs, peer := rf, tester := ts\<rparr>, None)"
    using check rf(1)
    by (cases "(a + 1 + 1) mod SnapShotInterval = 0")
      (auto simp: apply_command_def Let_def m i_def [symmetric] rs_def [symmetric])
  then have step: "applierSnap_step fine g m s = Inr (s\<lparr>srv := rs, peer := rf, tester := ts\<rparr>)"
    by (simp add: applierSnap_step_def m report_def)
  with rf i show ?thesis
    unfolding m_def [symmetric] by (simp add: in_step_def rs_def ts_def i_def [symmetric] mine_def)
qed

lemma agrees_update:
  assumes "agrees ls k v" "k \<noteq> n"
  shows "agrees (ls[i := (ls ! i)(n \<mapsto> w)]) k v"
proof (cases "i < length ls")
  case True
  have "l k = None \<or> l k = Some v" if "l \<in> set (ls[i := (ls ! i)(n \<mapsto> w)])" for l
    using assms that True set_update_subset_insert [of ls i "(ls ! i)(n \<mapsto> w)"]
    by (fastforce simp: agrees_def)
  then show ?thesis by (simp add: agrees_def)
qed (use assms in \<open>simp add: list_update_beyond not_less\<close>)

lemma commands_accepted:
  assumes "collect rf (a + 1) n = Inr ms" and "in_step a b s" and "a + int n \<le> b" and "0 \<le> a"
    and "\<And>k e. a < k \<Longrightarrow> entry rf k = Some e \<Longrightarrow> agrees (t_logs (tester s)) k (le_Command e)"
  shows "\<exists>s'. applierSnap (map (\<lambda>m. (fine, fine, m)) ms) s = Inr s' \<and> in_step (a + int n) b s'
     \<and> t_applyErr (tester s') = t_applyErr (tester s)
     \<and> (\<forall>k. rs_log (srv s') k = (if a < k \<and> k \<le> a + int n
          then map_option le_Command (entry rf k) else rs_log (srv s) k))"
  using assms
proof (induction n arbitrary: a ms s)
  case (Suc n)
  from Suc.prems(1) obtain e ms' where e: "entry rf (a + 1) = Some e"
    "collect rf (a + 1 + 1) n = Inr ms'" "ms = commandMsg (a + 1) e # ms'"
    by (auto simp: log_at_Inr_iff)
  obtain s1 where s1: "applierSnap_step fine fine (commandMsg (a + 1) e) s = Inr s1"
    "in_step (a + 1) b s1" "t_applyErr (tester s1) = t_applyErr (tester s)"
    "t_logs (tester s1) = (t_logs (tester s))[rs_me (srv s) :=
       (t_logs (tester s) ! rs_me (srv s))(a + 1 \<mapsto> le_Command e)]"
    "rs_log (srv s1) = (rs_log (srv s))(a + 1 \<mapsto> le_Command e)"
    using command_accepted [OF Suc.prems(2), of e fine] Suc.prems(3-5) e(1) by auto
  have "agrees (t_logs (tester s1)) k (le_Command e')" if "a + 1 < k" "entry rf k = Some e'" for k e'
    using that Suc.prems(5) by (auto simp: s1(4) intro!: agrees_update)
  moreover have "a + 1 + int n \<le> b" "0 \<le> a + 1" using Suc.prems(3,4) by auto
  ultimately obtain s' where
    s': "applierSnap (map (\<lambda>m. (fine, fine, m)) ms') s1 = Inr s'" "in_step (a + 1 + int n) b s'"
    "t_applyErr (tester s') = t_applyErr (tester s1)"
    "\<forall>k. rs_log (srv s') k = (if a + 1 < k \<and> k \<le> a + 1 + int n
       then map_option le_Command (entry rf k) else rs_log (srv s1) k)"
    using Suc.IH [OF e(2) s1(2)] by blast
  have "rs_log (srv s') k = (if a < k \<and> k \<le> a + int (Suc n)
       then map_option le_Command (entry rf k) else rs_log (srv s) k)" for k
    using e(1) spec [OF s'(4), of k] by (cases "k = a + 1") (auto simp: s1(5))
  with s1(1,3) s'(1-3) e(3) show ?case
    by (intro exI [of _ s']) (simp add: algebra_simps)
qed auto

text \<open>
  C22: One pass of the peer's apply loop sends messages that the server accepts one after the
  other: it reports no error to the tester as long as the servers agree on the commands,
  it takes its snapshots, and afterwards its log holds the commands of the peer's log up to
  the commit index.
\<close>

theorem applier_accepts_apply_loop:
  assumes "apply_loop rf = Inr (rf', ms)" and "peer s = rf'"
    and "snapshotIndex rf \<le> lastApplied rf" and "0 \<le> lastApplied rf"
    and "lastApplied rf \<le> commitIndex rf" and "commitIndex rf \<le> GetLastLogIndex rf"
    and "rs_lastApplied (srv s) = lastApplied rf" and "rs_me (srv s) < length (t_logs (tester s))"
    and "1 \<le> lastApplied rf \<longrightarrow> (t_logs (tester s) ! rs_me (srv s)) (lastApplied rf) \<noteq> None"
    and "\<And>k e. lastApplied rf < k \<Longrightarrow> entry rf k = Some e
           \<Longrightarrow> agrees (t_logs (tester s)) k (le_Command e)"
  shows "\<exists>s'. applierSnap (map (\<lambda>m. (fine, fine, m)) ms) s = Inr s'
     \<and> t_applyErr (tester s') = t_applyErr (tester s)
     \<and> rs_lastApplied (srv s') = commitIndex rf
     \<and> (\<forall>k. rs_log (srv s') k = (if lastApplied rf < k \<and> k \<le> commitIndex rf
          then map_option le_Command (entry rf k) else rs_log (srv s) k))"
proof -
  have ms: "collect rf (lastApplied rf + 1) (nat (commitIndex rf - lastApplied rf)) = Inr ms"
    and rf': "rf' = rf\<lparr>lastApplied := commitIndex rf\<rparr> \<or> rf' = rf"
    using assms(1,5) by (auto simp: apply_loop_def Let_def split: if_splits)
  then have "in_step (lastApplied rf) (commitIndex rf) s"
    using assms by (auto simp: in_step_def GetLastLogIndex_def)
  moreover have "lastApplied rf + int (nat (commitIndex rf - lastApplied rf)) = commitIndex rf"
    using assms(5) by simp
  ultimately obtain s' where
    "applierSnap (map (\<lambda>m. (fine, fine, m)) ms) s = Inr s'" "in_step (commitIndex rf) (commitIndex rf) s'"
    "t_applyErr (tester s') = t_applyErr (tester s)"
    "\<forall>k. rs_log (srv s') k = (if lastApplied rf < k \<and> k \<le> commitIndex rf
       then map_option le_Command (entry rf k) else rs_log (srv s) k)"
    using commands_accepted [OF ms _ _ assms(4,10), of "commitIndex rf"] by (metis order_refl)
  then show ?thesis by (intro exI [of _ s']) (simp add: in_step_def)
qed

section \<open>A restarted server resumes where its snapshot ends\<close>

lemma ingest_makeSnap:
  assumes "i = -1 \<or> i = n" "0 \<le> n"
  shows "\<exists>rs'. ingestSnap (makeSnap n rs) i rs0 = (rs', None) \<and> rs_lastApplied rs' = n
     \<and> rs_me rs' = rs_me rs0
     \<and> (\<forall>j. rs_log rs' j = (if 0 \<le> j \<and> j \<le> n then Some (log_read (rs_log rs) j) else None))"
  using assms by (auto simp: ingestSnap_def makeSnap_def)

text \<open>
  C23: A server that handed its peer a snapshot at index \<open>n\<close> and is restarted from the
  persister of that peer comes back with the commands up to \<open>n\<close>, the tester is told so,
  and it expects the command after \<open>n\<close> exactly as the restarted peer will send it.
\<close>

theorem restarted_server_resumes:
  assumes "snapshotIndex rf \<le> n" "n \<le> GetLastLogIndex rf" "1 \<le> n"
    and "i < length (t_logs ts)"
  shows "\<exists>rf' s'. Snapshot n (makeSnap n rs) rf = Inr rf'
     \<and> newRfsrv clk fine np i (persister rf') True ts = Inr s'
     \<and> rs_lastApplied (srv s') = n \<and> lastApplied (peer s') = n
     \<and> (\<forall>j. 0 \<le> j \<and> j \<le> n \<longrightarrow> rs_log (srv s') j = Some (log_read (rs_log rs) j))
     \<and> t_logs (tester s') ! i = rs_log (srv s')"
proof -
  obtain rf' where rf': "Snapshot n (makeSnap n rs) rf = Inr rf'" "snapshotIndex rf' = n"
    "saved rf'" "snapshot rf' = makeSnap n rs"
    using Snapshot_returns [OF assms(1,2)] by blast
  have sn: "ReadSnapshot (persister rf') = makeSnap n rs"
    using rf'(3,4) by (auto simp: saved_def ReadSnapshot_def clone_def)
  have "lastApplied (Make clk np (int i) (persister rf')) = n"
    using rf'(2,3) assms(3)
    by (auto simp: saved_def Make_def Let_def readPersist_def ReadRaftState_def ReadSnapshot_def
        clone_def resetElectionTimer_def spawn_def)
  moreover obtain rs' where "ingestSnap (makeSnap n rs) (-1)
      \<lparr>rs_me = i, rs_lastApplied = 0, rs_log = Map.empty\<rparr> = (rs', None)" "rs_lastApplied rs' = n"
    "\<forall>j. rs_log rs' j = (if 0 \<le> j \<and> j \<le> n then Some (log_read (rs_log rs) j) else None)"
    using ingest_makeSnap [of "-1" n rs] assms(3) by fastforce
  moreover have "makeSnap n rs \<noteq> []" by (simp add: makeSnap_def)
  ultimately show ?thesis
    using rf'(1) sn assms(4)
    by (intro exI [of _ rf'])
      (auto simp: newRfsrv_def Let_def proxy_IngestLog_def fine_def IngestLog_def go_update_Inr)
qed

section \<open>An example\<close>

text \<open>A peer that has committed two commands, its server and a tester of three servers.\<close>

definition demo_rf :: "(nat, nat snap_val) Raft" where
  "demo_rf = (Make demo_clock 3 0 MakePersister)\<lparr>commitIndex := 2,
     logs := [\<lparr>le_Term = 0, le_Command = None\<rparr>, \<lparr>le_Term = 1, le_Command = Some 5\<rparr>,
              \<lparr>le_Term = 1, le_Command = Some 6\<rparr>]\<rparr>"

definition demo_rfsys :: "nat rfsys" where
  "demo_rfsys = \<lparr>srv = \<lparr>rs_me = 0, rs_lastApplied = 0, rs_log = Map.empty\<rparr>,
     peer = demo_rf\<lparr>lastApplied := 2\<rparr>,
     tester = \<lparr>t_logs = [Map.empty, [1 \<mapsto> Some 5], Map.empty], t_applyErr = [None, None, None],
               maxIndex = 1\<rparr>\<rparr>"

lemma demo_rf_fields [simp]:
  "snapshotIndex demo_rf = 0" "lastApplied demo_rf = 0" "commitIndex demo_rf = 2"
  "GetLastLogIndex demo_rf = 2"
  "entry demo_rf k = (if 0 \<le> k \<and> k \<le> 2 then Some ([\<lparr>le_Term = 0, le_Command = None\<rparr>,
     \<lparr>le_Term = 1, le_Command = Some 5\<rparr>, \<lparr>le_Term = 1, le_Command = Some 6\<rparr>] ! nat k) else None)"
  by (auto simp: demo_rf_def Make_def Let_def readPersist_def ReadRaftState_def clone_def
      MakePersister_def resetElectionTimer_def spawn_def GetLastLogIndex_def entry_def)

lemma demo_apply:
  "apply_loop demo_rf = Inr (demo_rf\<lparr>lastApplied := 2\<rparr>,
     [commandMsg 1 \<lparr>le_Term = 1, le_Command = Some 5\<rparr>,
      commandMsg 2 \<lparr>le_Term = 1, le_Command = Some 6\<rparr>])"
  by (simp add: apply_loop_def Let_def numeral_2_eq_2 log_at_entry)

theorem applier_accepts_apply_loop_witness:
  "\<exists>s'. applierSnap (map (\<lambda>m. (fine, fine, m))
          [commandMsg 1 \<lparr>le_Term = 1, le_Command = Some 5\<rparr>,
           commandMsg 2 \<lparr>le_Term = 1, le_Command = Some 6\<rparr>]) demo_rfsys = Inr s'
     \<and> t_applyErr (tester s') = [None, None, None] \<and> rs_lastApplied (srv s') = 2
     \<and> rs_log (srv s') 2 = Some (Some 6)"
proof -
  have agree: "agrees (t_logs (tester demo_rfsys)) k (le_Command e)"
    if "lastApplied demo_rf < k" "entry demo_rf k = Some e" for k e
    using that by (auto simp: agrees_def demo_rfsys_def split: if_splits)
  have h: "peer demo_rfsys = demo_rf\<lparr>lastApplied := 2\<rparr>"
    "rs_lastApplied (srv demo_rfsys) = lastApplied demo_rf"
    "rs_me (srv demo_rfsys) < length (t_logs (tester demo_rfsys))"
    by (simp_all add: demo_rfsys_def)
  have "1 \<le> lastApplied demo_rf \<longrightarrow>
      (t_logs (tester demo_rfsys) ! rs_me (srv demo_rfsys)) (lastApplied demo_rf) \<noteq> None"
    "snapshotIndex demo_rf \<le> lastApplied demo_rf" "0 \<le> lastApplied demo_rf"
    "lastApplied demo_rf \<le> commitIndex demo_rf" "commitIndex demo_rf \<le> GetLastLogIndex demo_rf"
    by simp_all
  from applier_accepts_apply_loop [OF demo_apply h(1) this(2-5) h(2,3) this(1) agree]
  obtain s' where "applierSnap (map (\<lambda>m. (fine, fine, m))
          [commandMsg 1 \<lparr>le_Term = 1, le_Command = Some 5\<rparr>,
           commandMsg 2 \<lparr>le_Term = 1, le_Command = Some 6\<rparr>]) demo_rfsys = Inr s'"
    "t_applyErr (tester s') = t_applyErr (tester demo_rfsys)"
    "rs_lastApplied (srv s') = commitIndex demo_rf"
    "\<forall>k. rs_log (srv s') k = (if lastApplied demo_rf < k \<and> k \<le> commitIndex demo_rf
       then map_option le_Command (entry demo_rf k) else rs_log (srv demo_rfsys) k)"
    by blast
  then show ?thesis by (intro exI [of _ s']) (simp add: demo_rfsys_def)
qed

theorem restarted_server_resumes_witness:
  "\<exists>rf' s'. Snapshot 2 (makeSnap 2 \<lparr>rs_me = 0, rs_lastApplied = 2, rs_log = [1 \<mapsto> Some 5, 2 \<mapsto> Some 6]\<rparr>)
       demo_rf = Inr rf'
     \<and> newRfsrv demo_clock fine 3 0 (persister rf') True (tester demo_rfsys) = Inr s'
     \<and> rs_lastApplied (srv s') = 2 \<and> lastApplied (peer s') = 2
     \<and> rs_log (srv s') 2 = Some (Some 6)"
  using restarted_server_resumes [of demo_rf 2 0 "tester demo_rfsys"
      "\<lparr>rs_me = 0, rs_lastApplied = 2, rs_log = [1 \<mapsto> Some 5, 2 \<mapsto> Some 6]\<rparr>" demo_clock 3]
  by (force simp: demo_rfsys_def log_read_def)

text \<open>
  The applier without snapshots does not tell a lost reply of the tester from a gap in the
  commands.
\<close>

lemma applier_reports_lost_reply_as_disorder:
  "applier_step \<lparr>req = True, rep = False\<rparr> fine (commandMsg 2 \<lparr>le_Term = 1, le_Command = Some 6\<rparr>)
     (demo_rfsys\<lparr>srv := \<lparr>rs_me = 1, rs_lastApplied = 1, rs_log = Map.empty\<rparr>\<rparr>)
   = Inr (demo_rfsys\<lparr>srv := \<lparr>rs_me = 1, rs_lastApplied = 1, rs_log = Map.empty\<rparr>,
       tester := \<lparr>t_logs = [Map.empty, [1 \<mapsto> Some 5, 2 \<mapsto> Some 6], Map.empty],
                  t_applyErr = [None, Some (OutOfOrder 2), None], maxIndex = 2\<rparr>\<rparr>)"
  by (simp add: applier_step_def demo_rfsys_def commandMsg_def proxy_CheckLogs_def CheckLogs_def
      go_nth_Inr Let_def report_def proxy_ApplyErr_def fine_def ApplyErr_def go_update_Inr)

end
