(* ===== verification/RaftChecks.thy ===== *)
theory RaftChecks
  imports RaftSrv "HOL-Library.AList"
begin

text \<open>
  The checks of the Raft tests, \<^verbatim>\<open>src/src/raft1/test.go\<close>: who is leader, do the terms agree, how
  many servers have committed an entry, and the loops that wait for agreement.  What a check
  sees of the running servers is an input: an observation per server and round.
  Annotations are left out.
\<close>

section \<open>Leaders and terms\<close>

text \<open>
  What a check sees of one server: whether it is connected, and the answer of \<^verbatim>\<open>GetState\<close> (term
  and whether it is leader), absent if the server is not running.
\<close>

type_synonym observation = "(bool \<times> (int \<times> bool) option) list"

text \<open>The map \<^verbatim>\<open>leaders\<close>, in the order in which the terms are first seen.\<close>

definition add_leader :: "int \<Rightarrow> int \<Rightarrow> (int \<times> int list) list \<Rightarrow> (int \<times> int list) list" where
  "add_leader t i ls = AList.update t ((case map_of ls t of None \<Rightarrow> [] | Some xs \<Rightarrow> xs) @ [i]) ls"

fun collect_leaders :: "int \<Rightarrow> observation \<Rightarrow> (int \<times> int list) list \<Rightarrow> (int \<times> int list) list go" where
  "collect_leaders i [] ls = Inr ls"
| "collect_leaders i ((conn, state) # os) ls =
     (if \<not> conn then collect_leaders (i + 1) os ls
      else case state of
        None \<Rightarrow> Inl (Panic ''nil pointer dereference'')
      | Some (term, leader) \<Rightarrow> collect_leaders (i + 1) os (if leader then add_leader term i ls else ls))"

fun scan_terms :: "(int \<times> int list) list \<Rightarrow> int \<Rightarrow> int go" where
  "scan_terms [] lastTerm = Inr lastTerm"
| "scan_terms ((term, leaders) # rest) lastTerm =
     (if length leaders > 1 then Inl (Fatal ''term has >1 leaders'')
      else scan_terms rest (if term > lastTerm then term else lastTerm))"

definition leader_round :: "observation \<Rightarrow> int option go" where
  "leader_round os =
     bind_go (collect_leaders 0 os []) (\<lambda>leaders.
     bind_go (scan_terms leaders (- 1)) (\<lambda>lastTermWithLeader.
       if leaders \<noteq> []
       then bind_go (go_nth (case map_of leaders lastTermWithLeader of None \<Rightarrow> [] | Some xs \<Rightarrow> xs) 0)
              (\<lambda>l. Inr (Some l))
       else Inr None))"

fun leader_loop :: "(nat \<Rightarrow> observation) \<Rightarrow> nat list \<Rightarrow> int go" where
  "leader_loop obs [] = Inl (Fatal ''expected one leader, got none'')"
| "leader_loop obs (k # ks) = bind_go (leader_round (obs k)) (\<lambda>r. case r of
     Some l \<Rightarrow> Inr l | None \<Rightarrow> leader_loop obs ks)"

definition checkOneLeader :: "(nat \<Rightarrow> observation) \<Rightarrow> int go" where
  "checkOneLeader obs = leader_loop obs [0..<10]"

fun terms_loop :: "observation \<Rightarrow> int \<Rightarrow> int go" where
  "terms_loop [] term = Inr term"
| "terms_loop ((conn, state) # os) term =
     (if \<not> conn then terms_loop os term
      else case state of
        None \<Rightarrow> Inl (Panic ''nil pointer dereference'')
      | Some (xterm, _) \<Rightarrow>
          if term = - 1 then terms_loop os xterm
          else if term \<noteq> xterm then Inl (Fatal ''servers disagree on term'')
          else terms_loop os term)"

definition checkTerms :: "observation \<Rightarrow> int go" where
  "checkTerms os = terms_loop os (- 1)"

fun checkNoLeader :: "observation \<Rightarrow> unit go" where
  "checkNoLeader [] = Inr ()"
| "checkNoLeader ((conn, state) # os) =
     (if \<not> conn then checkNoLeader os
      else case state of
        None \<Rightarrow> Inl (Panic ''nil pointer dereference'')
      | Some (_, is_leader) \<Rightarrow> if is_leader then Inl (Fatal ''unexpected leader'') else checkNoLeader os)"

section \<open>Committed entries\<close>

fun committed_loop ::
  "int \<Rightarrow> (apply_err option \<times> (int \<rightharpoonup> 'c option)) list \<Rightarrow> int \<times> 'c option \<Rightarrow> (int \<times> 'c option) go" where
  "committed_loop idx [] acc = Inr acc"
| "committed_loop idx ((applyErr, log) # rest) acc =
     (if applyErr \<noteq> None then Inl (Fatal ''apply error'')
      else case log idx of
        None \<Rightarrow> committed_loop idx rest acc
      | Some cmd1 \<Rightarrow>
          if fst acc > 0 \<and> snd acc \<noteq> cmd1 then Inl (Fatal ''committed values do not match'')
          else committed_loop idx rest (fst acc + 1, cmd1))"

definition nCommitted :: "int \<Rightarrow> 'c raftTest \<Rightarrow> (int \<times> 'c option) go" where
  "nCommitted idx ts = committed_loop idx (zip (t_applyErr ts) (t_logs ts)) (0, None)"

definition checkNoAgreement :: "int \<Rightarrow> 'c raftTest \<Rightarrow> unit go" where
  "checkNoAgreement idx ts = bind_go (nCommitted idx ts) (\<lambda>(n, _).
     if n > 0 then Inl (Fatal ''committed but no majority'') else Inr ())"

text \<open>
  The polls of \<^verbatim>\<open>wait\<close>: at most thirty looks at the committed entries, each followed by a look at
  the terms of all servers.  The result \<open>None\<close> stands for the \<^verbatim>\<open>-1\<close> of a server that has moved on.
\<close>

fun moved_on :: "int \<Rightarrow> (int \<times> bool) option list \<Rightarrow> bool go" where
  "moved_on startTerm [] = Inr False"
| "moved_on startTerm (None # rest) = Inl (Panic ''nil pointer dereference'')"
| "moved_on startTerm (Some (t, _) # rest) = (if t > startTerm then Inr True else moved_on startTerm rest)"

fun wait_loop ::
  "(nat \<Rightarrow> 'c raftTest \<times> (int \<times> bool) option list) \<Rightarrow> int \<Rightarrow> int \<Rightarrow> int \<Rightarrow> nat list \<Rightarrow> bool go" where
  "wait_loop polls idx n startTerm [] = Inr False"
| "wait_loop polls idx n startTerm (k # ks) =
     bind_go (nCommitted idx (fst (polls k))) (\<lambda>(nd, _).
       if nd \<ge> n then Inr False
       else if startTerm > - 1
       then bind_go (moved_on startTerm (snd (polls k))) (\<lambda>m.
              if m then Inr True else wait_loop polls idx n startTerm ks)
       else wait_loop polls idx n startTerm ks)"

definition raft_wait ::
  "(nat \<Rightarrow> 'c raftTest \<times> (int \<times> bool) option list) \<Rightarrow> 'c raftTest \<Rightarrow> int \<Rightarrow> int \<Rightarrow> int \<Rightarrow> 'c option option go" where
  "raft_wait polls final idx n startTerm =
     bind_go (wait_loop polls idx n startTerm [0..<30]) (\<lambda>gone.
       if gone then Inr None
       else bind_go (nCommitted idx final) (\<lambda>(nd, cmd).
         if nd < n then Inl (Fatal ''not enough servers decided'') else Inr (Some cmd)))"

text \<open>
  \<^verbatim>\<open>one\<close>: a round tries the servers in turn, from the one after the last tried; an attempt
  is what \<^verbatim>\<open>Start\<close> answers, absent if the server is not connected or not running.  Then the
  committed entries are polled for two seconds.  Rounds end when ten seconds are over or
  the test has finished.
\<close>

record 'c one_round =
  start_answers :: "(int \<times> bool) option list"
  or_polls :: "'c raftTest list"

fun try_start :: "nat \<Rightarrow> nat \<Rightarrow> (int \<times> bool) option list \<Rightarrow> nat \<times> int" where
  "try_start 0 starts answers = (starts, - 1)"
| "try_start (Suc k) starts answers =
     (let starts = (starts + 1) mod length answers in
      case answers ! starts of
        Some (index1, accepted) \<Rightarrow> if accepted then (starts, index1) else try_start k starts answers
      | None \<Rightarrow> try_start k starts answers)"

fun await_agreement :: "'c \<Rightarrow> int \<Rightarrow> int \<Rightarrow> 'c raftTest list \<Rightarrow> bool go" where
  "await_agreement cmd expected idx [] = Inr False"
| "await_agreement cmd expected idx (ts # rest) =
     bind_go (nCommitted idx ts) (\<lambda>(nd, cmd1).
       if nd > 0 \<and> nd \<ge> expected \<and> cmd1 = Some cmd then Inr True
       else await_agreement cmd expected idx rest)"

fun one_loop :: "'c \<Rightarrow> int \<Rightarrow> bool \<Rightarrow> nat \<Rightarrow> bool \<Rightarrow> 'c one_round list \<Rightarrow> int go" where
  "one_loop cmd expected retry starts finished [] =
     (if \<not> finished then Inl (Fatal ''one failed to reach agreement'') else Inr (- 1))"
| "one_loop cmd expected retry starts finished (r # rs) =
     (case try_start (length (start_answers r)) starts (start_answers r) of (starts, idx) \<Rightarrow>
        if idx \<noteq> - 1
        then bind_go (await_agreement cmd expected idx (or_polls r)) (\<lambda>agreed.
               if agreed then Inr idx
               else if \<not> retry then Inl (Fatal ''one failed to reach agreement'')
               else one_loop cmd expected retry starts finished rs)
        else one_loop cmd expected retry starts finished rs)"

definition raft_one :: "'c \<Rightarrow> int \<Rightarrow> bool \<Rightarrow> bool \<Rightarrow> 'c one_round list \<Rightarrow> int go" where
  "raft_one cmd expected retry finished rs = one_loop cmd expected retry 0 finished rs"

section \<open>What a found leader means\<close>

text \<open>The claims of leadership in an observation: term and server.\<close>

fun claims :: "int \<Rightarrow> observation \<Rightarrow> (int \<times> int) list" where
  "claims i [] = []"
| "claims i ((conn, state) # os) =
     (case state of Some (t, leader) \<Rightarrow> if conn \<and> leader then [(t, i)] else [] | None \<Rightarrow> []) @ claims (i + 1) os"

definition observable :: "observation \<Rightarrow> bool" where
  "observable os = (\<forall>(conn, state) \<in> set os. conn \<longrightarrow> (\<exists>t leader. state = Some (t, leader) \<and> 0 \<le> t))"

definition sole_leader :: "observation \<Rightarrow> int \<Rightarrow> bool" where
  "sole_leader os l = (distinct (map fst (claims 0 os))
     \<and> (\<exists>t. (t, l) \<in> set (claims 0 os) \<and> (\<forall>t' \<in> fst ` set (claims 0 os). t' \<le> t)))"

definition group_claims :: "(int \<times> int) list \<Rightarrow> (int \<times> int list) list \<Rightarrow> (int \<times> int list) list" where
  "group_claims cs ls = fold (\<lambda>(t, i). add_leader t i) cs ls"

lemma collect_leaders_groups:
  "observable os \<Longrightarrow> collect_leaders i os ls = Inr (group_claims (claims i os) ls)"
  by (induction i os ls rule: collect_leaders.induct)
    (auto simp: observable_def group_claims_def split: option.splits)

lemma group_claims_lookup:
  "map_of (group_claims cs ls) t =
     (let xs = map snd (filter (\<lambda>p. fst p = t) cs) in
      case map_of ls t of None \<Rightarrow> if xs = [] then None else Some xs | Some ys \<Rightarrow> Some (ys @ xs))"
proof (induction cs arbitrary: ls)
  case (Cons c cs)
  obtain t' i where c: "c = (t', i)" by (cases c)
  have step: "group_claims (c # cs) ls = group_claims cs (add_leader t' i ls)"
    by (simp add: group_claims_def c)
  show ?case
    unfolding step Cons.IH
    by (auto simp: c add_leader_def AList.update_conv' Let_def split: option.split)
qed (simp add: group_claims_def Let_def split: option.split)

lemma group_claims_distinct: "distinct (map fst ls) \<Longrightarrow> distinct (map fst (group_claims cs ls))"
  unfolding group_claims_def
  by (induction cs arbitrary: ls) (auto simp: add_leader_def distinct_update)

lemma scan_terms_spec:
  "scan_terms ls m = (if \<forall>p \<in> set ls. length (snd p) \<le> 1 then Inr (fold max (map fst ls) m)
                      else Inl (Fatal ''term has >1 leaders''))"
proof (induction ls arbitrary: m)
  case (Cons p ls)
  obtain t xs where p: "p = (t, xs)" by (cases p)
  have "(if t > m then t else m) = max t m" by (simp add: max_def)
  then show ?case using Cons by (auto simp: p)
qed simp

lemma fold_max_spec:
  "fold max xs (m :: int) \<in> insert m (set xs) \<and> (\<forall>x \<in> insert m (set xs). x \<le> fold max xs m)"
  by (metis List.finite_set Max.set_eq_fold Max_ge Max_in finite_insert insert_not_empty list.simps(15))

lemma distinct_by_filter:
  "distinct (map fst xs) \<longleftrightarrow> (\<forall>t. length (filter (\<lambda>p. fst p = t) xs) \<le> 1)"
proof (induction xs)
  case (Cons x xs)
  have "fst x \<in> set (map fst xs) \<longleftrightarrow> filter (\<lambda>p. fst p = fst x) xs \<noteq> []"
    by (metis (mono_tags, lifting) filter_empty_conv image_iff list.set_map)
  then show ?case using Cons by (auto simp: le_Suc_eq split: if_splits)
qed simp

lemma group_claims_entry:
  "(t, xs) \<in> set (group_claims cs []) \<longleftrightarrow> xs = map snd (filter (\<lambda>p. fst p = t) cs) \<and> xs \<noteq> []"
proof -
  have "distinct (map fst (group_claims cs []))" by (rule group_claims_distinct) simp
  then have "(t, xs) \<in> set (group_claims cs []) \<longleftrightarrow> map_of (group_claims cs []) t = Some xs" by simp
  then show ?thesis by (auto simp: group_claims_lookup Let_def)
qed

lemma group_claims_keys: "fst ` set (group_claims cs []) = fst ` set cs"
proof -
  have "t \<in> fst ` set (group_claims cs []) \<longleftrightarrow> filter (\<lambda>p. fst p = t) cs \<noteq> []" for t
    by (auto simp: group_claims_entry image_iff Bex_def)
  then show ?thesis by (force simp: filter_empty_conv)
qed

lemma claims_nonneg: "observable os \<Longrightarrow> (t, l) \<in> set (claims i os) \<Longrightarrow> 0 \<le> t"
  by (induction i os rule: claims.induct) (auto simp: observable_def split: option.splits if_splits)

lemma single_claim:
  assumes "distinct (map fst cs)" "(t, l) \<in> set cs"
  shows "map snd (filter (\<lambda>p. fst p = t) cs) = [l]"
proof -
  let ?f = "filter (\<lambda>p. fst p = t) cs"
  have "(t, l) \<in> set ?f" using assms(2) by simp
  moreover have "length ?f \<le> 1" using assms(1) distinct_by_filter [of cs] by blast
  ultimately have "?f = [(t, l)]" by (cases ?f) auto
  then show ?thesis by simp
qed

lemma leader_round_cases:
  assumes ok: "observable os"
  shows "leader_round os =
    (if \<not> distinct (map fst (claims 0 os)) then Inl (Fatal ''term has >1 leaders'')
     else if claims 0 os = [] then Inr None
     else Inr (map_of (claims 0 os) (Max (fst ` set (claims 0 os)))))"
proof -
  let ?cs = "claims 0 os" and ?L = "group_claims (claims 0 os) []"
  have "(\<forall>p \<in> set ?L. length (snd p) \<le> 1)
      \<longleftrightarrow> (\<forall>t xs. (t, xs) \<in> set ?L \<longrightarrow> length xs \<le> 1)" by auto
  also have "\<dots> \<longleftrightarrow> (\<forall>t. length (filter (\<lambda>p. fst p = t) ?cs) \<le> 1)"
    unfolding group_claims_entry by simp (metis le_SucI list.size(3) zero_le)
  finally have "(\<forall>p \<in> set ?L. length (snd p) \<le> 1)
      \<longleftrightarrow> (\<forall>t. length (filter (\<lambda>p. fst p = t) ?cs) \<le> 1)" .
  then have few: "(\<forall>p \<in> set ?L. length (snd p) \<le> 1) \<longleftrightarrow> distinct (map fst ?cs)"
    by (simp add: distinct_by_filter)
  have empty: "?L = [] \<longleftrightarrow> ?cs = []" using group_claims_keys [of ?cs] by force
  show ?thesis
  proof (cases "distinct (map fst ?cs) \<and> ?cs \<noteq> []")
    case True
    let ?m = "fold max (map fst ?L) (- 1)" and ?K = "fst ` set ?cs"
    have "?K \<noteq> {}" "\<forall>t \<in> ?K. 0 \<le> t" using True claims_nonneg [OF ok] by auto
    moreover have above: "\<forall>t \<in> ?K. t \<le> ?m" and "?m \<in> insert (- 1) ?K"
      using fold_max_spec [of "map fst ?L" "- 1"] group_claims_keys [of ?cs] by auto
    ultimately have "?m \<in> ?K" by (metis all_not_in_conv insert_iff neg_0_le_iff_le not_one_le_zero order_trans)
    with above
    have m: "?m = Max ?K" "?m \<in> ?K" by (metis List.finite_set Max_eqI finite_imageI)+
    then obtain l where l: "(?m, l) \<in> set ?cs" by auto
    then have "map_of ?cs ?m = Some l" using True by simp
    moreover have "map_of ?L ?m = Some [l]"
      using single_claim [OF _ l] True by (simp add: group_claims_lookup)
    ultimately show ?thesis
      using True few empty m collect_leaders_groups [OF ok, of 0 "[]"]
      by (simp add: leader_round_def scan_terms_spec go_nth_def)
  next
    case False
    then show ?thesis using few empty collect_leaders_groups [OF ok, of 0 "[]"]
      by (auto simp: leader_round_def scan_terms_spec)
  qed
qed

lemma leader_round_none: "observable os \<Longrightarrow> leader_round os = Inr None \<longleftrightarrow> claims 0 os = []"
  by (auto simp: leader_round_cases map_of_eq_None_iff)

lemma leader_round_some:
  assumes ok: "observable os"
  shows "leader_round os = Inr (Some l) \<longleftrightarrow> sole_leader os l"
proof -
  let ?cs = "claims 0 os" and ?K = "fst ` set (claims 0 os)"
  have "map_of ?cs (Max ?K) = Some l \<longleftrightarrow> (\<exists>t. (t, l) \<in> set ?cs \<and> (\<forall>t' \<in> ?K. t' \<le> t))"
    if "distinct (map fst ?cs)"
  proof -
    have "(t, l) \<in> set ?cs \<Longrightarrow> \<forall>t' \<in> ?K. t' \<le> t \<Longrightarrow> Max ?K = t" for t
      by (rule Max_eqI) force+
    moreover have "\<forall>t' \<in> ?K. t' \<le> Max ?K" by simp
    ultimately show ?thesis using that by (metis map_of_eq_Some_iff)
  qed
  then show ?thesis using ok by (auto simp: leader_round_cases sole_leader_def)
qed

lemma leader_loop_finds:
  assumes "\<forall>k. i \<le> k \<and> k < n \<longrightarrow> observable (obs k)"
  shows "leader_loop obs [i..<n] = Inr l \<longleftrightarrow>
    (\<exists>k. i \<le> k \<and> k < n \<and> (\<forall>j. i \<le> j \<and> j < k \<longrightarrow> claims 0 (obs j) = []) \<and> sole_leader (obs k) l)"
  using assms
proof (induction "n - i" arbitrary: i)
  case (Suc d)
  then have "i < n" by simp
  then have upt: "[i..<n] = i # [Suc i..<n]" by (rule upt_conv_Cons)
  have obs: "observable (obs i)" using Suc.prems \<open>i < n\<close> by simp
  note round = leader_round_none [OF obs] leader_round_some [OF obs]
  have IH: "leader_loop obs [Suc i..<n] = Inr l \<longleftrightarrow>
      (\<exists>k. i < k \<and> k < n \<and> (\<forall>j. i < j \<and> j < k \<longrightarrow> claims 0 (obs j) = []) \<and> sole_leader (obs k) l)"
    using Suc.hyps(1) [of "Suc i"] Suc.hyps(2) Suc.prems by (simp add: Suc_le_eq)
  show ?case
  proof (cases "claims 0 (obs i) = []")
    case True
    then have "\<not> sole_leader (obs i) l" by (simp add: sole_leader_def)
    then show ?thesis using True round unfolding upt
      by (simp add: IH) (metis le_neq_implies_less less_imp_le_nat)
  next
    case False
    then have "(\<exists>k. i \<le> k \<and> k < n \<and> (\<forall>j. i \<le> j \<and> j < k \<longrightarrow> claims 0 (obs j) = []) \<and> sole_leader (obs k) l)
        \<longleftrightarrow> sole_leader (obs i) l"
      using \<open>i < n\<close> by (metis le_neq_implies_less le_refl not_le)
    moreover have "leader_loop obs [i..<n] = Inr l \<longleftrightarrow> leader_round (obs i) = Inr (Some l)"
      using False round(1) unfolding upt by (cases "leader_round (obs i)") (auto split: option.split)
    ultimately show ?thesis using round(2) by simp
  qed
qed simp

text \<open>
  \<^verbatim>\<open>checkOneLeader\<close> returns a server exactly if, in the first of the ten rounds in which some
  connected server claims to be leader, no term has two leaders and the returned
  server is the leader of the highest term; rounds without a leader are skipped.
\<close>

theorem checkOneLeader_finds_leader:
  assumes "\<forall>k < 10. observable (obs k)"
  shows "checkOneLeader obs = Inr l \<longleftrightarrow>
    (\<exists>k < 10. (\<forall>j < k. claims 0 (obs j) = []) \<and> sole_leader (obs k) l)"
proof -
  show ?thesis unfolding checkOneLeader_def using leader_loop_finds [of 0 10 obs l] assms by simp
qed

definition demo_rounds :: "nat \<Rightarrow> observation" where
  "demo_rounds k = (if k = 0 then [(True, Some (1, False)), (False, None), (True, Some (1, False))]
     else [(True, Some (1, True)), (False, None), (True, Some (2, True))])"

theorem checkOneLeader_finds_leader_witness: "checkOneLeader demo_rounds = Inr 2"
proof -
  have "\<forall>k < 10. observable (demo_rounds k)" by (auto simp: demo_rounds_def observable_def)
  moreover have "(1::nat) < 10 \<and> (\<forall>j < 1. claims 0 (demo_rounds j) = []) \<and> sole_leader (demo_rounds 1) 2"
    by (simp add: demo_rounds_def sole_leader_def)
  ultimately show ?thesis using checkOneLeader_finds_leader [of demo_rounds 2] by blast
qed

section \<open>What agreement means\<close>

text \<open>The servers that have committed the command \<open>v\<close> at an index.\<close>

definition committers :: "int \<Rightarrow> 'c option \<Rightarrow> 'c raftTest \<Rightarrow> (int \<rightharpoonup> 'c option) list" where
  "committers idx v ts = filter (\<lambda>l. l idx = Some v) (t_logs ts)"

definition all_reported :: "'c raftTest \<Rightarrow> bool" where
  "all_reported ts = (length (t_applyErr ts) = length (t_logs ts))"

lemma committed_loop_sound:
  "committed_loop idx xs (n, c) = Inr (n', c') \<Longrightarrow> 0 \<le> n \<Longrightarrow>
     (\<forall>x \<in> set xs. fst x = None)
     \<and> (if n' = n then c' = c \<and> (\<forall>l \<in> snd ` set xs. l idx = None)
        else agrees (map snd xs) idx c' \<and> (0 < n \<longrightarrow> c' = c))
     \<and> n' = n + int (length (filter (\<lambda>l. l idx \<noteq> None) (map snd xs)))"
proof (induction idx xs "(n, c)" arbitrary: n c rule: committed_loop.induct)
  case (2 idx err log rest)
  show ?case
  proof (cases "log idx")
    case None
    then show ?thesis using 2 by (auto simp: agrees_def split: if_splits)
  next
    case (Some v)
    then have "err = None" "n > 0 \<longrightarrow> c = v"
      and rest: "committed_loop idx rest (n + 1, v) = Inr (n', c')"
      using 2(3) by (auto split: if_splits)
    moreover note 2(2) [OF _ Some] Some 2(4)
    ultimately show ?thesis by (auto simp: agrees_def split: if_splits) force+
  qed
qed (auto simp: agrees_def)

lemma agreeing_count:
  assumes "agrees ls idx v"
  shows "filter (\<lambda>l. l idx \<noteq> None) ls = filter (\<lambda>l. l idx = Some v) ls"
  using assms by (auto simp: agrees_def intro!: filter_cong)

lemma nCommitted_sound:
  assumes "nCommitted idx ts = Inr (n, cmd)" "all_reported ts"
  shows "n = int (length (committers idx cmd ts)) \<and> agrees (t_logs ts) idx cmd"
proof -
  have "map snd (zip (t_applyErr ts) (t_logs ts)) = t_logs ts"
    using assms(2) by (simp add: all_reported_def)
  moreover have "snd ` set (zip (t_applyErr ts) (t_logs ts)) = set (t_logs ts)"
    using calculation by (metis list.set_map)
  moreover note committed_loop_sound [OF assms(1) [unfolded nCommitted_def]]
  ultimately have "agrees (t_logs ts) idx cmd" "n = int (length (filter (\<lambda>l. l idx \<noteq> None) (t_logs ts)))"
    by (auto simp: agrees_def split: if_splits)
  then show ?thesis by (simp only: agreeing_count committers_def)
qed

lemma committed_loop_complete:
  "agrees (map snd xs) idx v \<Longrightarrow> (\<forall>x \<in> set xs. fst x = None) \<Longrightarrow> 0 \<le> n \<Longrightarrow> 0 < n \<longrightarrow> c = v \<Longrightarrow>
     \<exists>r. committed_loop idx xs (n, c) = Inr r"
proof (induction xs arbitrary: n c)
  case (Cons x xs)
  obtain err l where x: "x = (err, l)" by (cases x)
  have "l idx = None \<or> l idx = Some v" using Cons.prems(1) by (simp add: agrees_def x)
  then show ?case
    using Cons.IH [of n c] Cons.IH [of "n + 1" v] Cons.prems by (auto simp: x agrees_def)
qed simp

definition agreeing :: "'c raftTest \<Rightarrow> bool" where
  "agreeing ts = (\<forall>n. \<exists>v. agrees (t_logs ts) n v)"

definition no_errors :: "'c raftTest \<Rightarrow> bool" where
  "no_errors ts = (\<forall>e \<in> set (t_applyErr ts). e = None)"

lemma differing_None: "differing j ls n v e = None \<longleftrightarrow> agrees ls n v \<and> e = None"
  by (induction j ls n v e rule: differing.induct) (auto simp: agrees_def split: option.splits)

lemma CheckLogs_keeps_agreement:
  assumes "agreeing ts" "CheckLogs i m ts = Inr (ts', None, prevok)"
  shows "agreeing ts'"
proof -
  let ?n = "am_CommandIndex m" and ?v = "am_Command m" and ?ls = "t_logs ts"
  have logs: "t_logs ts' = ?ls[i := (?ls ! i)(?n \<mapsto> ?v)]" and new: "agrees ?ls ?n ?v"
    using assms(2) by (auto simp: CheckLogs_def Let_def go_nth_eq_Inr differing_None)
  have "\<exists>v. agrees (t_logs ts') k v" for k
  proof (cases "k = ?n")
    case True
    have "l k = None \<or> l k = Some ?v" if "l \<in> set (t_logs ts')" for l
      using new that set_update_subset_insert [of ?ls i] True by (fastforce simp: logs agrees_def)
    then show ?thesis unfolding agrees_def by blast
  next
    case False
    then show ?thesis using assms(1) agrees_update [of ?ls k _ ?n] unfolding logs agreeing_def by metis
  qed
  then show ?thesis by (simp add: agreeing_def)
qed

text \<open>
  If no server has reported an apply error and \<^verbatim>\<open>CheckLogs\<close> accepts a committed command, then
  \<^verbatim>\<open>nCommitted\<close> afterwards never finds two different commands at an index: it returns the command
  and the number of servers that have committed it, at least one at the index of the
  accepted command.
\<close>

theorem nCommitted_counts_accepted:
  assumes "agreeing ts" "CheckLogs i m ts = Inr (ts', None, prevok)"
    and "no_errors ts" "all_reported ts"
  shows "(\<exists>cmd. nCommitted idx ts' = Inr (int (length (committers idx cmd ts')), cmd) \<and> agrees (t_logs ts') idx cmd)
    \<and> 0 < length (committers (am_CommandIndex m) (am_Command m) ts')"
proof -
  have logs: "t_logs ts' = (t_logs ts)[i := (t_logs ts ! i)(am_CommandIndex m \<mapsto> am_Command m)]"
    and i: "i < length (t_logs ts)" and errs: "t_applyErr ts' = t_applyErr ts"
    using assms(2) by (auto simp: CheckLogs_def Let_def go_nth_eq_Inr)
  have rep: "all_reported ts'" using assms(4) by (simp add: all_reported_def logs errs)
  obtain v where "agrees (t_logs ts') idx v"
    using CheckLogs_keeps_agreement [OF assms(1,2)] unfolding agreeing_def by blast
  moreover have "\<forall>x \<in> set (zip (t_applyErr ts') (t_logs ts')). fst x = None"
    using assms(3) by (auto simp: no_errors_def errs dest: set_zip_leftD)
  ultimately obtain n cmd where "nCommitted idx ts' = Inr (n, cmd)"
    using committed_loop_complete [of "zip (t_applyErr ts') (t_logs ts')" idx v 0 None] rep
    by (auto simp: nCommitted_def all_reported_def)
  moreover have "t_logs ts' ! i \<in> set (committers (am_CommandIndex m) (am_Command m) ts')"
    using i by (simp add: committers_def logs set_update_memI)
  ultimately show ?thesis
    using nCommitted_sound [OF _ rep, of idx n cmd] by (auto simp: length_greater_0_conv)
qed

lemma await_agreement_sound:
  assumes "await_agreement cmd expected idx tss = Inr True" "\<forall>ts \<in> set tss. all_reported ts"
  shows "\<exists>ts \<in> set tss. expected \<le> int (length (committers idx (Some cmd) ts))
    \<and> committers idx (Some cmd) ts \<noteq> [] \<and> agrees (t_logs ts) idx (Some cmd)"
  using assms
proof (induction tss)
  case (Cons ts tss)
  from Cons.prems(1) obtain nd cmd1 where nc: "nCommitted idx ts = Inr (nd, cmd1)"
    by (cases "nCommitted idx ts") auto
  have "nd = int (length (committers idx cmd1 ts)) \<and> agrees (t_logs ts) idx cmd1"
    using nCommitted_sound [OF nc] Cons.prems(2) by simp
  then show ?case using Cons nc by (auto split: if_splits)
qed simp

lemma try_start_accepted:
  assumes "try_start k starts answers = (starts', idx)" "idx \<noteq> - 1" "answers \<noteq> []"
  shows "Some (idx, True) \<in> set answers"
  using assms(1)
proof (induction k arbitrary: starts)
  case (Suc k)
  let ?j = "(starts + 1) mod length answers"
  have mem: "answers ! ?j \<in> set answers" using assms(3) by simp
  show ?case
  proof (cases "\<exists>i. answers ! ?j = Some (i, True)")
    case True
    then show ?thesis using Suc.prems mem by (auto simp: Let_def)
  next
    case False
    then have "try_start k ?j answers = (starts', idx)"
      using Suc.prems by (auto simp: Let_def split: option.splits if_splits)
    then show ?thesis by (rule Suc.IH)
  qed
qed (use assms(2) in simp)

text \<open>
  C38: If \<^verbatim>\<open>one\<close> returns an index, then a server accepted the command at that index, and at a look
  at the servers in the same round at least the expected number of them had committed
  this command there, and none another one.
\<close>

theorem one_reaches_agreement:
  assumes "raft_one cmd expected retry finished rs = Inr idx" "idx \<noteq> - 1"
    and "\<forall>r \<in> set rs. \<forall>ts \<in> set (or_polls r). all_reported ts"
  shows "\<exists>r \<in> set rs. Some (idx, True) \<in> set (start_answers r)
    \<and> (\<exists>ts \<in> set (or_polls r). expected \<le> int (length (committers idx (Some cmd) ts))
        \<and> committers idx (Some cmd) ts \<noteq> [] \<and> agrees (t_logs ts) idx (Some cmd))"
proof -
  have "one_loop cmd expected retry starts finished rs = Inr idx \<Longrightarrow> ?thesis" for starts
    using assms(3)
  proof (induction rs arbitrary: starts)
    case (Cons r rs)
    obtain starts' j where tr: "try_start (length (start_answers r)) starts (start_answers r) = (starts', j)"
      by fastforce
    show ?case
    proof (cases "j \<noteq> - 1 \<and> await_agreement cmd expected j (or_polls r) = Inr True")
      case True
      then have "idx = j" using Cons.prems(1) tr by simp
      moreover have "start_answers r \<noteq> []" using tr True by auto
      ultimately show ?thesis
        using True try_start_accepted [OF tr] await_agreement_sound [of cmd expected j "or_polls r"] Cons.prems(2)
        by auto
    next
      case False
      then have "one_loop cmd expected retry starts' finished rs = Inr idx"
        using Cons.prems(1) tr
        by (cases "await_agreement cmd expected j (or_polls r)") (auto split: if_splits)
      from Cons.IH [OF this] Cons.prems(2) show ?thesis by auto
    qed
  qed (use assms(2) in \<open>simp split: if_splits\<close>)
  then show ?thesis using assms(1) by (simp add: raft_one_def)
qed

definition demo_test :: "nat raftTest" where
  "demo_test = \<lparr>t_logs = [[1 \<mapsto> Some 7], [1 \<mapsto> Some 7], Map.empty], t_applyErr = [None, None, None], maxIndex = 1\<rparr>"

definition demo_round :: "nat one_round" where
  "demo_round = \<lparr>start_answers = [None, Some (1, True), Some (0, False)], or_polls = [demo_test]\<rparr>"

theorem one_reaches_agreement_witness:
  "raft_one 7 2 True False [demo_round] = Inr 1
   \<and> (\<exists>r \<in> set [demo_round]. Some (1, True) \<in> set (start_answers r)
      \<and> (\<exists>ts \<in> set (or_polls r). 2 \<le> int (length (committers 1 (Some 7) ts))
          \<and> committers 1 (Some 7) ts \<noteq> [] \<and> agrees (t_logs ts) 1 (Some 7)))"
proof
  show run: "raft_one 7 2 True False [demo_round] = Inr 1"
    by code_simp
  show "\<exists>r \<in> set [demo_round]. Some (1, True) \<in> set (start_answers r)
      \<and> (\<exists>ts \<in> set (or_polls r). 2 \<le> int (length (committers 1 (Some 7) ts))
          \<and> committers 1 (Some 7) ts \<noteq> [] \<and> agrees (t_logs ts) 1 (Some 7))"
    by (rule one_reaches_agreement [OF run]) (simp_all add: demo_round_def demo_test_def all_reported_def)
qed

theorem nCommitted_counts_accepted_witness:
  "\<exists>ts'. CheckLogs 2 (commandMsg 1 \<lparr>le_Term = 1, le_Command = Some 7\<rparr> :: (nat, nat) ApplyMsg) demo_test = Inr (ts', None, False)
     \<and> (\<exists>cmd. nCommitted 1 ts' = Inr (int (length (committers 1 cmd ts')), cmd) \<and> agrees (t_logs ts') 1 cmd)
     \<and> 0 < length (committers 1 (Some 7) ts')"
proof -
  let ?m = "commandMsg 1 \<lparr>le_Term = 1, le_Command = Some 7\<rparr> :: (nat, nat) ApplyMsg"
  let ?ts = "demo_test\<lparr>t_logs := [[1 \<mapsto> Some 7], [1 \<mapsto> Some 7], [1 \<mapsto> Some 7]]\<rparr>"
  have m: "am_CommandIndex ?m = 1" "am_Command ?m = Some 7" by (simp_all add: commandMsg_def)
  have ok: "CheckLogs 2 ?m demo_test = Inr (?ts, None, False)"
    by (simp add: CheckLogs_def Let_def m demo_test_def go_nth_def)
  have "agreeing demo_test"
    unfolding agreeing_def by (rule allI, rule exI [of _ "Some 7"]) (simp add: agrees_def demo_test_def)
  from nCommitted_counts_accepted [OF this ok, of 1]
  have "(\<exists>cmd. nCommitted 1 ?ts = Inr (int (length (committers 1 cmd ?ts)), cmd) \<and> agrees (t_logs ?ts) 1 cmd)
     \<and> 0 < length (committers 1 (Some 7) ?ts)"
    by (simp add: no_errors_def all_reported_def demo_test_def m)
  with ok show ?thesis by blast
qed

end
