(* ===== verification/KvStore.thy ===== *)
theory KvStore
  imports Prelude "HOL-Library.Char_ord" "HOL-Library.List_Lexorder"
begin

text \<open>
  The versioned key/value store: the RPC vocabulary of \<^verbatim>\<open>kvsrv1/rpc/rpc.go\<close>, the
  single-server store of \<^verbatim>\<open>kvsrv1/server.go\<close> and the sequential specification
  \<^verbatim>\<open>models1/kv.go\<close> that the linearizability checker runs.
\<close>

section \<open>RPC vocabulary\<close>

text \<open>
  \<^verbatim>\<open>type Err string\<close> with its six constants; \<open>ErrEmpty\<close> is the zero value (the empty
  string) that a fresh reply struct holds. \<^verbatim>\<open>Tversion\<close> is \<^verbatim>\<open>uint64\<close> and keeps its
  width: an increment wraps around.
\<close>

datatype Err = OK | ErrNoKey | ErrVersion | ErrMaybe | ErrWrongLeader | ErrWrongGroup | ErrEmpty

type_synonym Tversion = "64 word"

record VersionedValue =
  Value :: string
  Version :: Tversion

record PutArgs =
  pa_Key :: string
  pa_Value :: string
  pa_Version :: Tversion

record PutReply =
  pr_Err :: Err
  pr_LeaderHint :: int

record GetArgs =
  ga_Key :: string

record GetReply =
  gr_Value :: string
  gr_Version :: Tversion
  gr_Err :: Err
  gr_LeaderHint :: int

definition PutReply0 :: PutReply where
  "PutReply0 = \<lparr>pr_Err = ErrEmpty, pr_LeaderHint = 0\<rparr>"

definition GetReply0 :: GetReply where
  "GetReply0 = \<lparr>gr_Value = [], gr_Version = 0, gr_Err = ErrEmpty, gr_LeaderHint = 0\<rparr>"

section \<open>The single-server store\<close>

type_synonym kvtable = "string \<rightharpoonup> VersionedValue"

record KVServer =
  table :: kvtable

definition MakeKVServer :: KVServer where
  "MakeKVServer = \<lparr>table = Map.empty\<rparr>"

definition KVServer_Get :: "GetArgs \<Rightarrow> KVServer \<Rightarrow> GetReply" where
  "KVServer_Get args kv =
     (case table kv (ga_Key args) of
        Some vv \<Rightarrow> GetReply0\<lparr>gr_Err := OK, gr_Value := Value vv, gr_Version := Version vv\<rparr>
      | None \<Rightarrow> GetReply0\<lparr>gr_Err := ErrNoKey\<rparr>)"

definition KVServer_Put :: "PutArgs \<Rightarrow> KVServer \<Rightarrow> KVServer \<times> PutReply" where
  "KVServer_Put args kv =
     (case table kv (pa_Key args) of
        Some vv \<Rightarrow>
          (if Version vv = pa_Version args
           then (kv\<lparr>table := (table kv)(pa_Key args \<mapsto>
                     \<lparr>Value = pa_Value args, Version = pa_Version args + 1\<rparr>)\<rparr>,
                 PutReply0\<lparr>pr_Err := OK\<rparr>)
           else (kv, PutReply0\<lparr>pr_Err := ErrVersion\<rparr>))
      | None \<Rightarrow>
          (if pa_Version args = 0
           then (kv\<lparr>table := (table kv)(pa_Key args \<mapsto>
                     \<lparr>Value = pa_Value args, Version = 1\<rparr>)\<rparr>,
                 PutReply0\<lparr>pr_Err := OK\<rparr>)
           else (kv, PutReply0\<lparr>pr_Err := ErrNoKey\<rparr>)))"

section \<open>The interface a versioned store offers its clients\<close>

text \<open>
  The version a conditional write is compared with: an absent key counts as version 0.
\<close>

definition current_version :: "kvtable \<Rightarrow> string \<Rightarrow> Tversion" where
  "current_version t k = (case t k of None \<Rightarrow> 0 | Some vv \<Rightarrow> Version vv)"

text \<open>A sequence of Puts, each answered before the next one is made.\<close>

fun run_puts :: "(PutArgs \<Rightarrow> 's \<Rightarrow> 's \<times> PutReply) \<Rightarrow> 's \<Rightarrow> PutArgs list \<Rightarrow> 's \<times> PutReply list" where
  "run_puts put s [] = (s, [])"
| "run_puts put s (a # as) =
     (let (s', r) = put a s; (s'', rs) = run_puts put s' as in (s'', r # rs))"

text \<open>
  The contract: \<open>contents\<close> is the table the store holds, \<open>serves s k\<close> says that the
  store answers for key \<open>k\<close> (always, for the unsharded servers). A Put is a
  compare-and-set on the version and touches nothing but its key.
\<close>

locale versioned_store =
  fixes contents :: "'s \<Rightarrow> kvtable"
    and serves :: "'s \<Rightarrow> string \<Rightarrow> bool"
    and get_op :: "GetArgs \<Rightarrow> 's \<Rightarrow> GetReply"
    and put_op :: "PutArgs \<Rightarrow> 's \<Rightarrow> 's \<times> PutReply"
  assumes get_hit: "serves s (ga_Key g) \<Longrightarrow> contents s (ga_Key g) = Some vv \<Longrightarrow>
      get_op g s = GetReply0\<lparr>gr_Err := OK, gr_Value := Value vv, gr_Version := Version vv\<rparr>"
    and get_miss: "serves s (ga_Key g) \<Longrightarrow> contents s (ga_Key g) = None \<Longrightarrow>
      get_op g s = GetReply0\<lparr>gr_Err := ErrNoKey\<rparr>"
    and get_refused: "\<not> serves s (ga_Key g) \<Longrightarrow> get_op g s = GetReply0\<lparr>gr_Err := ErrWrongGroup\<rparr>"
    and put_accept: "serves s (pa_Key a) \<Longrightarrow>
      current_version (contents s) (pa_Key a) = pa_Version a \<Longrightarrow>
      contents (fst (put_op a s)) =
        (contents s)(pa_Key a \<mapsto> \<lparr>Value = pa_Value a, Version = pa_Version a + 1\<rparr>) \<and>
      snd (put_op a s) = PutReply0\<lparr>pr_Err := OK\<rparr>"
    and put_stale: "serves s (pa_Key a) \<Longrightarrow> contents s (pa_Key a) = Some vv \<Longrightarrow>
      Version vv \<noteq> pa_Version a \<Longrightarrow> put_op a s = (s, PutReply0\<lparr>pr_Err := ErrVersion\<rparr>)"
    and put_absent: "serves s (pa_Key a) \<Longrightarrow> contents s (pa_Key a) = None \<Longrightarrow>
      pa_Version a \<noteq> 0 \<Longrightarrow> put_op a s = (s, PutReply0\<lparr>pr_Err := ErrNoKey\<rparr>)"
    and put_refused: "\<not> serves s (pa_Key a) \<Longrightarrow> put_op a s = (s, PutReply0\<lparr>pr_Err := ErrWrongGroup\<rparr>)"
    and put_serves: "serves (fst (put_op a s)) = serves s"
begin

lemma put_cases:
  obtains (accept) "serves s (pa_Key a)" "current_version (contents s) (pa_Key a) = pa_Version a"
  | (stale) vv where "serves s (pa_Key a)" "contents s (pa_Key a) = Some vv" "Version vv \<noteq> pa_Version a"
  | (absent) "serves s (pa_Key a)" "contents s (pa_Key a) = None" "pa_Version a \<noteq> 0"
  | (refused) "\<not> serves s (pa_Key a)"
  by (cases "serves s (pa_Key a)"; cases "contents s (pa_Key a)")
     (auto simp: current_version_def split: option.splits)

lemma put_OK_iff:
  "pr_Err (snd (put_op a s)) = OK \<longleftrightarrow>
     serves s (pa_Key a) \<and> current_version (contents s) (pa_Key a) = pa_Version a"
  by (cases s a rule: put_cases)
     (auto simp: put_accept put_stale put_absent put_refused PutReply0_def current_version_def)

lemma put_not_OK: "pr_Err (snd (put_op a s)) \<noteq> OK \<Longrightarrow> fst (put_op a s) = s"
  by (cases s a rule: put_cases) (auto simp: put_accept put_stale put_absent put_refused)

lemma put_frame: "k \<noteq> pa_Key a \<Longrightarrow> contents (fst (put_op a s)) k = contents s k"
  by (cases "pr_Err (snd (put_op a s)) = OK") (auto simp: put_OK_iff put_accept put_not_OK)

lemma put_version:
  "current_version (contents (fst (put_op a s))) k =
     current_version (contents s) k +
       (if pr_Err (snd (put_op a s)) = OK \<and> pa_Key a = k then 1 else 0)"
  by (cases "pr_Err (snd (put_op a s)) = OK")
     (auto simp: put_OK_iff put_accept put_not_OK current_version_def)

text \<open>A successful Put found its version on the key, after as many successes as came before.\<close>

lemma run_puts_OK_version:
  assumes "run_puts put_op s as = (t, rs)" and "j < length as" and "pr_Err (rs ! j) = OK"
  shows "\<exists>c\<le>j. pa_Version (as ! j) = current_version (contents s) (pa_Key (as ! j)) + of_nat c"
  using assms
proof (induction as arbitrary: s t rs j)
  case Nil
  then show ?case by simp
next
  case (Cons a as)
  obtain s' r where p: "put_op a s = (s', r)" by (cases "put_op a s")
  obtain s'' rs' where q: "run_puts put_op s' as = (s'', rs')" by (cases "run_puts put_op s' as")
  with Cons.prems(1) p have rs: "rs = r # rs'" by simp
  show ?case
  proof (cases j)
    case 0
    with Cons.prems(3) rs p have "pr_Err (snd (put_op a s)) = OK" by simp
    then show ?thesis using 0 by (auto simp: put_OK_iff)
  next
    case (Suc i)
    with Cons.IH [OF q, of i] Cons.prems rs obtain c where
      "c \<le> i" "pa_Version (as ! i) = current_version (contents s') (pa_Key (as ! i)) + of_nat c"
      by auto
    moreover have "current_version (contents s') (pa_Key (as ! i)) =
        current_version (contents s) (pa_Key (as ! i)) + (if pr_Err r = OK \<and> pa_Key a = pa_Key (as ! i) then 1 else 0)"
      using put_version [of a s] p by simp
    ultimately show ?thesis using Suc
      by (intro exI [of _ "if pr_Err r = OK \<and> pa_Key a = pa_Key (as ! i) then Suc c else c"])
         (auto simp: algebra_simps)
  qed
qed

text \<open>
  The compare-and-set guarantee: of fewer than \<open>2 ^ 64\<close> Puts, no two that name the same
  key and the same version both succeed.
\<close>

lemma cas_unique:
  assumes "run_puts put_op s as = (t, rs)" and "length as < 2 ^ 64"
    and "i < j" and "j < length as" and "pa_Key (as ! i) = pa_Key (as ! j)"
    and "pr_Err (rs ! i) = OK" and "pr_Err (rs ! j) = OK"
  shows "pa_Version (as ! i) \<noteq> pa_Version (as ! j)"
  using assms
proof (induction as arbitrary: s t rs i j)
  case Nil
  then show ?case by simp
next
  case (Cons a as)
  obtain s' r where p: "put_op a s = (s', r)" by (cases "put_op a s")
  obtain s'' rs' where q: "run_puts put_op s' as = (s'', rs')" by (cases "run_puts put_op s' as")
  with Cons.prems(1) p have rs: "rs = r # rs'" by simp
  from Cons.prems(3) obtain j' where j: "j = Suc j'" by (cases j) auto
  show ?case
  proof (cases i)
    case 0
    with Cons.prems rs p have ok: "pr_Err (snd (put_op a s)) = OK" by simp
    from run_puts_OK_version [OF q, of j'] Cons.prems rs j obtain c where c: "c \<le> j'"
      "pa_Version (as ! j') = current_version (contents s') (pa_Key (as ! j')) + of_nat c" by auto
    have "current_version (contents s') (pa_Key (as ! j')) = pa_Version a + 1"
      using put_version [of a s "pa_Key (as ! j')"] put_OK_iff [of a s] ok p Cons.prems(5) 0 j
      by simp
    with c(2) have "pa_Version (as ! j') = pa_Version a + of_nat (Suc c)" by simp
    moreover have "(of_nat (Suc c) :: 64 word) \<noteq> 0"
      using c(1) Cons.prems(2,4) j by (simp add: word_of_nat_eq_0_iff del: of_nat_Suc) (auto dest: dvd_imp_le)
    ultimately show ?thesis using 0 j by auto
  next
    case (Suc i')
    with Cons.IH [OF q, of i' j'] Cons.prems rs j show ?thesis by simp
  qed
qed

end

interpretation kvsrv: versioned_store table "\<lambda>_ _. True" KVServer_Get KVServer_Put
  by unfold_locales
     (auto simp: KVServer_Get_def KVServer_Put_def current_version_def split: option.splits)

section \<open>The sequential specification of the linearizability checker\<close>

text \<open>
  \<^verbatim>\<open>models1/kv.go\<close>: the state of one key and the step that accepts or rejects one
  logged operation. \<^verbatim>\<open>Step\<close> returns the string \<^verbatim>\<open><invalid>\<close> as its state for an unknown
  operation code; that is \<open>None\<close> here.
\<close>

record KvInput =
  ki_Op :: "8 word"
  ki_Key :: string
  ki_Value :: string
  ki_Version :: Tversion

record KvOutput =
  ko_Value :: string
  ko_Version :: Tversion
  ko_Err :: Err

record KvState =
  ks_Value :: string
  ks_Version :: Tversion



definition KvModel_Step :: "KvState \<Rightarrow> KvInput \<Rightarrow> KvOutput \<Rightarrow> bool \<times> KvState option" where
  "KvModel_Step st inp out =
     (if ki_Op inp = 0 then (ko_Value out = ks_Value st, Some st)
      else if ki_Op inp = 1 then
        (if ks_Version st = ki_Version inp
         then (ko_Err out = OK \<or> ko_Err out = ErrMaybe,
               Some \<lparr>ks_Value = ki_Value inp, ks_Version = ks_Version st + 1\<rparr>)
         else (ko_Err out = ErrVersion \<or> ko_Err out = ErrMaybe, Some st))
      else (False, None))"




definition log_put :: "PutArgs \<Rightarrow> PutReply \<Rightarrow> KvInput \<times> KvOutput" where
  "log_put a r = (\<lparr>ki_Op = 1, ki_Key = pa_Key a, ki_Value = pa_Value a, ki_Version = pa_Version a\<rparr>,
                  \<lparr>ko_Value = [], ko_Version = 0, ko_Err = pr_Err r\<rparr>)"



definition key_state :: "KVServer \<Rightarrow> string \<Rightarrow> KvState" where
  "key_state kv k = (case table kv k of
       None \<Rightarrow> \<lparr>ks_Value = [], ks_Version = 0\<rparr>
     | Some vv \<Rightarrow> \<lparr>ks_Value = Value vv, ks_Version = Version vv\<rparr>)"







text \<open>
  The specification and the server disagree on a Put with a nonzero version to a key
  that does not exist: the server answers \<^verbatim>\<open>ErrNoKey\<close>, as its comment says, and
  \<^verbatim>\<open>KvModel.Step\<close> rejects exactly that answer.
\<close>

theorem KvModel_rejects_ErrNoKey:
  assumes "table kv (pa_Key a) = None" and "pa_Version a \<noteq> 0"
  shows "pr_Err (snd (KVServer_Put a kv)) = ErrNoKey \<and>
    fst (KvModel_Step (key_state kv (pa_Key a)) (fst (log_put a (snd (KVServer_Put a kv))))
          (snd (log_put a (snd (KVServer_Put a kv))))) = False"
  using assms
  by (auto simp: KVServer_Put_def KvModel_Step_def key_state_def log_put_def PutReply0_def)

theorem KvModel_rejects_ErrNoKey_witness:
  "let a = \<lparr>pa_Key = ''k'', pa_Value = ''v'', pa_Version = 7\<rparr>
   in pr_Err (snd (KVServer_Put a MakeKVServer)) = ErrNoKey \<and>
      fst (KvModel_Step (key_state MakeKVServer ''k'')
            (fst (log_put a (snd (KVServer_Put a MakeKVServer))))
            (snd (log_put a (snd (KVServer_Put a MakeKVServer))))) = False"
  using KvModel_rejects_ErrNoKey [of MakeKVServer "\<lparr>pa_Key = ''k'', pa_Value = ''v'', pa_Version = 7\<rparr>"]
  by (simp add: MakeKVServer_def Let_def)

text \<open>
  Compare-and-set on the server: among fewer than \<open>2 ^ 64\<close> Puts executed one after
  the other from any state, no two Puts that name the same key and the same version both
  return OK.
\<close>

theorem kvserver_put_once_per_version:
  assumes "run_puts KVServer_Put kv as = (kv', rs)" and "length as < 2 ^ 64"
    and "i < j" and "j < length as" and "pa_Key (as ! i) = pa_Key (as ! j)"
    and "pr_Err (rs ! i) = OK" and "pr_Err (rs ! j) = OK"
  shows "pa_Version (as ! i) \<noteq> pa_Version (as ! j)"
  using assms by (rule kvsrv.cas_unique)

theorem kvserver_put_once_per_version_witness:
  "let as = [\<lparr>pa_Key = ''k'', pa_Value = ''a'', pa_Version = 0\<rparr>,
             \<lparr>pa_Key = ''k'', pa_Value = ''b'', pa_Version = 1\<rparr>];
       rs = snd (run_puts KVServer_Put MakeKVServer as)
   in pr_Err (rs ! 0) = OK \<and> pr_Err (rs ! 1) = OK \<and> pa_Version (as ! 0) \<noteq> pa_Version (as ! 1)"
proof -
  let ?as = "[\<lparr>pa_Key = ''k'', pa_Value = ''a'', pa_Version = 0\<rparr>,
              \<lparr>pa_Key = ''k'', pa_Value = ''b'', pa_Version = 1\<rparr>] :: PutArgs list"
  let ?r = "run_puts KVServer_Put MakeKVServer ?as"
  have ok: "pr_Err (snd ?r ! 0) = OK" "pr_Err (snd ?r ! 1) = OK"
    by (simp_all add: KVServer_Put_def MakeKVServer_def PutReply0_def)
  have "pa_Version (?as ! 0) \<noteq> pa_Version (?as ! 1)"
    by (rule kvserver_put_once_per_version [of MakeKVServer ?as "fst ?r" "snd ?r"])
       (use ok in simp_all)
  with ok show ?thesis unfolding Let_def by blast
qed

end
