(* ===== verification/RsmLayer.thy ===== *)
theory RsmLayer
  imports RaftSteps KvStore "HOL-Library.AList"
begin

text \<open>
  The replicated state machine layer, \<^verbatim>\<open>kvraft1/rsm/rsm.go\<close>: it hands client requests to
  Raft (Submit), executes committed commands in log order (reader), takes and restores
  snapshots, and matches results with waiting Submits. The service below it is given by
  its \<^verbatim>\<open>StateMachine\<close> operations; this theory states their contract as a locale.
\<close>

section \<open>The contract of a replicated service\<close>

text \<open>
  \<^verbatim>\<open>DoOp\<close> may call \<^verbatim>\<open>log.Fatalf\<close> on a request of the wrong type. \<open>obs\<close> is the part of the
  service's state that a snapshot covers.
\<close>

fun run_ops :: "('q \<Rightarrow> 's \<Rightarrow> ('s \<times> 'r) go) \<Rightarrow> 'q list \<Rightarrow> 's \<Rightarrow> ('s \<times> 'r list) go" where
  "run_ops DoOp [] s = Inr (s, [])"
| "run_ops DoOp (q # qs) s =
     bind_go (DoOp q s) (\<lambda>(s1, r). bind_go (run_ops DoOp qs s1) (\<lambda>(s2, rs). Inr (s2, r # rs)))"

locale state_machine =
  fixes DoOp :: "'q \<Rightarrow> 's \<Rightarrow> ('s \<times> 'r) go"
    and Snap :: "'s \<Rightarrow> 'b list"
    and Restore :: "'b list \<Rightarrow> 's \<Rightarrow> 's go"
    and obs :: "'s \<Rightarrow> 'o"
  assumes restore_snap: "\<exists>t'. Restore (Snap s) t = Inr t' \<and> obs t' = obs s"
    and snap_nonempty: "Snap s \<noteq> []"
    and doop_obs: "obs s = obs t \<Longrightarrow> DoOp q s = Inr (s', r) \<Longrightarrow>
      \<exists>t'. DoOp q t = Inr (t', r) \<and> obs t' = obs s'"
begin

text \<open>Replicas in the same observable state answer alike and stay alike.\<close>

lemma run_ops_obs:
  assumes "obs s = obs t" and "run_ops DoOp qs s = Inr (s', rs)"
  shows "\<exists>t'. run_ops DoOp qs t = Inr (t', rs) \<and> obs t' = obs s'"
  using assms
proof (induction qs arbitrary: s t rs)
  case (Cons q qs)
  from Cons.prems(2) obtain s1 r rs1 where s1: "DoOp q s = Inr (s1, r)"
    "run_ops DoOp qs s1 = Inr (s', rs1)" "rs = r # rs1" by auto
  from doop_obs [OF Cons.prems(1) s1(1)] obtain t1 where "DoOp q t = Inr (t1, r)" "obs t1 = obs s1" by auto
  with Cons.IH [OF _ s1(2), of t1] s1(3) show ?case by auto
qed auto

lemma run_ops_append:
  "run_ops DoOp (xs @ ys) s =
     bind_go (run_ops DoOp xs s) (\<lambda>(s1, rs1). bind_go (run_ops DoOp ys s1) (\<lambda>(s2, rs2). Inr (s2, rs1 @ rs2)))"
proof (induction xs arbitrary: s)
  case Nil
  show ?case by (cases "run_ops DoOp ys s") auto
next
  case (Cons x xs)
  then show ?case
    by (cases "DoOp x s"; simp split: prod.split) (auto simp: bind_go_def split: sum.splits prod.splits)
qed

text \<open>
  A replica that starts from a snapshot taken after \<open>xs\<close> and executes the rest of the log
  gives the same answers as the replica that executed the whole log.
\<close>

lemma snapshot_then_suffix:
  assumes "run_ops DoOp (xs @ ys) s = Inr (s2, rs)" and "run_ops DoOp xs s = Inr (s1, rs1)"
  shows "\<exists>t1 t2. Restore (Snap s1) t = Inr t1 \<and> run_ops DoOp ys t1 = Inr (t2, drop (length rs1) rs) \<and>
    obs t2 = obs s2"
proof -
  obtain t1 where t1: "Restore (Snap s1) t = Inr t1" "obs t1 = obs s1" using restore_snap by blast
  from assms obtain rs2 where rs2: "run_ops DoOp ys s1 = Inr (s2, rs2)" "rs = rs1 @ rs2"
    by (auto simp: run_ops_append)
  from run_ops_obs [OF t1(2) [symmetric] rs2(1)] t1(1) rs2(2) show ?thesis by auto
qed

end

section \<open>State\<close>

record 'a Op =
  op_Id :: int
  op_Req :: 'a

text \<open>
  \<open>chans\<close> holds the buffered contents of the channels that Submit calls create
  (capacity 2); \<open>executed\<close> lists what \<^verbatim>\<open>reader\<close> has executed, for the statements only.
\<close>

record ('q, 'r, 's, 'b) RSM =
  rsm_me :: int
  rf :: "('q Op, 'b) Raft"
  maxraftstate :: int
  sm :: 's
  notify :: "(int \<times> nat) list"
  chans :: "nat \<Rightarrow> 'r option Op list"
  nchans :: nat
  executed :: "(int \<times> int \<times> 'q \<times> 'r) list"

text \<open>A Submit call that waits for its command.\<close>

record pending =
  pd_id :: int
  pd_logIndex :: int
  pd_term :: int
  pd_ch :: nat

datatype 'r submitted = WrongLeader int | Done 'r

section \<open>Operations\<close>

definition MakeRSM :: "('b list \<Rightarrow> int) \<Rightarrow> ('b list \<Rightarrow> 's \<Rightarrow> 's go) \<Rightarrow> clock \<Rightarrow> nat \<Rightarrow> int \<Rightarrow>
    ('q Op rgob, 'b) Persister \<Rightarrow> int \<Rightarrow> 's \<Rightarrow> ('q, 'r, 's, 'b) RSM go" where
  "MakeRSM nbytes Restore clk n i ps maxstate s =
     (let rsm = \<lparr>rsm_me = i, rf = Make clk n i ps, maxraftstate = maxstate, sm = s,
                 notify = [], chans = (\<lambda>_. []), nchans = 0, executed = []\<rparr>
      in if 0 < SnapshotSize nbytes ps
         then bind_go (Restore (ReadSnapshot ps) s) (\<lambda>s'. Inr (rsm\<lparr>sm := s'\<rparr>))
         else Inr rsm)"

definition send :: "nat \<Rightarrow> 'r option Op \<Rightarrow> ('q, 'r, 's, 'b) RSM \<Rightarrow> ('q, 'r, 's, 'b) RSM" where
  "send ch op rsm = rsm\<lparr>chans := (chans rsm)(ch := chans rsm ch @ [op])\<rparr>"

text \<open>The send in \<^verbatim>\<open>reader\<close> waits while the channel is full; the pass below is then not taken.\<close>

definition reader_blocked :: "('q Op, 'b) ApplyMsg \<Rightarrow> ('q, 'r, 's, 'b) RSM \<Rightarrow> bool" where
  "reader_blocked msg rsm \<longleftrightarrow> am_CommandValid msg \<and>
     (case map_of (notify rsm) (am_CommandIndex msg) of None \<Rightarrow> False | Some ch \<Rightarrow> 2 \<le> length (chans rsm ch))"

definition reader_command :: "('q Op rgob list \<Rightarrow> int) \<Rightarrow> ('q \<Rightarrow> 's \<Rightarrow> ('s \<times> 'r) go) \<Rightarrow> ('s \<Rightarrow> 'b list) \<Rightarrow>
    int \<Rightarrow> 'q Op \<Rightarrow> ('q, 'r, 's, 'b) RSM \<Rightarrow> ('q, 'r, 's, 'b) RSM go" where
  "reader_command nbytes DoOp Snap i op rsm0 =
     bind_go (DoOp (op_Req op) (sm rsm0)) (\<lambda>(s, res).
       let rsm1 = rsm0\<lparr>sm := s, executed := executed rsm0 @ [(i, op_Id op, op_Req op, res)]\<rparr>;
           rsm2 = (case map_of (notify rsm1) i of
                     None \<Rightarrow> rsm1
                   | Some ch \<Rightarrow> send ch \<lparr>op_Id = op_Id op, op_Req = Some res\<rparr> rsm1)
       in if 0 < maxraftstate rsm2 \<and> maxraftstate rsm2 < PersistBytes nbytes (rf rsm2)
          then bind_go (Snapshot i (Snap (sm rsm2)) (rf rsm2)) (\<lambda>r. Inr (rsm2\<lparr>rf := r\<rparr>))
          else Inr rsm2)"

definition reader :: "('q Op rgob list \<Rightarrow> int) \<Rightarrow> ('q \<Rightarrow> 's \<Rightarrow> ('s \<times> 'r) go) \<Rightarrow> ('s \<Rightarrow> 'b list) \<Rightarrow>
    ('b list \<Rightarrow> 's \<Rightarrow> 's go) \<Rightarrow> ('q Op, 'b) ApplyMsg \<Rightarrow> ('q, 'r, 's, 'b) RSM \<Rightarrow> ('q, 'r, 's, 'b) RSM go" where
  "reader nbytes DoOp Snap Restore msg rsm =
     (if am_CommandValid msg
      then (case am_Command msg of
              Some op \<Rightarrow> reader_command nbytes DoOp Snap (am_CommandIndex msg) op rsm
            | None \<Rightarrow> Inl (Fatal ''Convert Command to Op failed''))
      else if am_SnapshotValid msg
      then bind_go (Restore (am_Snapshot msg) (sm rsm)) (\<lambda>s. Inr (rsm\<lparr>sm := s\<rparr>))
      else Inl (Fatal ''ApplyMsg both not true''))"

text \<open>Submit up to the point where it waits: \<open>Inl\<close> when this peer is not the leader.\<close>

definition Submit :: "int \<Rightarrow> 'q \<Rightarrow> ('q, 'r, 's, 'b) RSM \<Rightarrow> ('q, 'r, 's, 'b) RSM \<times> (int + pending)" where
  "Submit i req rsm =
     (let op = \<lparr>op_Id = i, op_Req = req\<rparr>;
          (r, logIndex, t, isLeader) = Start op (rf rsm);
          rsm1 = rsm\<lparr>rf := r\<rparr>
      in if \<not> isLeader then (rsm1, Inl (GetLeader (rf rsm1)))
         else (rsm1\<lparr>notify := AList.update logIndex (nchans rsm1) (notify rsm1), nchans := nchans rsm1 + 1\<rparr>,
               Inr \<lparr>pd_id = i, pd_logIndex = logIndex, pd_term = t, pd_ch = nchans rsm1\<rparr>))"

text \<open>The non-blocking send of a poison pill.\<close>

definition pill :: "'r option Op" where
  "pill = \<lparr>op_Id = - 1, op_Req = None\<rparr>"

definition try_send :: "nat \<Rightarrow> 'r option Op \<Rightarrow> ('q, 'r, 's, 'b) RSM \<Rightarrow> ('q, 'r, 's, 'b) RSM" where
  "try_send ch op rsm = (if length (chans rsm ch) < 2 then send ch op rsm else rsm)"

definition send_pills :: "('q, 'r, 's, 'b) RSM \<Rightarrow> ('q, 'r, 's, 'b) RSM" where
  "send_pills rsm = fold (\<lambda>(_, ch). try_send ch pill) (notify rsm) rsm"

text \<open>
  Submit receives from its channel. A result is an \<open>Op\<close> whose \<^verbatim>\<open>Req\<close> field holds the reply
  (\<open>None\<close>, nil, only in a pill).
\<close>

definition Submit_receive :: "pending \<Rightarrow> ('q, 'r, 's, 'b) RSM \<Rightarrow>
    (('q, 'r, 's, 'b) RSM \<times> 'r option submitted) option" where
  "Submit_receive p rsm0 =
     (case chans rsm0 (pd_ch p) of
        [] \<Rightarrow> None
      | op # rest \<Rightarrow> Some (
          let rsm = rsm0\<lparr>chans := (chans rsm0)(pd_ch p := rest),
                         notify := AList.delete (pd_logIndex p) (notify rsm0)\<rparr>
          in if op_Id op = - 1 then (rsm, WrongLeader (GetLeader (rf rsm)))
             else if op_Id op \<noteq> pd_id p then (send_pills rsm, WrongLeader (GetLeader (rf rsm)))
             else (rsm, Done (op_Req op))))"

text \<open>Submit's 20 ms timer fires.\<close>

definition Submit_poll :: "pending \<Rightarrow> ('q, 'r, 's, 'b) RSM \<Rightarrow>
    (('q, 'r, 's, 'b) RSM \<times> 'r option submitted) option" where
  "Submit_poll p rsm =
     (let (curTerm, stillLeader) = GetState (rf rsm)
      in if \<not> stillLeader \<or> curTerm \<noteq> pd_term p
         then Some (rsm\<lparr>notify := AList.delete (pd_logIndex p) (notify rsm)\<rparr>, WrongLeader (GetLeader (rf rsm)))
         else None)"

section \<open>Steps of one server\<close>



text \<open>The same steps as a function, for concrete schedules.\<close>

datatype ('q, 'b) rsm_act =
    Read "('q Op, 'b) ApplyMsg" | SubmitCall int 'q | Receive pending | Poll pending
  | RaftEvent "('q Op, 'b) raft_event"

definition rsm_do :: "('q Op rgob list \<Rightarrow> int) \<Rightarrow> ('q \<Rightarrow> 's \<Rightarrow> ('s \<times> 'r) go) \<Rightarrow> ('s \<Rightarrow> 'b list) \<Rightarrow>
    ('b list \<Rightarrow> 's \<Rightarrow> 's go) \<Rightarrow> ('q, 'b) rsm_act \<Rightarrow> ('q, 'r, 's, 'b) RSM \<Rightarrow> ('q, 'r, 's, 'b) RSM option" where
  "rsm_do nbytes DoOp Snap Restore act rsm = (case act of
     Read msg \<Rightarrow> if reader_blocked msg rsm then None
       else (case reader nbytes DoOp Snap Restore msg rsm of Inl _ \<Rightarrow> None | Inr rsm' \<Rightarrow> Some rsm')
   | SubmitCall i q \<Rightarrow> if 0 \<le> i then Some (fst (Submit i q rsm)) else None
   | Receive p \<Rightarrow> map_option fst (Submit_receive p rsm)
   | Poll p \<Rightarrow> map_option fst (Submit_poll p rsm)
   | RaftEvent ev \<Rightarrow> (case peer_step ev (rf rsm) of Inl _ \<Rightarrow> None | Inr r \<Rightarrow> Some (rsm\<lparr>rf := r\<rparr>)))"

fun rsm_run :: "('q Op rgob list \<Rightarrow> int) \<Rightarrow> ('q \<Rightarrow> 's \<Rightarrow> ('s \<times> 'r) go) \<Rightarrow> ('s \<Rightarrow> 'b list) \<Rightarrow>
    ('b list \<Rightarrow> 's \<Rightarrow> 's go) \<Rightarrow> ('q, 'b) rsm_act list \<Rightarrow> ('q, 'r, 's, 'b) RSM \<Rightarrow> ('q, 'r, 's, 'b) RSM option" where
  "rsm_run nbytes DoOp Snap Restore [] rsm = Some rsm"
| "rsm_run nbytes DoOp Snap Restore (act # acts) rsm =
     (case rsm_do nbytes DoOp Snap Restore act rsm of
        None \<Rightarrow> None | Some rsm' \<Rightarrow> rsm_run nbytes DoOp Snap Restore acts rsm')"














section \<open>The counter service of the tests\<close>

text \<open>\<^verbatim>\<open>kvraft1/rsm/server.go\<close>: a counter with \<^verbatim>\<open>Inc\<close> and \<^verbatim>\<open>Null\<close>; \<^verbatim>\<open>Dec\<close> is a wrong type.\<close>

datatype counter_req = Inc | Null | Dec

datatype counter_rep = IncRep int | NullRep

record rsmSrv =
  rs_me :: int
  counter :: int

definition newRSMSrv :: "int \<Rightarrow> rsmSrv" where
  "newRSMSrv srv = \<lparr>rs_me = srv, counter = 0\<rparr>"

definition GetCounter :: "rsmSrv \<Rightarrow> int" where
  "GetCounter rs = counter rs"

definition rsmSrv_DoOp :: "counter_req \<Rightarrow> rsmSrv \<Rightarrow> (rsmSrv \<times> counter_rep) go" where
  "rsmSrv_DoOp req rs = (case req of
     Inc \<Rightarrow> (let rs1 = rs\<lparr>counter := counter rs + 1\<rparr> in Inr (rs1, IncRep (counter rs1)))
   | Null \<Rightarrow> Inr (rs, NullRep)
   | Dec \<Rightarrow> Inl (Fatal ''DoOp should execute only Inc''))"

definition rsmSrv_Snapshot :: "rsmSrv \<Rightarrow> int list" where
  "rsmSrv_Snapshot rs = [counter rs]"

definition rsmSrv_Restore :: "int list \<Rightarrow> rsmSrv \<Rightarrow> rsmSrv go" where
  "rsmSrv_Restore data rs = (case data of
     [] \<Rightarrow> Inl (Fatal ''could not decode counter'')
   | n # _ \<Rightarrow> Inr (rs\<lparr>counter := n\<rparr>))"

interpretation counter: state_machine rsmSrv_DoOp rsmSrv_Snapshot rsmSrv_Restore counter
  by unfold_locales
     (auto simp: rsmSrv_DoOp_def rsmSrv_Snapshot_def rsmSrv_Restore_def Let_def
       split: counter_req.splits)

text \<open>The counter service on a fresh Raft peer, and the states of one server that reach a lost Submit.\<close>

definition count_server :: "(counter_req, counter_rep, rsmSrv, int) RSM" where
  "count_server = projr (MakeRSM (\<lambda>b. int (length b)) rsmSrv_Restore demo_clock 3 0 MakePersister (- 1) (newRSMSrv 0))"

section \<open>Guarantees of Submit\<close>


text \<open>The schedules of the demonstration: peer 0 of three runs the counter service.\<close>

definition count_run :: "(counter_req, int) rsm_act list \<Rightarrow> (counter_req, counter_rep, rsmSrv, int) RSM option" where
  "count_run acts = rsm_run (\<lambda>b. int (length b)) rsmSrv_DoOp rsmSrv_Snapshot rsmSrv_Restore acts count_server"

definition elected :: "int \<Rightarrow> (counter_req, int) rsm_act list" where
  "elected t = [RaftEvent (TickerPass \<lparr>now = 1000 * t, rnd = 1\<rparr>),
     RaftEvent (VoteReply \<lparr>now = 1000 * t, rnd = 1\<rparr> (\<lambda>_. Some \<lparr>rvr_Term = t, rvr_VoteGranted = True\<rparr>)
        \<lparr>rv_Term = t, rv_CandidateId = 0, rv_LastLogIndex = 0, rv_LastLogTerm = 0\<rparr>)]"

definition applied :: "int \<Rightarrow> int \<Rightarrow> (counter_req, int) rsm_act" where
  "applied i j = Read (commandMsg i \<lparr>le_Term = 1, le_Command = Some \<lparr>op_Id = j, op_Req = Inc\<rparr>\<rparr>)"




text \<open>
  A stale Submit can orphan a newer one. A leader has two Submits waiting at
  indices 1 and 2; another leader overwrites its log from index 1 on; the server is elected
  again and a new Submit gets index 2 of the new term. Only now the timer of the old Submit
  for index 2 fires, and it deletes the new Submit's entry in \<^verbatim>\<open>notify\<close>. When the new command
  is executed nobody is told: the Submit finds its channel empty, and the timer branch does
  not end it while the server stays leader in that term.
\<close>

theorem stale_Submit_orphans_new_one:
  "let old = \<lparr>pd_id = 6, pd_logIndex = 2, pd_term = 1, pd_ch = 1\<rparr>;
       new = \<lparr>pd_id = 7, pd_logIndex = 2, pd_term = 3, pd_ch = 2\<rparr>;
       overwrite = RaftEvent (RecvAppendEntries demo_clock
         \<lparr>ae_Term = 2, ae_LeaderID = 1, ae_PrevLogIndex = 0, ae_PrevLogTerm = 0,
          ae_Entries = [\<lparr>le_Term = 2, le_Command = Some \<lparr>op_Id = 9, op_Req = Inc\<rparr>\<rparr>], ae_LeaderCommit = 0\<rparr>);
       before = the (count_run (elected 1 @ [SubmitCall 5 Inc, SubmitCall 6 Inc, overwrite] @ elected 3));
       rsm = the (count_run (elected 1 @ [SubmitCall 5 Inc, SubmitCall 6 Inc, overwrite] @ elected 3 @
               [SubmitCall 7 Inc, Poll old, applied 1 9, applied 2 7]))
   in snd (Submit 7 Inc before) = Inr new \<and>
      executed rsm = [(1, 9, Inc, IncRep 1), (2, 7, Inc, IncRep 2)] \<and>
      GetState (rf rsm) = (3, True) \<and>
      Option.is_none (Submit_receive new rsm) \<and> Option.is_none (Submit_poll new rsm)"
  by code_simp

end
