(* ===== verification/KvRaft.thy ===== *)
theory KvRaft
  imports RsmLayer
begin

text \<open>
  The replicated key/value server \<^verbatim>\<open>kvraft1/server.go\<close>: its state machine (DoOp, Snapshot,
  Restore), which instantiates both the contract of a replicated service and the contract
  of a versioned store, and the RPC handlers that go through Submit.
\<close>

section \<open>The state machine\<close>

text \<open>\<^verbatim>\<open>any\<close> requests and replies: the two request types, and everything else.\<close>

datatype kv_any = AGet GetArgs | APut PutArgs | AOther

datatype kv_rep = RGet GetReply | RPut PutReply | RLeader int

text \<open>What the snapshot encoder writes: the table.\<close>

datatype kv_gob = GTable kvtable | GJunk

record KVRaftServer =
  kvr_me :: int
  kvr_table :: kvtable

definition StartKVServer :: "int \<Rightarrow> KVRaftServer" where
  "StartKVServer i = \<lparr>kvr_me = i, kvr_table = Map.empty\<rparr>"

definition kvraft_get :: "GetArgs \<Rightarrow> KVRaftServer \<Rightarrow> GetReply" where
  "kvraft_get args kv =
     (case kvr_table kv (ga_Key args) of
        Some vv \<Rightarrow> GetReply0\<lparr>gr_Value := Value vv, gr_Version := Version vv, gr_Err := OK\<rparr>
      | None \<Rightarrow> GetReply0\<lparr>gr_Err := ErrNoKey\<rparr>)"

definition kvraft_put :: "PutArgs \<Rightarrow> KVRaftServer \<Rightarrow> KVRaftServer \<times> PutReply" where
  "kvraft_put args kv =
     (let key = pa_Key args in
      case kvr_table kv key of
        Some vv \<Rightarrow>
          (if Version vv = pa_Version args
           then (kv\<lparr>kvr_table := (kvr_table kv)(key \<mapsto>
                     \<lparr>Value = pa_Value args, Version = pa_Version args + 1\<rparr>)\<rparr>,
                 PutReply0\<lparr>pr_Err := OK\<rparr>)
           else (kv, PutReply0\<lparr>pr_Err := ErrVersion\<rparr>))
      | None \<Rightarrow>
          (if pa_Version args = 0
           then (kv\<lparr>kvr_table := (kvr_table kv)(key \<mapsto>
                     \<lparr>Value = pa_Value args, Version = 1\<rparr>)\<rparr>,
                 PutReply0\<lparr>pr_Err := OK\<rparr>)
           else (kv, PutReply0\<lparr>pr_Err := ErrNoKey\<rparr>)))"

definition kvraft_DoOp :: "kv_any \<Rightarrow> KVRaftServer \<Rightarrow> (KVRaftServer \<times> kv_rep) go" where
  "kvraft_DoOp req kv = (case req of
     AGet args \<Rightarrow> Inr (kv, RGet (kvraft_get args kv))
   | APut args \<Rightarrow> (let (kv', r) = kvraft_put args kv in Inr (kv', RPut r))
   | AOther \<Rightarrow> Inl (Fatal ''KVServer.DoOp: req is neither GET nor PUT''))"

definition kvraft_Snapshot :: "KVRaftServer \<Rightarrow> kv_gob list" where
  "kvraft_Snapshot kv = [GTable (kvr_table kv)]"

definition kvraft_Restore :: "kv_gob list \<Rightarrow> KVRaftServer \<Rightarrow> KVRaftServer go" where
  "kvraft_Restore data kv = (case data of
     GTable t # _ \<Rightarrow> Inr (kv\<lparr>kvr_table := t\<rparr>)
   | _ \<Rightarrow> Inr kv)"

interpretation kvr: versioned_store kvr_table "\<lambda>_ _. True" kvraft_get kvraft_put
  by unfold_locales
     (auto simp: kvraft_get_def kvraft_put_def current_version_def Let_def split: option.splits)

interpretation kvr_sm: state_machine kvraft_DoOp kvraft_Snapshot kvraft_Restore kvr_table
proof unfold_locales
  fix s t :: KVRaftServer and q s' r
  assume eq: "kvr_table s = kvr_table t" and d: "kvraft_DoOp q s = Inr (s', r)"
  show "\<exists>t'. kvraft_DoOp q t = Inr (t', r) \<and> kvr_table t' = kvr_table s'"
    using d eq by (cases q) (auto simp: kvraft_DoOp_def kvraft_get_def kvraft_put_def Let_def
        split: option.splits if_splits prod.splits)
qed (auto simp: kvraft_Snapshot_def kvraft_Restore_def)

section \<open>The RPC handlers\<close>

text \<open>
  Get and Put answer with what Submit returned. Submit's second result is the leader hint
  next to \<^verbatim>\<open>ErrWrongLeader\<close> and the reply of \<^verbatim>\<open>DoOp\<close> next to \<^verbatim>\<open>OK\<close>.
\<close>

definition kvraft_Get :: "kv_rep option submitted \<Rightarrow> GetReply go" where
  "kvraft_Get res = (case res of
     WrongLeader hint \<Rightarrow> Inr (GetReply0\<lparr>gr_Err := ErrWrongLeader, gr_LeaderHint := hint\<rparr>)
   | Done (Some (RGet r)) \<Rightarrow> Inr r
   | Done _ \<Rightarrow> Inl (Fatal ''a GET req get a reply is not GetReply''))"

definition kvraft_Put :: "kv_rep option submitted \<Rightarrow> PutReply go" where
  "kvraft_Put res = (case res of
     WrongLeader hint \<Rightarrow> Inr (PutReply0\<lparr>pr_Err := ErrWrongLeader, pr_LeaderHint := hint\<rparr>)
   | Done (Some (RPut r)) \<Rightarrow> Inr r
   | Done _ \<Rightarrow> Inl (Fatal ''a PUT req get a reply is not PutReply''))"

text \<open>
  A request of the wrong kind never makes a handler fail: the reply that Submit hands back
  is the reply of the command with the submitted identifier.
\<close>

lemma DoOp_reply_kind:
  "kvraft_DoOp (AGet g) kv = Inr (kv', r) \<Longrightarrow> \<exists>x. r = RGet x"
  "kvraft_DoOp (APut a) kv = Inr (kv', r) \<Longrightarrow> \<exists>x. r = RPut x"
  by (auto simp: kvraft_DoOp_def split: prod.splits)

section \<open>The replicated log against the sequential specification\<close>










text \<open>
  C13: Snapshots are transparent: a replica in any state that restores the snapshot which
  another replica took after executing \<open>xs\<close>, and then executes the rest \<open>ys\<close> of the log,
  gives the same replies for \<open>ys\<close> and ends with the same table as the replica that executed
  the whole log.
\<close>

theorem kvraft_snapshot_transparent:
  assumes "run_ops kvraft_DoOp (xs @ ys) kv = Inr (kv2, rs)" and "run_ops kvraft_DoOp xs kv = Inr (kv1, rs1)"
  shows "\<exists>t1 t2. kvraft_Restore (kvraft_Snapshot kv1) other = Inr t1 \<and>
    run_ops kvraft_DoOp ys t1 = Inr (t2, drop (length rs1) rs) \<and> kvr_table t2 = kvr_table kv2"
  using assms by (rule kvr_sm.snapshot_then_suffix)

theorem kvraft_snapshot_transparent_witness:
  "let xs = [APut \<lparr>pa_Key = ''k'', pa_Value = ''a'', pa_Version = 0\<rparr>]; ys = [AGet \<lparr>ga_Key = ''k''\<rparr>];
       full = run_ops kvraft_DoOp (xs @ ys) (StartKVServer 0);
       half = run_ops kvraft_DoOp xs (StartKVServer 0)
   in \<exists>t1 t2. kvraft_Restore (kvraft_Snapshot (fst (projr half))) (StartKVServer 1) = Inr t1 \<and>
        run_ops kvraft_DoOp ys t1 = Inr (t2, [RGet (GetReply0\<lparr>gr_Value := ''a'', gr_Version := 1, gr_Err := OK\<rparr>)])"
proof -
  let ?xs = "[APut \<lparr>pa_Key = ''k'', pa_Value = ''a'', pa_Version = 0\<rparr>]"
  let ?ys = "[AGet \<lparr>ga_Key = ''k''\<rparr>]"
  let ?full = "run_ops kvraft_DoOp (?xs @ ?ys) (StartKVServer 0)"
  let ?half = "run_ops kvraft_DoOp ?xs (StartKVServer 0)"
  note ev = kvraft_DoOp_def kvraft_put_def kvraft_get_def StartKVServer_def
  have f: "returns ?full" and h: "returns ?half"
    and d: "drop (length (snd (projr ?half))) (snd (projr ?full)) =
      [RGet (GetReply0\<lparr>gr_Value := ''a'', gr_Version := 1, gr_Err := OK\<rparr>)]"
    by (simp_all add: ev)
  from kvraft_snapshot_transparent [OF returns_pair [OF f] returns_pair [OF h], of "StartKVServer 1"]
  show ?thesis unfolding d Let_def by blast
qed

end
