(* ===== verification/KvClerk.thy ===== *)
theory KvClerk
  imports KvRaft
begin

text \<open>
  The clerks, \<^verbatim>\<open>kvsrv1/client.go\<close> and \<^verbatim>\<open>kvraft1/client.go\<close>: retry loops over calls that may be
  lost. The environment of a loop is the list of its rounds: which Puts of other clients
  the store executes before the call, and what happens to the call. A loop returns \<open>None\<close>
  as its answer when the list ends before the clerk stops. Every loop also counts how
  often the clerk's own request succeeded at the store; the count is for the statements.
\<close>

section \<open>Calls\<close>

datatype outcome = RequestLost | ReplyLost | Delivered

type_synonym rnd_put = "PutArgs list \<times> outcome"

definition call_put :: "(PutArgs \<Rightarrow> 's \<Rightarrow> 's \<times> PutReply) \<Rightarrow> PutArgs \<Rightarrow> rnd_put \<Rightarrow> 's \<times> nat \<Rightarrow>
    ('s \<times> nat) \<times> PutReply option" where
  "call_put put a rd sn =
     (let s1 = fst (run_puts put (fst sn) (fst rd)); (s2, r) = put a s1;
          n = (if pr_Err r = OK then snd sn + 1 else snd sn)
      in case snd rd of
           RequestLost \<Rightarrow> ((s1, snd sn), None)
         | ReplyLost \<Rightarrow> ((s2, n), None)
         | Delivered \<Rightarrow> ((s2, n), Some r))"

section \<open>The single-server clerk\<close>

fun Clerk_resend :: "(PutArgs \<Rightarrow> 's \<Rightarrow> 's \<times> PutReply) \<Rightarrow> PutArgs \<Rightarrow> rnd_put list \<Rightarrow> 's \<times> nat \<Rightarrow>
    (('s \<times> nat) \<times> Err option) go" where
  "Clerk_resend put a [] sn = Inr (sn, None)"
| "Clerk_resend put a (rd # env) sn =
     (case call_put put a rd sn of
        (sn', None) \<Rightarrow> Clerk_resend put a env sn'
      | (sn', Some reply) \<Rightarrow>
          (case pr_Err reply of
             OK \<Rightarrow> Inr (sn', Some OK)
           | ErrVersion \<Rightarrow> Inr (sn', Some ErrMaybe)
           | ErrNoKey \<Rightarrow> Inr (sn', Some ErrNoKey)
           | _ \<Rightarrow> Inl (Fatal ''cline Put: unknown reply type'')))"

fun Clerk_Put :: "(PutArgs \<Rightarrow> 's \<Rightarrow> 's \<times> PutReply) \<Rightarrow> PutArgs \<Rightarrow> rnd_put list \<Rightarrow> 's \<Rightarrow>
    (('s \<times> nat) \<times> Err option) go" where
  "Clerk_Put put a [] s = Inr ((s, 0), None)"
| "Clerk_Put put a (rd # env) s =
     (case call_put put a rd (s, 0) of
        (sn', None) \<Rightarrow> Clerk_resend put a env sn'
      | (sn', Some reply) \<Rightarrow>
          (case pr_Err reply of
             OK \<Rightarrow> Inr (sn', Some OK)
           | ErrVersion \<Rightarrow> Inr (sn', Some ErrVersion)
           | ErrNoKey \<Rightarrow> Inr (sn', Some ErrNoKey)
           | _ \<Rightarrow> Inl (Fatal ''cline Put: unknown reply type'')))"

fun Clerk_Get :: "(PutArgs \<Rightarrow> 's \<Rightarrow> 's \<times> PutReply) \<Rightarrow> (GetArgs \<Rightarrow> 's \<Rightarrow> GetReply) \<Rightarrow> GetArgs \<Rightarrow>
    rnd_put list \<Rightarrow> 's \<Rightarrow> 's \<times> (string \<times> Tversion \<times> Err) option" where
  "Clerk_Get put get g [] s = (s, None)"
| "Clerk_Get put get g ((os, out) # env) s =
     (let s1 = fst (run_puts put s os); reply = get g s1 in
      if out = Delivered
      then (case gr_Err reply of
              OK \<Rightarrow> (s1, Some (gr_Value reply, gr_Version reply, OK))
            | ErrNoKey \<Rightarrow> (s1, Some ([], 0, ErrNoKey))
            | _ \<Rightarrow> Clerk_Get put get g env s1)
      else Clerk_Get put get g env s1)"

section \<open>The replicated clerk\<close>

record Clerk =
  ck_nservers :: nat
  ck_leader :: int

definition MakeClerk :: "nat \<Rightarrow> Clerk" where
  "MakeClerk n = \<lparr>ck_nservers = n, ck_leader = 0\<rparr>"

definition Clerk_Leader :: "Clerk \<Rightarrow> int" where
  "Clerk_Leader ck = ck_leader ck"

text \<open>
  What can happen to a call on a replicated server: no answer, the answer
  \<^verbatim>\<open>ErrWrongLeader\<close> with a hint, or the state machine's answer. In the first two cases the
  command may or may not have entered the log and been executed (Submit gives up as soon as
  the server is no longer leader, while the entry may still commit). \<open>rc_draw\<close> is the draw
  of \<^verbatim>\<open>rand.Intn\<close>.
\<close>

datatype raft_outcome = NoAnswer bool | NotLeader int bool | Answered

record raft_call =
  rc_others :: "PutArgs list"
  rc_outcome :: raft_outcome
  rc_draw :: nat

text \<open>Gob does not transmit zero fields, so decoding into a used struct keeps its old fields.\<close>

definition decode_PutReply :: "PutReply \<Rightarrow> PutReply \<Rightarrow> PutReply" where
  "decode_PutReply old new =
     \<lparr>pr_Err = (if pr_Err new = ErrEmpty then pr_Err old else pr_Err new),
      pr_LeaderHint = (if pr_LeaderHint new = 0 then pr_LeaderHint old else pr_LeaderHint new)\<rparr>"

definition random_server :: "nat \<Rightarrow> Clerk \<Rightarrow> Clerk" where
  "random_server d ck = ck\<lparr>ck_leader := int (d mod ck_nservers ck)\<rparr>"

definition follow_hint :: "int \<Rightarrow> nat \<Rightarrow> Clerk \<Rightarrow> Clerk" where
  "follow_hint hint d ck = (if hint < 0 then random_server d ck else ck\<lparr>ck_leader := hint\<rparr>)"

fun raft_Clerk_Put :: "(PutArgs \<Rightarrow> 's \<Rightarrow> 's \<times> PutReply) \<Rightarrow> PutArgs \<Rightarrow> raft_call list \<Rightarrow> PutReply \<Rightarrow> nat \<Rightarrow>
    Clerk \<Rightarrow> 's \<times> nat \<Rightarrow> (Clerk \<times> ('s \<times> nat) \<times> Err option) go" where
  "raft_Clerk_Put put a [] reply rpcTimes ck sn = Inr (ck, sn, None)"
| "raft_Clerk_Put put a (rc # env) reply rpcTimes ck sn =
     (if \<not> (0 \<le> ck_leader ck \<and> ck_leader ck < int (ck_nservers ck))
      then Inl (Panic ''index out of range'')
      else
        let s1 = fst (run_puts put (fst sn) (rc_others rc)); (s2, r) = put a s1;
            done = (s2, if pr_Err r = OK then snd sn + 1 else snd sn);
            skip = (s1, snd sn) in
        case rc_outcome rc of
          NoAnswer ex \<Rightarrow>
            raft_Clerk_Put put a env reply (rpcTimes + 1) (random_server (rc_draw rc) ck) (if ex then done else skip)
        | NotLeader hint ex \<Rightarrow>
            (let reply' = decode_PutReply reply (PutReply0\<lparr>pr_Err := ErrWrongLeader, pr_LeaderHint := hint\<rparr>)
             in raft_Clerk_Put put a env reply' rpcTimes
                  (follow_hint (pr_LeaderHint reply') (rc_draw rc) ck) (if ex then done else skip))
        | Answered \<Rightarrow>
            (case pr_Err (decode_PutReply reply r) of
               OK \<Rightarrow> Inr (ck, done, Some OK)
             | ErrVersion \<Rightarrow> Inr (ck, done, Some (if rpcTimes = 0 then ErrVersion else ErrMaybe))
             | ErrNoKey \<Rightarrow> Inr (ck, done, Some ErrNoKey)
             | _ \<Rightarrow> Inl (Fatal ''cline Put: unknown reply type'')))"

fun raft_Clerk_Get :: "(PutArgs \<Rightarrow> 's \<Rightarrow> 's \<times> PutReply) \<Rightarrow> (GetArgs \<Rightarrow> 's \<Rightarrow> GetReply) \<Rightarrow> GetArgs \<Rightarrow>
    raft_call list \<Rightarrow> Clerk \<Rightarrow> 's \<Rightarrow> (Clerk \<times> 's \<times> (string \<times> Tversion \<times> Err) option) go" where
  "raft_Clerk_Get put get g [] ck s = Inr (ck, s, None)"
| "raft_Clerk_Get put get g (rc # env) ck s =
     (if \<not> (0 \<le> ck_leader ck \<and> ck_leader ck < int (ck_nservers ck))
      then Inl (Panic ''index out of range'')
      else
        let s1 = fst (run_puts put s (rc_others rc)); reply = get g s1 in
        case rc_outcome rc of
          NoAnswer _ \<Rightarrow> raft_Clerk_Get put get g env (random_server (rc_draw rc) ck) s1
        | NotLeader hint _ \<Rightarrow> raft_Clerk_Get put get g env (follow_hint hint (rc_draw rc) ck) s1
        | Answered \<Rightarrow>
            (case gr_Err reply of
               OK \<Rightarrow> Inr (ck, s1, Some (gr_Value reply, gr_Version reply, OK))
             | ErrNoKey \<Rightarrow> Inr (ck, s1, Some ([], 0, ErrNoKey))
             | _ \<Rightarrow> raft_Clerk_Get put get g env ck s1))"

text \<open>
  An \<^verbatim>\<open>ErrWrongLeader\<close> answer that means what it says: the command is not executed, and the
  hint is a server of the group or negative.
\<close>

definition honest_call :: "nat \<Rightarrow> raft_call \<Rightarrow> bool" where
  "honest_call n rc = (case rc_outcome rc of NotLeader hint ex \<Rightarrow> \<not> ex \<and> hint < int n | _ \<Rightarrow> True)"

text \<open>How many Puts of other clients a loop sees, and how many rounds it has.\<close>

definition put_traffic :: "rnd_put list \<Rightarrow> nat" where
  "put_traffic env = sum_list (map (\<lambda>rd. Suc (length (fst rd))) env)"

definition raft_traffic :: "raft_call list \<Rightarrow> nat" where
  "raft_traffic env = sum_list (map (\<lambda>rc. Suc (length (rc_others rc))) env)"

section \<open>At most one success per request\<close>

lemma call_put_None: "call_put put a rd sn = (sn', None) \<Longrightarrow> snd rd \<noteq> Delivered"
  by (auto simp: call_put_def Let_def split: prod.splits)

context versioned_store
begin

lemma run_puts_version:
  "\<exists>c \<le> length as. current_version (contents (fst (run_puts put_op s as))) k =
     current_version (contents s) k + of_nat c"
proof (induction as arbitrary: s)
  case (Cons a as)
  obtain s' r where p: "put_op a s = (s', r)" by (cases "put_op a s")
  from Cons.IH [of s'] obtain c where c: "c \<le> length as"
    "current_version (contents (fst (run_puts put_op s' as))) k = current_version (contents s') k + of_nat c"
    by auto
  let ?d = "if pr_Err r = OK \<and> pa_Key a = k then Suc c else c"
  have "current_version (contents s') k = current_version (contents s) k + (if pr_Err r = OK \<and> pa_Key a = k then 1 else 0)"
    using put_version [of a s k] p by simp
  with c p show ?case by (intro exI [of _ ?d]) (auto split: prod.splits)
qed auto

lemma put_keeps_key:
  assumes "contents s k \<noteq> None"
  shows "contents (fst (put_op a s)) k \<noteq> None"
  using assms put_frame [of k a s] put_not_OK [of a s] put_OK_iff [of a s] put_accept [of s a]
  by (cases "pr_Err (snd (put_op a s)) = OK"; cases "k = pa_Key a") auto

lemma run_puts_keeps_key:
  assumes "contents s k \<noteq> None"
  shows "contents (fst (run_puts put_op s as)) k \<noteq> None"
  using assms
proof (induction as arbitrary: s)
  case (Cons a as)
  obtain s' r where p: "put_op a s = (s', r)" by (cases "put_op a s")
  with put_keeps_key [OF Cons.prems, of a] have "contents s' k \<noteq> None" by simp
  with Cons.IH [of s'] p show ?case by (simp add: split_beta)
qed simp

text \<open>
  The state of a clerk that sends \<open>a\<close>: it has not succeeded yet, or it succeeded once and
  the key has moved past the version of the request, by at most \<open>u\<close> successes.
\<close>

definition sending :: "PutArgs \<Rightarrow> nat \<Rightarrow> 's \<times> nat \<Rightarrow> bool" where
  "sending a u sn \<longleftrightarrow> snd sn = 0 \<or>
     snd sn = 1 \<and> contents (fst sn) (pa_Key a) \<noteq> None \<and>
     (\<exists>c. 1 \<le> c \<and> c \<le> u \<and> current_version (contents (fst sn)) (pa_Key a) = pa_Version a + of_nat c)"

lemma sending_others:
  assumes "sending a u sn"
  shows "sending a (u + length as) (fst (run_puts put_op (fst sn) as), snd sn)"
proof (cases "snd sn = 0")
  case False
  with assms obtain c where c: "snd sn = 1" "contents (fst sn) (pa_Key a) \<noteq> None" "1 \<le> c" "c \<le> u"
    "current_version (contents (fst sn)) (pa_Key a) = pa_Version a + of_nat c" by (auto simp: sending_def)
  obtain d where "d \<le> length as" "current_version (contents (fst (run_puts put_op (fst sn) as))) (pa_Key a) =
      current_version (contents (fst sn)) (pa_Key a) + of_nat d"
    using run_puts_version by blast
  with c run_puts_keeps_key [OF c(2), of as] show ?thesis
    by (auto simp: sending_def intro!: exI [of _ "c + d"])
qed (simp add: sending_def)

lemma sending_put:
  assumes "sending a u sn" and "u < 2 ^ 64" and "\<And>s. serves s (pa_Key a)"
    and "put_op a (fst sn) = (s', r)"
  shows "sending a (u + 1) (s', if pr_Err r = OK then snd sn + 1 else snd sn)"
    and "pr_Err r = OK \<Longrightarrow> snd sn = 0"
    and "snd sn = 1 \<Longrightarrow> pr_Err r = ErrVersion"
    and "pr_Err r \<in> {OK, ErrVersion, ErrNoKey}"
proof -
  have r: "pr_Err r = OK \<longleftrightarrow> current_version (contents (fst sn)) (pa_Key a) = pa_Version a"
    using put_OK_iff [of a "fst sn"] assms(3,4) by simp
  have past: "current_version (contents (fst sn)) (pa_Key a) \<noteq> pa_Version a" if "snd sn = 1"
  proof -
    from that assms(1) obtain c where c: "1 \<le> c" "c \<le> u"
      "current_version (contents (fst sn)) (pa_Key a) = pa_Version a + of_nat c" by (auto simp: sending_def)
    then have "(of_nat c :: 64 word) \<noteq> 0"
      using assms(2) by (auto simp: word_of_nat_eq_0_iff dest: dvd_imp_le)
    with c(3) show ?thesis by simp
  qed
  have n: "snd sn = 0 \<or> snd sn = 1" using assms(1) by (auto simp: sending_def)
  show zero: "snd sn = 0" if "pr_Err r = OK" using that r past n by auto
  show "pr_Err r = ErrVersion" if one: "snd sn = 1"
  proof -
    obtain vv where "contents (fst sn) (pa_Key a) = Some vv"
      using one assms(1) by (auto simp: sending_def)
    with past [OF one] show ?thesis
      using put_stale [of "fst sn" a vv] assms(3,4) by (simp add: current_version_def PutReply0_def)
  qed
  show "pr_Err r \<in> {OK, ErrVersion, ErrNoKey}"
    using assms(3,4) by (cases "fst sn" a rule: put_cases)
      (auto simp: put_stale put_absent PutReply0_def r)
  show "sending a (u + 1) (s', if pr_Err r = OK then snd sn + 1 else snd sn)"
  proof (cases "pr_Err r = OK")
    case True
    have acc: "contents s' = (contents (fst sn))(pa_Key a \<mapsto> \<lparr>Value = pa_Value a, Version = pa_Version a + 1\<rparr>)"
      using put_accept [of "fst sn" a] r True assms(3,4) by simp
    then show ?thesis using True zero
      by (auto simp: sending_def current_version_def intro!: exI [of _ 1])
  next
    case False
    then have "s' = fst sn" using put_not_OK [of a "fst sn"] assms(4) by simp
    with assms(1) False show ?thesis by (auto simp: sending_def intro: le_SucI)
  qed
qed

lemma sending_call:
  assumes "sending a u sn" and "u + length (fst rd) < 2 ^ 64" and "\<And>s. serves s (pa_Key a)"
    and "call_put put_op a rd sn = (sn', r)"
  shows "sending a (u + Suc (length (fst rd))) sn'"
    and "r = Some reply \<Longrightarrow> pr_Err reply \<in> {OK, ErrVersion, ErrNoKey}"
    and "r = Some reply \<Longrightarrow> pr_Err reply = OK \<Longrightarrow> snd sn' = 1"
    and "r = Some reply \<Longrightarrow> pr_Err reply = ErrNoKey \<Longrightarrow> snd sn' = 0"
    and "r = Some reply \<Longrightarrow> pr_Err reply = ErrVersion \<Longrightarrow> snd sn' = snd sn"
proof -
  let ?s1 = "fst (run_puts put_op (fst sn) (fst rd))"
  obtain s2 rep where p: "put_op a ?s1 = (s2, rep)" by (cases "put_op a ?s1")
  note o = sending_others [OF assms(1), of "fst rd"]
  note q = sending_put [OF o assms(2,3), unfolded fst_conv snd_conv, OF p]
  have mono: "sending a (u + length (fst rd)) x \<Longrightarrow> sending a (u + Suc (length (fst rd))) x" for x
    by (auto simp: sending_def intro: le_SucI)
  show "sending a (u + Suc (length (fst rd))) sn'"
    using assms(4) q(1) mono [OF o] p by (auto simp: call_put_def Let_def split: outcome.splits)
  show "pr_Err reply \<in> {OK, ErrVersion, ErrNoKey}" if "r = Some reply"
    using that assms(4) q(4) p by (auto simp: call_put_def Let_def split: outcome.splits)
  have n: "snd sn = 0 \<or> snd sn = 1" using assms(1) by (auto simp: sending_def)
  show "snd sn' = 1" if "r = Some reply" "pr_Err reply = OK"
    using that assms(4) q(2) p by (auto simp: call_put_def Let_def split: outcome.splits)
  show "snd sn' = 0" if "r = Some reply" "pr_Err reply = ErrNoKey"
    using that assms(4) q(3) p n by (auto simp: call_put_def Let_def split: outcome.splits)
  show "snd sn' = snd sn" if "r = Some reply" "pr_Err reply = ErrVersion"
    using that assms(4) p by (auto simp: call_put_def Let_def split: outcome.splits)
qed

lemma sending_le: "sending a u sn \<Longrightarrow> snd sn \<le> 1"
  by (auto simp: sending_def)

lemma resend_spec:
  assumes "sending a u sn" and "u + put_traffic env < 2 ^ 64" and "\<And>s. serves s (pa_Key a)"
  shows "\<exists>sn' res. Clerk_resend put_op a env sn = Inr (sn', res) \<and> snd sn' \<le> 1 \<and>
    (res = Some OK \<longrightarrow> snd sn' = 1) \<and> (res = Some ErrNoKey \<longrightarrow> snd sn' = 0) \<and>
    res \<in> {None, Some OK, Some ErrMaybe, Some ErrNoKey} \<and>
    (Delivered \<in> snd ` set env \<longrightarrow> res \<noteq> None)"
  using assms(1,2)
proof (induction env arbitrary: u sn)
  case Nil
  then show ?case using sending_le by auto
next
  case (Cons rd env)
  obtain sn' r where c: "call_put put_op a rd sn = (sn', r)" by (cases "call_put put_op a rd sn")
  have "u + length (fst rd) < 2 ^ 64" using Cons.prems(2) by (simp add: put_traffic_def)
  note k = sending_call [OF Cons.prems(1) this assms(3) c]
  show ?case
  proof (cases r)
    case None
    then have "snd rd \<noteq> Delivered" using c call_put_None by blast
    with None Cons.IH [OF k(1)] Cons.prems(2) c show ?thesis by (simp add: put_traffic_def algebra_simps)
  next
    case (Some reply)
    with k(2) [OF Some] k(3-4) [OF Some] sending_le [OF k(1)] c show ?thesis by (cases sn') auto
  qed
qed

lemma clerk_put_spec:
  assumes "put_traffic env < 2 ^ 64" and "\<And>s. serves s (pa_Key a)"
  shows "\<exists>sn' res. Clerk_Put put_op a env s = Inr (sn', res) \<and> snd sn' \<le> 1 \<and>
    (res = Some OK \<longrightarrow> snd sn' = 1) \<and> (res \<in> {Some ErrVersion, Some ErrNoKey} \<longrightarrow> snd sn' = 0) \<and>
    res \<in> {None, Some OK, Some ErrVersion, Some ErrMaybe, Some ErrNoKey} \<and>
    (Delivered \<in> snd ` set env \<longrightarrow> res \<noteq> None)"
proof (cases env)
  case (Cons rd env')
  have start: "sending a 0 (s, 0)" by (simp add: sending_def)
  obtain sn' r where c: "call_put put_op a rd (s, 0) = (sn', r)" by (cases "call_put put_op a rd (s, 0)")
  have "0 + length (fst rd) < 2 ^ 64" using assms(1) Cons by (simp add: put_traffic_def)
  note k = sending_call [OF start this assms(2) c]
  show ?thesis
  proof (cases r)
    case None
    then have "snd rd \<noteq> Delivered" using c call_put_None by blast
    with None resend_spec [OF k(1), of env'] assms Cons c show ?thesis by (auto simp: put_traffic_def)
  next
    case (Some reply)
    with k(2) [OF Some] k(3-5) [OF Some] sending_le [OF k(1)] c Cons show ?thesis by (cases sn') auto
  qed
qed simp

text \<open>The replicated clerk, when no answer \<^verbatim>\<open>ErrWrongLeader\<close> hides an execution.\<close>

lemma raft_clerk_put_spec:
  assumes "sending a u sn" and "u + raft_traffic env < 2 ^ 64" and "\<And>s. serves s (pa_Key a)"
    and "rpcTimes = 0 \<longrightarrow> snd sn = 0"
    and "\<forall>rc \<in> set env. honest_call (ck_nservers ck) rc"
    and "0 \<le> ck_leader ck" and "ck_leader ck < int (ck_nservers ck)"
    and "pr_LeaderHint reply < int (ck_nservers ck)"
  shows "\<exists>ck' sn' res. raft_Clerk_Put put_op a env reply rpcTimes ck sn = Inr (ck', sn', res) \<and>
    snd sn' \<le> 1 \<and> (res = Some OK \<longrightarrow> snd sn' = 1) \<and>
    (res \<in> {Some ErrVersion, Some ErrNoKey} \<longrightarrow> snd sn' = 0)"
  using assms(1,2,4-8)
proof (induction env arbitrary: u sn reply rpcTimes ck)
  case Nil
  then show ?case using sending_le by auto
next
  case (Cons rc env)
  let ?s1 = "fst (run_puts put_op (fst sn) (rc_others rc))"
  obtain s2 r where p: "put_op a ?s1 = (s2, r)" by (cases "put_op a ?s1")
  let ?done = "(s2, if pr_Err r = OK then snd sn + 1 else snd sn)"
  let ?u = "u + Suc (length (rc_others rc))"
  have u: "u + length (rc_others rc) < 2 ^ 64" "?u + raft_traffic env < 2 ^ 64"
    using Cons.prems(2) by (simp_all add: raft_traffic_def)
  note o = sending_others [OF Cons.prems(1), of "rc_others rc"]
  note q = sending_put [OF o u(1) assms(3), unfolded fst_conv snd_conv, OF p]
  have s1: "sending a ?u (?s1, snd sn)" using o by (auto simp: sending_def intro: le_SucI)
  have s2: "sending a ?u ?done" using q(1) by simp
  have pos: "0 < ck_nservers ck" using Cons.prems(5,6) by linarith
  have rng: "0 \<le> ck_leader (random_server d ck) \<and> ck_leader (random_server d ck) < int (ck_nservers ck)"
    "ck_nservers (random_server d ck) = ck_nservers ck" for d
    using pos by (simp_all add: random_server_def)
  show ?case
  proof (cases "rc_outcome rc")
    case (NoAnswer ex)
    have "\<exists>ck' sn' res. raft_Clerk_Put put_op a env reply (Suc rpcTimes) (random_server (rc_draw rc) ck)
        (if ex then ?done else (?s1, snd sn)) = Inr (ck', sn', res) \<and>
      snd sn' \<le> 1 \<and> (res = Some OK \<longrightarrow> snd sn' = 1) \<and>
      (res \<in> {Some ErrVersion, Some ErrNoKey} \<longrightarrow> snd sn' = 0)"
      by (rule Cons.IH [of ?u]) (use s1 s2 u rng Cons.prems in auto)
    with NoAnswer p Cons.prems(5,6) show ?thesis by (simp add: Let_def)
  next
    case (NotLeader hint ex)
    let ?reply = "decode_PutReply reply (PutReply0\<lparr>pr_Err := ErrWrongLeader, pr_LeaderHint := hint\<rparr>)"
    let ?ck = "follow_hint (pr_LeaderHint ?reply) (rc_draw rc) ck"
    have h: "\<not> ex" "hint < int (ck_nservers ck)" using Cons.prems(4) NotLeader by (auto simp: honest_call_def)
    have r: "pr_LeaderHint ?reply < int (ck_nservers ck)"
      using h(2) Cons.prems(7) by (simp add: decode_PutReply_def)
    have ck: "0 \<le> ck_leader ?ck \<and> ck_leader ?ck < int (ck_nservers ck) \<and> ck_nservers ?ck = ck_nservers ck"
      using r rng by (simp add: follow_hint_def)
    have "\<exists>ck' sn' res. raft_Clerk_Put put_op a env ?reply rpcTimes ?ck (?s1, snd sn) = Inr (ck', sn', res) \<and>
      snd sn' \<le> 1 \<and> (res = Some OK \<longrightarrow> snd sn' = 1) \<and>
      (res \<in> {Some ErrVersion, Some ErrNoKey} \<longrightarrow> snd sn' = 0)"
      by (rule Cons.IH [of ?u]) (use s1 u r ck Cons.prems in auto)
    with NotLeader p Cons.prems(5,6) h(1) show ?thesis by (simp add: Let_def)
  next
    case Answered
    have n: "snd sn = 0 \<or> snd sn = 1" using Cons.prems(1) by (auto simp: sending_def)
    have d: "pr_Err (decode_PutReply reply r) = pr_Err r" using q(4) by (auto simp: decode_PutReply_def)
    from q(4) consider "pr_Err r = OK" | "pr_Err r = ErrVersion" | "pr_Err r = ErrNoKey" by auto
    then show ?thesis
      using Answered p Cons.prems(3,5,6) q(2,3) n d by cases (auto simp: Let_def)
  qed
qed

end

text \<open>
  C16: The single-server clerk is honest about its Put. Whatever the network loses and
  whatever other clients write in between (fewer than \<open>2 ^ 64\<close> calls in all), Put does not
  reach its \<^verbatim>\<open>log.Fatalf\<close>; its request succeeds at the server at most once; it returns OK only
  if the request succeeded exactly once, \<^verbatim>\<open>ErrVersion\<close> or \<^verbatim>\<open>ErrNoKey\<close> only if it never
  did, and \<^verbatim>\<open>ErrMaybe\<close> otherwise; and it returns as soon as one call and its reply get through.
\<close>

theorem Clerk_Put_honest:
  assumes "put_traffic env < 2 ^ 64"
  shows "\<exists>kv' n res. Clerk_Put KVServer_Put a env kv = Inr ((kv', n), res) \<and> n \<le> 1 \<and>
    (res = Some OK \<longrightarrow> n = 1) \<and> (res \<in> {Some ErrVersion, Some ErrNoKey} \<longrightarrow> n = 0) \<and>
    res \<in> {None, Some OK, Some ErrVersion, Some ErrMaybe, Some ErrNoKey} \<and>
    (Delivered \<in> snd ` set env \<longrightarrow> res \<noteq> None)"
  using kvsrv.clerk_put_spec [OF assms, of a kv] by auto

theorem Clerk_Put_honest_witness:
  "let a = \<lparr>pa_Key = ''k'', pa_Value = ''v'', pa_Version = 0\<rparr>
   in \<exists>kv' n. Clerk_Put KVServer_Put a [([], ReplyLost), ([], Delivered)] MakeKVServer = Inr ((kv', n), Some ErrMaybe) \<and>
        n \<le> 1"
proof -
  let ?a = "\<lparr>pa_Key = ''k'', pa_Value = ''v'', pa_Version = 0\<rparr>"
  let ?env = "[([], ReplyLost), ([], Delivered)] :: rnd_put list"
  have t: "put_traffic ?env < 2 ^ 64" by (simp add: put_traffic_def)
  have "\<exists>sn'. Clerk_Put KVServer_Put ?a ?env MakeKVServer = Inr (sn', Some ErrMaybe)"
    by (simp add: call_put_def KVServer_Put_def MakeKVServer_def PutReply0_def)
  with Clerk_Put_honest [OF t, of ?a MakeKVServer] show ?thesis
    unfolding Let_def by (auto simp del: Clerk_Put.simps)
qed



text \<open>
  The replicated clerk can report a Put that took effect as a definite failure: the
  first server answers \<^verbatim>\<open>ErrWrongLeader\<close> because it lost its leadership after it had appended
  the command, the command commits nevertheless, and the retry is answered \<^verbatim>\<open>ErrVersion\<close>,
  which the clerk returns as it stands because an \<^verbatim>\<open>ErrWrongLeader\<close> round does not count in
  \<^verbatim>\<open>rpcTimes\<close>. The contract in the comment on Put demands \<^verbatim>\<open>ErrMaybe\<close>.
\<close>

theorem raft_Clerk_Put_reports_failure_of_performed_put:
  "let a = \<lparr>pa_Key = ''k'', pa_Value = ''v'', pa_Version = 0\<rparr>;
       env = [\<lparr>rc_others = [], rc_outcome = NotLeader 2 True, rc_draw = 0\<rparr>,
              \<lparr>rc_others = [], rc_outcome = Answered, rc_draw = 0\<rparr>]
   in \<exists>ck kv. raft_Clerk_Put kvraft_put a env PutReply0 0 (MakeClerk 3) (StartKVServer 0, 0) =
        Inr (ck, (kv, 1), Some ErrVersion) \<and> kvr_table kv ''k'' = Some \<lparr>Value = ''v'', Version = 1\<rparr>"
  by (simp add: kvraft_put_def StartKVServer_def PutReply0_def MakeClerk_def decode_PutReply_def
      follow_hint_def Let_def)

text \<open>
  A leader hint of 0 is lost once a nonzero hint was received: the clerk reuses its
  reply struct, and gob does not transmit zero fields. A clerk that was once pointed to
  server 2 asks server 2 forever while that server names server 0 as the leader, however
  often it tries.
\<close>

theorem raft_Clerk_Put_stuck_on_stale_hint:
  "let a = \<lparr>pa_Key = ''k'', pa_Value = ''v'', pa_Version = 0\<rparr>;
       to2 = \<lparr>rc_others = [], rc_outcome = NotLeader 2 False, rc_draw = 0\<rparr>;
       to0 = \<lparr>rc_others = [], rc_outcome = NotLeader 0 False, rc_draw = 0\<rparr>
   in \<exists>kv. raft_Clerk_Put kvraft_put a (to2 # replicate m to0) PutReply0 0 (MakeClerk 3) (StartKVServer 0, 0) =
        Inr (\<lparr>ck_nservers = 3, ck_leader = 2\<rparr>, (kv, 0), None)"
proof -
  let ?a = "\<lparr>pa_Key = ''k'', pa_Value = ''v'', pa_Version = 0\<rparr>"
  let ?to0 = "\<lparr>rc_others = [], rc_outcome = NotLeader 0 False, rc_draw = 0\<rparr>"
  have "raft_Clerk_Put kvraft_put ?a (replicate m ?to0) \<lparr>pr_Err = ErrWrongLeader, pr_LeaderHint = 2\<rparr> 0
      \<lparr>ck_nservers = 3, ck_leader = 2\<rparr> (kv, 0) = Inr (\<lparr>ck_nservers = 3, ck_leader = 2\<rparr>, (kv, 0), None)" for kv
    by (induction m) (simp_all add: decode_PutReply_def PutReply0_def follow_hint_def Let_def split_beta)
  then show ?thesis
    by (simp add: MakeClerk_def decode_PutReply_def PutReply0_def follow_hint_def Let_def split_beta)
qed

end
