(* ===== verification/DistLock.thy ===== *)
theory DistLock
  imports KvClerk
begin

text \<open>
  The distributed lock \<^verbatim>\<open>kvsrv1/lock/lock.go\<close> over the versioned store: Acquire and Release as
  the loops of any number of clients that run concurrently, each over a clerk whose calls
  may be lost and repeated.
\<close>

section \<open>The loops\<close>

text \<open>
  Where a client is: outside, in the Get or the Put of Acquire (\<open>Putting True\<close>), holding the
  lock, in the Get or the Put of Release (\<open>Putting False\<close>), or stopped by \<^verbatim>\<open>log.Fatalf\<close>. A Put
  in progress carries its version, the number of calls made, whether one of them succeeded
  at the server, and the answer that has arrived, if any.
\<close>

datatype pc = Idle | AcqGet | Held | RelGet | Stopped
  | Putting bool Tversion nat bool "Err option"

record Lock =
  clientID :: string
  lockName :: string

definition MakeLock :: "string \<Rightarrow> string \<Rightarrow> Lock" where
  "MakeLock cid lockname = \<lparr>clientID = cid, lockName = lockname\<rparr>"

definition Acquire_get :: "Lock \<Rightarrow> string \<times> Tversion \<times> Err \<Rightarrow> pc" where
  "Acquire_get lk r = (case r of (val, ver, err) \<Rightarrow>
     (case err of
        ErrNoKey \<Rightarrow> Putting True 0 0 False None
      | OK \<Rightarrow> (if val = [] then Putting True ver 0 False None
              else if val = clientID lk then Held
              else AcqGet)
      | _ \<Rightarrow> Stopped))"

definition Acquire_put :: "Err \<Rightarrow> pc" where
  "Acquire_put err = (case err of
     OK \<Rightarrow> Held | ErrVersion \<Rightarrow> AcqGet | ErrMaybe \<Rightarrow> AcqGet | _ \<Rightarrow> Stopped)"

definition Release_get :: "Lock \<Rightarrow> string \<times> Tversion \<times> Err \<Rightarrow> pc" where
  "Release_get lk r = (case r of (val, ver, err) \<Rightarrow>
     (case err of
        OK \<Rightarrow> (if val \<noteq> clientID lk then Idle else Putting False ver 0 False None)
      | ErrNoKey \<Rightarrow> Idle
      | _ \<Rightarrow> Stopped))"

definition Release_put :: "Err \<Rightarrow> pc" where
  "Release_put err = (case err of
     OK \<Rightarrow> Idle | ErrMaybe \<Rightarrow> RelGet | _ \<Rightarrow> Stopped)"

text \<open>The clerk's answer to a Put after \<open>n\<close> calls, the last of which was answered \<open>e\<close>.\<close>

definition clerk_answer :: "nat \<Rightarrow> Err \<Rightarrow> Err" where
  "clerk_answer n e = (if e = ErrVersion \<and> 1 < n then ErrMaybe else e)"

text \<open>What the clerk's Get returns from the server.\<close>

definition clerk_read :: "Lock \<Rightarrow> KVServer \<Rightarrow> string \<times> Tversion \<times> Err" where
  "clerk_read lk kv = (let r = KVServer_Get \<lparr>ga_Key = lockName lk\<rparr> kv
     in (gr_Value r, gr_Version r, gr_Err r))"

definition lock_args :: "Lock \<Rightarrow> bool \<Rightarrow> Tversion \<Rightarrow> PutArgs" where
  "lock_args lk acq v = \<lparr>pa_Key = lockName lk, pa_Value = (if acq then clientID lk else []), pa_Version = v\<rparr>"

section \<open>Concurrent clients\<close>

record lock_world =
  store :: KVServer
  pcs :: "nat \<Rightarrow> pc"

text \<open>
  One step of one client. A call is executed by the server with its reply received or lost,
  or the request is lost. The version of the lock never wraps around: \<open>2 ^ 64\<close> successful
  Puts do not happen.
\<close>

inductive lock_step :: "(nat \<Rightarrow> Lock) \<Rightarrow> lock_world \<Rightarrow> lock_world \<Rightarrow> bool" for lks where
  acquire: "pcs w c = Idle \<Longrightarrow> lock_step lks w (w\<lparr>pcs := (pcs w)(c := AcqGet)\<rparr>)"
| acq_get: "pcs w c = AcqGet \<Longrightarrow>
    lock_step lks w (w\<lparr>pcs := (pcs w)(c := Acquire_get (lks c) (clerk_read (lks c) (store w)))\<rparr>)"
| release: "pcs w c = Held \<Longrightarrow> lock_step lks w (w\<lparr>pcs := (pcs w)(c := RelGet)\<rparr>)"
| rel_get: "pcs w c = RelGet \<Longrightarrow>
    lock_step lks w (w\<lparr>pcs := (pcs w)(c := Release_get (lks c) (clerk_read (lks c) (store w)))\<rparr>)"
| lost: "pcs w c = Putting acq v n ex None \<Longrightarrow>
    lock_step lks w (w\<lparr>pcs := (pcs w)(c := Putting acq v (Suc n) ex None)\<rparr>)"
| exec: "pcs w c = Putting acq v n ex None \<Longrightarrow>
    current_version (table (store w)) (lockName (lks c)) \<noteq> - 1 \<Longrightarrow>
    KVServer_Put (lock_args (lks c) acq v) (store w) = (kv', r) \<Longrightarrow>
    lock_step lks w \<lparr>store = kv', pcs = (pcs w)(c := Putting acq v (Suc n) (ex \<or> pr_Err r = OK)
                       (if received then Some (pr_Err r) else None))\<rparr>"
| answer: "pcs w c = Putting acq v n ex (Some e) \<Longrightarrow>
    lock_step lks w (w\<lparr>pcs := (pcs w)(c := (if acq then Acquire_put else Release_put) (clerk_answer n e))\<rparr>)"

inductive lock_reach :: "(nat \<Rightarrow> Lock) \<Rightarrow> lock_world \<Rightarrow> bool" for lks where
  init: "lock_reach lks \<lparr>store = MakeKVServer, pcs = (\<lambda>_. Idle)\<rparr>"
| step: "lock_reach lks w \<Longrightarrow> lock_step lks w w' \<Longrightarrow> lock_reach lks w'"

section \<open>The invariant\<close>

definition lock_value :: "Lock \<Rightarrow> KVServer \<Rightarrow> string" where
  "lock_value lk kv = (case table kv (lockName lk) of None \<Rightarrow> [] | Some vv \<Rightarrow> Value vv)"

definition lock_version :: "Lock \<Rightarrow> KVServer \<Rightarrow> Tversion" where
  "lock_version lk kv = current_version (table kv) (lockName lk)"

fun client_inv :: "Lock \<Rightarrow> KVServer \<Rightarrow> pc \<Rightarrow> bool" where
  "client_inv lk kv Held = (lock_value lk kv = clientID lk)"
| "client_inv lk kv Stopped = False"
| "client_inv lk kv (Putting acq v n ex ans) =
     (v \<le> lock_version lk kv \<and> (ex \<longrightarrow> v < lock_version lk kv \<and> 0 < n) \<and>
      (v \<noteq> 0 \<longrightarrow> table kv (lockName lk) \<noteq> None) \<and>
      (acq \<longrightarrow> (ex \<longrightarrow> lock_value lk kv = clientID lk) \<and>
              (\<not> ex \<and> v = lock_version lk kv \<longrightarrow> lock_value lk kv = [])) \<and>
      (\<not> acq \<longrightarrow> (\<not> ex \<longrightarrow> v = lock_version lk kv \<and> lock_value lk kv = clientID lk)) \<and>
      (case ans of None \<Rightarrow> True
       | Some e \<Rightarrow> e = OK \<and> ex \<or> e = ErrVersion \<and> (acq \<or> 1 < n)))"
| "client_inv lk kv _ = True"

text \<open>All clients of one lock, with different, non-empty identifiers (\<^verbatim>\<open>kvtest.RandValue(8)\<close>).\<close>

definition same_lock :: "(nat \<Rightarrow> Lock) \<Rightarrow> string \<Rightarrow> bool" where
  "same_lock lks l \<longleftrightarrow> (\<forall>c. lockName (lks c) = l \<and> clientID (lks c) \<noteq> []) \<and>
     (\<forall>c d. clientID (lks c) = clientID (lks d) \<longrightarrow> c = d)"

definition lock_inv :: "(nat \<Rightarrow> Lock) \<Rightarrow> lock_world \<Rightarrow> bool" where
  "lock_inv lks w \<longleftrightarrow> (\<forall>c. client_inv (lks c) (store w) (pcs w c))"

lemma word_less_plus1:
  assumes "(x :: 64 word) \<noteq> - 1"
  shows "x < x + 1"
proof -
  have "1 + x \<noteq> 0" using assms max_word_wrap [of x] by (auto simp: add.commute)
  from unatSuc [OF this] show ?thesis by (simp add: word_less_nat_alt add.commute)
qed

lemma put_success:
  assumes "KVServer_Put (lock_args lk acq v) kv = (kv', r)" and "pr_Err r = OK"
  shows "v = lock_version lk kv" and "lock_version lk kv' = v + 1"
    and "lock_value lk kv' = (if acq then clientID lk else [])" and "table kv' (lockName lk) \<noteq> None"
  using assms kvsrv.put_OK_iff [of "lock_args lk acq v" kv] kvsrv.put_accept [of kv "lock_args lk acq v"]
  by (auto simp: lock_version_def lock_value_def lock_args_def current_version_def)

lemma put_failure:
  assumes "KVServer_Put (lock_args lk acq v) kv = (kv', r)" and "pr_Err r \<noteq> OK"
    and "v \<noteq> 0 \<longrightarrow> table kv (lockName lk) \<noteq> None"
  shows "kv' = kv" and "v \<noteq> lock_version lk kv" and "pr_Err r = ErrVersion"
proof -
  show "kv' = kv" using kvsrv.put_not_OK [of "lock_args lk acq v" kv] assms(1,2) by simp
  show ne: "v \<noteq> lock_version lk kv"
    using kvsrv.put_OK_iff [of "lock_args lk acq v" kv] assms(1,2)
    by (auto simp: lock_version_def lock_args_def)
  then obtain vv where "table kv (lockName lk) = Some vv"
    using assms(3) by (cases "v = 0") (auto simp: lock_version_def current_version_def split: option.splits)
  with ne kvsrv.put_stale [of kv "lock_args lk acq v" vv] assms(1) show "pr_Err r = ErrVersion"
    by (auto simp: lock_version_def current_version_def lock_args_def PutReply0_def)
qed

text \<open>A successful Put of client \<open>d\<close> does not touch a lock that client \<open>c\<close> holds.\<close>

lemma client_inv_other:
  assumes "client_inv lc kv p" and "client_inv ld kv (Putting acq v n ex None)"
    and "lockName lc = lockName ld" and "clientID lc \<noteq> clientID ld" and "clientID lc \<noteq> []"
    and "lock_version ld kv \<noteq> - 1"
    and "KVServer_Put (lock_args ld acq v) kv = (kv', r)" and "pr_Err r = OK"
  shows "client_inv lc kv' p"
proof -
  note s = put_success [OF assms(7,8)]
  have vv: "lock_version lc = lock_version ld" "lock_value lc = lock_value ld"
    using assms(3) by (auto simp: lock_version_def lock_value_def fun_eq_iff)
  have "\<not> ex" using assms(2) s(1) by auto
  then have val: "lock_value ld kv = (if acq then [] else clientID ld)"
    using assms(2) s(1) by auto
  have up: "lock_version ld kv < lock_version ld kv'"
    using word_less_plus1 [OF assms(6)] s(1,2) by simp
  show ?thesis
  proof (cases p)
    case Held
    with assms(1,4,5) val vv show ?thesis by (auto split: if_splits)
  next
    case Stopped
    with assms(1) show ?thesis by simp
  next
    case (Putting acq' v' n' ex' ans')
    have "lock_value ld kv \<noteq> clientID lc" using val assms(4,5) by (auto split: if_splits)
    with assms(1) Putting vv up s(4) assms(3) show ?thesis
      by (auto intro: order_less_le_trans order_le_less_trans order_less_imp_le)
  qed simp_all
qed

lemma client_inv_self:
  assumes "client_inv lk kv (Putting acq v n ex None)" and "lock_version lk kv \<noteq> - 1"
    and "KVServer_Put (lock_args lk acq v) kv = (kv', r)"
  shows "client_inv lk kv' (Putting acq v (Suc n) (ex \<or> pr_Err r = OK) (if received then Some (pr_Err r) else None))"
proof (cases "pr_Err r = OK")
  case True
  note s = put_success [OF assms(3) True]
  have "v < v + 1" using word_less_plus1 assms(2) s(1) by simp
  with s assms(1) True show ?thesis by (auto intro: order_less_imp_le)
next
  case False
  have present: "v \<noteq> 0 \<longrightarrow> table kv (lockName lk) \<noteq> None" using assms(1) by simp
  note f = put_failure [OF assms(3) False present]
  have "acq \<or> ex" using f(2) assms(1) by auto
  with f assms(1) show ?thesis by auto
qed

lemma client_inv_get:
  "client_inv lk kv (Acquire_get lk (clerk_read lk kv))" "client_inv lk kv (Release_get lk (clerk_read lk kv))"
  by (auto simp: Acquire_get_def Release_get_def clerk_read_def KVServer_Get_def Let_def GetReply0_def
      lock_value_def lock_version_def current_version_def split: option.splits)

lemma client_inv_answer:
  assumes "client_inv lk kv (Putting acq v n ex (Some e))"
  shows "client_inv lk kv ((if acq then Acquire_put else Release_put) (clerk_answer n e))"
  using assms by (auto simp: Acquire_put_def Release_put_def clerk_answer_def)

lemma lock_inv_pc:
  assumes "lock_inv lks w" and "client_inv (lks c) (store w) p"
  shows "lock_inv lks (w\<lparr>pcs := (pcs w)(c := p)\<rparr>)"
  using assms by (simp add: lock_inv_def)

lemma lock_step_inv:
  assumes "lock_step lks w w'" and "same_lock lks l" and "lock_inv lks w"
  shows "lock_inv lks w'"
  using assms(1)
proof cases
  case (acquire c)
  with assms(3) show ?thesis by (auto intro: lock_inv_pc)
next
  case (acq_get c)
  with assms(3) client_inv_get(1) show ?thesis by (auto intro: lock_inv_pc)
next
  case (release c)
  with assms(3) show ?thesis by (auto intro: lock_inv_pc)
next
  case (rel_get c)
  with assms(3) client_inv_get(2) show ?thesis by (auto intro: lock_inv_pc)
next
  case (lost c acq v n ex)
  have "client_inv (lks c) (store w) (Putting acq v n ex None)" using assms(3) lost by (metis lock_inv_def)
  then have "client_inv (lks c) (store w) (Putting acq v (Suc n) ex None)" by auto
  with assms(3) lost show ?thesis by (auto intro: lock_inv_pc)
next
  case (exec c acq v n ex kv' r received)
  have inv: "client_inv (lks c) (store w) (Putting acq v n ex None)" using assms(3) exec by (metis lock_inv_def)
  have nw: "lock_version (lks c) (store w) \<noteq> - 1" using exec by (simp add: lock_version_def)
  have "client_inv (lks d) kv' (pcs w d)" if "d \<noteq> c" for d
  proof (cases "pr_Err r = OK")
    case True
    have "client_inv (lks d) (store w) (pcs w d)" using assms(3) by (simp add: lock_inv_def)
    from client_inv_other [OF this inv _ _ _ nw exec(4) True] assms(2) that show ?thesis
      unfolding same_lock_def by metis
  next
    case False
    then have "kv' = store w" using kvsrv.put_not_OK [of "lock_args (lks c) acq v" "store w"] exec(4) by simp
    with assms(3) show ?thesis by (simp add: lock_inv_def)
  qed
  with client_inv_self [OF inv nw exec(4), of received] exec(1) show ?thesis
    by (auto simp: lock_inv_def simp del: client_inv.simps)
next
  case (answer c acq v n ex e)
  have "client_inv (lks c) (store w) (Putting acq v n ex (Some e))" using assms(3) answer by (metis lock_inv_def)
  from lock_inv_pc [OF assms(3) client_inv_answer [OF this]] answer(1) show ?thesis by simp
qed

lemma lock_reach_inv:
  assumes "lock_reach lks w" and "same_lock lks l"
  shows "lock_inv lks w"
  using assms
  by (induction rule: lock_reach.induct) (auto simp: lock_inv_def [of _ "\<lparr>store = s, pcs = p\<rparr>" for s p] intro: lock_step_inv)

text \<open>Clients with identifiers of different lengths, and a run in which the first one acquires the lock.\<close>

definition demo_locks :: "nat \<Rightarrow> Lock" where
  "demo_locks c = MakeLock (replicate (Suc c) (CHR ''a'')) ''l''"

lemma demo_same_lock: "same_lock demo_locks ''l''"
proof -
  have "c = d" if "clientID (demo_locks c) = clientID (demo_locks d)" for c d
    using arg_cong [OF that, of length] by (simp add: demo_locks_def MakeLock_def)
  then show ?thesis by (auto simp: same_lock_def demo_locks_def MakeLock_def)
qed

lemma demo_acquired: "\<exists>w. lock_reach demo_locks w \<and> pcs w 0 = Held"
proof -
  let ?p = "Putting True 0 0 False None"
  let ?kv = "fst (KVServer_Put (lock_args (demo_locks 0) True 0) MakeKVServer)"
  have put: "KVServer_Put (lock_args (demo_locks 0) True 0) MakeKVServer = (?kv, PutReply0\<lparr>pr_Err := OK\<rparr>)"
    by (simp add: KVServer_Put_def MakeKVServer_def lock_args_def)
  have get: "Acquire_get (demo_locks 0) (clerk_read (demo_locks 0) MakeKVServer) = ?p"
    by (simp add: Acquire_get_def clerk_read_def KVServer_Get_def MakeKVServer_def GetReply0_def)
  let ?w0 = "\<lparr>store = MakeKVServer, pcs = (\<lambda>_. Idle)\<rparr>"
  let ?w1 = "\<lparr>store = MakeKVServer, pcs = (\<lambda>_. Idle)(0 := AcqGet)\<rparr>"
  let ?w2 = "\<lparr>store = MakeKVServer, pcs = (\<lambda>_. Idle)(0 := ?p)\<rparr>"
  let ?w3 = "\<lparr>store = ?kv, pcs = (\<lambda>_. Idle)(0 := Putting True 0 1 True (Some OK))\<rparr>"
  have "lock_reach demo_locks ?w1"
    using lock_reach.step [OF lock_reach.init lock_step.acquire [of ?w0 0]] by simp
  from lock_reach.step [OF this lock_step.acq_get [of ?w1 0]] have "lock_reach demo_locks ?w2"
    by (simp add: get)
  from lock_reach.step [OF this lock_step.exec [of ?w2 0 True 0 0 False _ ?kv "PutReply0\<lparr>pr_Err := OK\<rparr>" True]] put
  have "lock_reach demo_locks ?w3"
    by (simp add: MakeKVServer_def current_version_def PutReply0_def)
  from lock_reach.step [OF this lock_step.answer [of ?w3 0 True 0 1 True OK]] show ?thesis
    by (force simp: Acquire_put_def clerk_answer_def)
qed

text \<open>
  C5: Mutual exclusion: when clients with different identifiers use one lock concurrently,
  over calls that may be lost and repeated, at most one of them is between the return of
  Acquire and its call of Release.
\<close>

theorem lock_mutual_exclusion:
  assumes "lock_reach lks w" and "same_lock lks l" and "pcs w c = Held" and "pcs w d = Held"
  shows "c = d"
proof -
  have "client_inv (lks c) (store w) Held" "client_inv (lks d) (store w) Held"
    using lock_reach_inv [OF assms(1,2)] assms(3,4) by (metis lock_inv_def)+
  with assms(2) have "clientID (lks c) = clientID (lks d)"
    by (auto simp: same_lock_def lock_value_def)
  with assms(2) show ?thesis unfolding same_lock_def by blast
qed

theorem lock_mutual_exclusion_witness:
  "\<exists>w. lock_reach demo_locks w \<and> {d. pcs w d = Held} = {0}"
proof -
  obtain w where w: "lock_reach demo_locks w" "pcs w 0 = Held" using demo_acquired by blast
  then have "{d. pcs w d = Held} = {0}"
    using lock_mutual_exclusion [OF w(1) demo_same_lock _ w(2)] by auto
  with w(1) show ?thesis by blast
qed

text \<open>
  None of the \<^verbatim>\<open>log.Fatalf\<close> calls of Acquire and Release is ever reached: the clerk never
  answers \<^verbatim>\<open>ErrNoKey\<close> to their Puts, and Release never sees \<^verbatim>\<open>ErrVersion\<close> on its first call.
\<close>

theorem lock_never_fatal:
  assumes "lock_reach lks w" and "same_lock lks l"
  shows "pcs w c \<noteq> Stopped"
proof
  assume "pcs w c = Stopped"
  with lock_reach_inv [OF assms] have "client_inv (lks c) (store w) Stopped" by (metis lock_inv_def)
  then show False by simp
qed

theorem lock_never_fatal_witness:
  "\<exists>w. lock_reach demo_locks w \<and> pcs w 0 = Held \<and> pcs w 1 \<noteq> Stopped"
  using demo_acquired lock_never_fatal [OF _ demo_same_lock] by blast

end
