(* ===== verification/ShardConfig.thy ===== *)
theory ShardConfig
  imports Prelude "HOL-Library.AList" "HOL-Library.Multiset"
begin

text \<open>
  \<^verbatim>\<open>shardkv1/shardcfg/shardcfg.go\<close>: the assignment of shards to replica groups, the hash from
  keys to shards, and the operations that change and rebalance a configuration. A Go map
  from group to servers is an association list without duplicate keys; where the code
  iterates over such a map it either sorts the keys or does not depend on their order.
\<close>

section \<open>Keys and shards\<close>

definition NShards :: nat where
  "NShards = 12"

definition Gid1 :: int where
  "Gid1 = 1"

definition Key2Shard :: "string \<Rightarrow> int" where
  "Key2Shard key = uint (fnv32a key) mod int NShards"

section \<open>Configurations\<close>

record ShardConfig =
  Num :: int
  Shards :: "int list"
  Groups :: "(int \<times> string list) list"

definition MakeShardConfig :: ShardConfig where
  "MakeShardConfig = \<lparr>Num = 0, Shards = replicate NShards 0, Groups = []\<rparr>"

definition Copy :: "ShardConfig \<Rightarrow> ShardConfig" where
  "Copy cfg = MakeShardConfig\<lparr>Num := Num cfg, Shards := Shards cfg, Groups := Groups cfg\<rparr>"

fun analyze_loop :: "(int \<Rightarrow> int) \<Rightarrow> int list \<Rightarrow> int \<times> int \<times> int \<times> int \<Rightarrow> int \<times> int \<times> int \<times> int" where
  "analyze_loop counts [] acc = acc"
| "analyze_loop counts (gid # gids) (mostGroup, mostShardsNum, leastGroup, leastShardsNum) =
     (let (lg, ln) = (if counts gid < leastShardsNum then (gid, counts gid) else (leastGroup, leastShardsNum));
          (mg, mn) = (if mostShardsNum < counts gid then (gid, counts gid) else (mostGroup, mostShardsNum))
      in analyze_loop counts gids (mg, mn, lg, ln))"

definition analyze :: "ShardConfig \<Rightarrow> int \<times> int \<times> int \<times> int" where
  "analyze c = analyze_loop (\<lambda>gid. int (count_list (Shards c) gid)) (sort (map fst (Groups c)))
     (- 1, - 1, - 1, 257)"

definition least :: "ShardConfig \<Rightarrow> int" where
  "least c = (case analyze c of (_, _, leastGroup, _) \<Rightarrow> leastGroup)"

definition assign_shard :: "nat \<times> int \<Rightarrow> ShardConfig \<Rightarrow> ShardConfig" where
  "assign_shard sg c = (case sg of (s, gid) \<Rightarrow>
     if gid \<in> set (map fst (Groups c)) then c else c\<lparr>Shards := (Shards c)[s := least c]\<rparr>)"

definition assign_shards :: "ShardConfig \<Rightarrow> ShardConfig" where
  "assign_shards c = fold assign_shard (enumerate 0 (Shards c)) c"

fun move_one :: "int \<Rightarrow> int \<Rightarrow> int list \<Rightarrow> int list" where
  "move_one mg lg [] = []"
| "move_one mg lg (g # gs) = (if g = mg then lg # gs else g # move_one mg lg gs)"

partial_function (option) rebalance_loop :: "ShardConfig \<Rightarrow> ShardConfig option" where
  [code]: "rebalance_loop c =
     (case analyze c of (mostGroup, mostShardsNum, leastGroup, leastShardsNum) \<Rightarrow>
        if mostShardsNum < leastShardsNum + 2 then Some c
        else rebalance_loop (c\<lparr>Shards := move_one mostGroup leastGroup (Shards c)\<rparr>))"

definition Rebalance :: "ShardConfig \<Rightarrow> ShardConfig option" where
  "Rebalance c = (if length (Groups c) < 1 then Some (c\<lparr>Shards := map (\<lambda>_. 0) (Shards c)\<rparr>)
                  else rebalance_loop (assign_shards c))"

text \<open>Whether a server name occurs in a group that is already there.\<close>

definition server_clash :: "string list \<Rightarrow> ShardConfig \<Rightarrow> bool" where
  "server_clash servers cfg = (\<exists>xs \<in> set (map snd (Groups cfg)). set xs \<inter> set servers \<noteq> {})"

fun Join_loop :: "(int \<times> string list) list \<Rightarrow> ShardConfig \<times> bool \<Rightarrow> (ShardConfig \<times> bool \<times> bool) go" where
  "Join_loop [] (cfg, changed) = Inr (cfg, changed, True)"
| "Join_loop ((gid, servers) # rest) (cfg, changed) =
     (if gid \<in> set (map fst (Groups cfg)) then Inr (cfg, changed, False)
      else if server_clash servers cfg then Inl (Fatal ''Join puts server in two groups'')
      else Join_loop rest (cfg\<lparr>Groups := AList.update gid servers (Groups cfg)\<rparr>, True))"

text \<open>The configuration after the call and the boolean it returns.\<close>

definition Join :: "(int \<times> string list) list \<Rightarrow> ShardConfig \<Rightarrow> (ShardConfig \<times> bool) go" where
  "Join servers cfg =
     bind_go (Join_loop servers (cfg, False)) (\<lambda>(cfg1, changed, completed).
       if \<not> completed then Inr (cfg1, False)
       else if \<not> changed then Inl (Fatal ''Join but no change'')
       else Inr (cfg1\<lparr>Num := Num cfg1 + 1\<rparr>, True))"

fun Leave_loop :: "int list \<Rightarrow> ShardConfig \<times> bool \<Rightarrow> ShardConfig \<times> bool \<times> bool" where
  "Leave_loop [] (cfg, changed) = (cfg, changed, True)"
| "Leave_loop (gid # rest) (cfg, changed) =
     (if gid \<notin> set (map fst (Groups cfg)) then (cfg, changed, False)
      else Leave_loop rest (cfg\<lparr>Groups := AList.delete gid (Groups cfg)\<rparr>, True))"

definition Leave :: "int list \<Rightarrow> ShardConfig \<Rightarrow> (ShardConfig \<times> bool) go" where
  "Leave gids cfg =
     (case Leave_loop gids (cfg, False) of (cfg1, changed, completed) \<Rightarrow>
        if \<not> completed then Inr (cfg1, False)
        else if \<not> changed then Inl (Fatal ''Leave but no change'')
        else Inr (cfg1\<lparr>Num := Num cfg1 + 1\<rparr>, True))"



definition GidServers :: "int \<Rightarrow> ShardConfig \<Rightarrow> (int \<times> string list \<times> bool) go" where
  "GidServers sh cfg = bind_go (go_nth (Shards cfg) sh) (\<lambda>gid.
     Inr (case map_of (Groups cfg) gid of
            Some srvs \<Rightarrow> (gid, srvs, True) | None \<Rightarrow> (gid, [], False)))"

definition IsMember :: "int \<Rightarrow> ShardConfig \<Rightarrow> bool" where
  "IsMember gid cfg = (gid \<in> set (Shards cfg))"


section \<open>Finding the most and the least loaded group\<close>

lemma Key2Shard_range: "0 \<le> Key2Shard k \<and> Key2Shard k < int NShards"
  by (simp add: Key2Shard_def NShards_def)

lemma analyze_loop_least:
  "analyze_loop counts gids (mg, mn, lg, ln) = (mg', mn', lg', ln') \<Longrightarrow>
   ln' \<le> ln \<and> (\<forall>g \<in> set gids. ln' \<le> counts g) \<and>
   (lg' = lg \<and> ln' = ln \<or> lg' \<in> set gids \<and> counts lg' = ln')"
proof (induction gids arbitrary: mg mn lg ln)
  case (Cons g gids)
  from Cons.prems obtain mg1 mn1 lg1 ln1 where
    a: "analyze_loop counts gids (mg1, mn1, lg1, ln1) = (mg', mn', lg', ln')"
    and b: "(lg1, ln1) = (if counts g < ln then (g, counts g) else (lg, ln))"
    by (auto split: if_splits)
  from Cons.IH [OF a] b show ?case by (auto split: if_splits)
qed simp

lemma analyze_loop_most:
  "analyze_loop counts gids (mg, mn, lg, ln) = (mg', mn', lg', ln') \<Longrightarrow>
   mn \<le> mn' \<and> (\<forall>g \<in> set gids. counts g \<le> mn') \<and>
   (mg' = mg \<and> mn' = mn \<or> mg' \<in> set gids \<and> counts mg' = mn')"
proof (induction gids arbitrary: mg mn lg ln)
  case (Cons g gids)
  from Cons.prems obtain mg1 mn1 lg1 ln1 where
    a: "analyze_loop counts gids (mg1, mn1, lg1, ln1) = (mg', mn', lg', ln')"
    and b: "(mg1, mn1) = (if mn < counts g then (g, counts g) else (mg, mn))"
    by (auto split: if_splits)
  from Cons.IH [OF a] b show ?case by (auto split: if_splits)
qed simp

text \<open>With at most 256 shards the sentinels 257 and -1 of the code do not matter.\<close>

lemma analyze_spec:
  assumes "Groups c \<noteq> []" and "length (Shards c) \<le> 256" and "analyze c = (mg, mn, lg, ln)"
  shows "mg \<in> set (map fst (Groups c))" and "lg \<in> set (map fst (Groups c))"
    and "mn = int (count_list (Shards c) mg)" and "ln = int (count_list (Shards c) lg)"
    and "\<And>g. g \<in> set (map fst (Groups c)) \<Longrightarrow>
      ln \<le> int (count_list (Shards c) g) \<and> int (count_list (Shards c) g) \<le> mn"
proof -
  let ?gs = "sort (map fst (Groups c))" and ?ct = "\<lambda>g. int (count_list (Shards c) g)"
  have a: "analyze_loop ?ct ?gs (- 1, - 1, - 1, 257) = (mg, mn, lg, ln)" using assms(3) by (simp add: analyze_def)
  note l = analyze_loop_least [OF a] and m = analyze_loop_most [OF a]
  obtain g0 where "g0 \<in> set (map fst (Groups c))" using assms(1) by (cases "Groups c") auto
  then have g0: "g0 \<in> set ?gs" by simp
  have "?ct g0 \<le> 256" using assms(2) count_le_length [of "Shards c" g0] by linarith
  with l g0 have "ln \<noteq> 257" by force
  with l show "lg \<in> set (map fst (Groups c))" "ln = ?ct lg" by auto
  have "mn \<noteq> - 1" using m g0 by force
  with m show "mg \<in> set (map fst (Groups c))" "mn = ?ct mg" by auto
  show "ln \<le> ?ct g \<and> ?ct g \<le> mn" if "g \<in> set (map fst (Groups c))" for g
    using l m that by auto
qed

section \<open>Rebalancing terminates and balances\<close>

lemma length_move_one [simp]: "length (move_one mg lg xs) = length xs"
  by (induction xs) auto

lemma set_move_one: "set (move_one mg lg xs) \<subseteq> insert lg (set xs)"
  by (induction xs) auto

lemma count_move_one:
  assumes "mg \<in> set xs" and "mg \<noteq> lg"
  shows "count_list (move_one mg lg xs) g =
    (if g = mg then count_list xs g - 1 else if g = lg then count_list xs g + 1 else count_list xs g)"
  using assms by (induction xs) (auto simp: count_list_0_iff dest: count_list_0_iff [THEN iffD1])

text \<open>The loop decreases the sum of the squared loads.\<close>

definition load :: "ShardConfig \<Rightarrow> int" where
  "load c = (\<Sum>g \<in> set (map fst (Groups c)). (int (count_list (Shards c) g))\<^sup>2)"

lemma load_decreases:
  assumes "mg \<in> set (map fst (Groups c))" and "lg \<in> set (map fst (Groups c))"
    and "int (count_list (Shards c) lg) + 2 \<le> int (count_list (Shards c) mg)"
  shows "load (c\<lparr>Shards := move_one mg lg (Shards c)\<rparr>) < load c"
proof -
  let ?G = "set (map fst (Groups c))" and ?n = "\<lambda>g. int (count_list (Shards c) g)"
  let ?m = "\<lambda>g. int (count_list (move_one mg lg (Shards c)) g)"
  have ne: "mg \<noteq> lg" and pos: "0 < count_list (Shards c) mg" using assms(3) by auto
  then have mem: "mg \<in> set (Shards c)" by (metis count_list_0_iff less_irrefl)
  note ct = count_move_one [OF mem ne]
  have split: "(\<Sum>g \<in> ?G. f g) = f mg + f lg + (\<Sum>g \<in> ?G - {mg, lg}. f g)" for f :: "int \<Rightarrow> int"
    using assms(1,2) ne sum.subset_diff [of "{mg, lg}" ?G f] by simp
  have "(\<Sum>g \<in> ?G - {mg, lg}. (?m g)\<^sup>2) = (\<Sum>g \<in> ?G - {mg, lg}. (?n g)\<^sup>2)"
    by (rule sum.cong) (auto simp: ct)
  moreover have "?m mg = ?n mg - 1" "?m lg = ?n lg + 1" using pos ne by (auto simp: ct)
  moreover have "(?n mg - 1)\<^sup>2 + (?n lg + 1)\<^sup>2 < (?n mg)\<^sup>2 + (?n lg)\<^sup>2"
    using assms(3) by (simp add: power2_eq_square algebra_simps)
  ultimately show ?thesis
    using split [of "\<lambda>g. (?m g)\<^sup>2"] split [of "\<lambda>g. (?n g)\<^sup>2"] by (simp add: load_def)
qed

definition balanced :: "ShardConfig \<Rightarrow> bool" where
  "balanced c \<longleftrightarrow> (\<forall>g \<in> set (map fst (Groups c)). \<forall>h \<in> set (map fst (Groups c)).
     count_list (Shards c) g \<le> count_list (Shards c) h + 1)"

definition all_assigned :: "ShardConfig \<Rightarrow> bool" where
  "all_assigned c \<longleftrightarrow> set (Shards c) \<subseteq> set (map fst (Groups c))"

lemma load_nonneg: "0 \<le> load c"
  by (simp add: load_def sum_nonneg)

lemma rebalance_loop_spec:
  assumes "Groups c \<noteq> []" and "length (Shards c) \<le> 256" and "all_assigned c"
  shows "\<exists>c'. rebalance_loop c = Some c' \<and> balanced c' \<and> all_assigned c' \<and>
    length (Shards c') = length (Shards c) \<and> Groups c' = Groups c \<and> Num c' = Num c"
  using assms
proof (induction "nat (load c)" arbitrary: c rule: less_induct)
  case less
  obtain mg mn lg ln where an: "analyze c = (mg, mn, lg, ln)" by (cases "analyze c") auto
  note a = analyze_spec [OF less.prems(1,2) an]
  show ?case
  proof (cases "mn < ln + 2")
    case True
    then have "rebalance_loop c = Some c" by (subst rebalance_loop.simps) (simp add: an)
    moreover have "balanced c"
      unfolding balanced_def
    proof (intro ballI)
      fix g h assume "g \<in> set (map fst (Groups c))" "h \<in> set (map fst (Groups c))"
      with a(5) [of g] a(5) [of h] True show "count_list (Shards c) g \<le> count_list (Shards c) h + 1"
        by linarith
    qed
    ultimately show ?thesis using less.prems by simp
  next
    case False
    let ?c = "c\<lparr>Shards := move_one mg lg (Shards c)\<rparr>"
    have "load ?c < load c" using load_decreases a(1-4) False by simp
    then have "nat (load ?c) < nat (load c)" using load_nonneg [of ?c] by simp
    moreover have "all_assigned ?c"
      using less.prems(3) a(2) set_move_one [of mg lg "Shards c"] unfolding all_assigned_def by auto
    ultimately have "\<exists>c'. rebalance_loop ?c = Some c' \<and> balanced c' \<and> all_assigned c' \<and>
        length (Shards c') = length (Shards ?c) \<and> Groups c' = Groups ?c \<and> Num c' = Num ?c"
      using less.prems by (intro less.hyps) simp_all
    moreover have "rebalance_loop c = rebalance_loop ?c"
      using False by (subst rebalance_loop.simps) (simp add: an)
    ultimately show ?thesis by simp
  qed
qed

lemma least_member:
  assumes "Groups c \<noteq> []" and "length (Shards c) \<le> 256"
  shows "least c \<in> set (map fst (Groups c))"
  using analyze_spec(2) [OF assms] by (auto simp: least_def split: prod.splits)

lemma assign_fold:
  assumes "Groups c \<noteq> []" and "length (Shards c) \<le> 256" and "k + length xs = length (Shards c)"
    and "drop k (Shards c) = xs" and "set (take k (Shards c)) \<subseteq> set (map fst (Groups c))"
  shows "let c' = fold assign_shard (enumerate k xs) c
    in all_assigned c' \<and> length (Shards c') = length (Shards c) \<and> Groups c' = Groups c \<and> Num c' = Num c"
  using assms
proof (induction xs arbitrary: k c)
  case Nil
  then show ?case by (simp add: all_assigned_def)
next
  case (Cons x xs)
  let ?c = "assign_shard (k, x) c"
  have x: "Shards c ! k = x" "k < length (Shards c)" "drop (Suc k) (Shards c) = xs"
    using Cons.prems(3,4) by (auto simp: drop_Suc tl_drop [symmetric] nth_via_drop)
  have c: "Groups ?c = Groups c" "Num ?c = Num c" "length (Shards ?c) = length (Shards c)"
    "drop (Suc k) (Shards ?c) = xs"
    using x(3) by (auto simp: assign_shard_def)
  have "Shards ?c ! k \<in> set (map fst (Groups c))"
    using x(1,2) least_member [OF Cons.prems(1,2)] by (auto simp: assign_shard_def)
  moreover have "take k (Shards ?c) = take k (Shards c)" by (simp add: assign_shard_def)
  ultimately have "set (take (Suc k) (Shards ?c)) \<subseteq> set (map fst (Groups ?c))"
    using Cons.prems(5) x(2) c by (simp add: take_Suc_conv_app_nth)
  with Cons.IH [of ?c "Suc k"] Cons.prems c show ?case by (simp add: Let_def)
qed

lemma Rebalance_spec:
  assumes "Groups c \<noteq> []" and "length (Shards c) \<le> 256"
  shows "\<exists>c'. Rebalance c = Some c' \<and> balanced c' \<and> all_assigned c' \<and>
    length (Shards c') = length (Shards c) \<and> Groups c' = Groups c \<and> Num c' = Num c"
proof -
  have a: "all_assigned (assign_shards c)" "length (Shards (assign_shards c)) = length (Shards c)"
    "Groups (assign_shards c) = Groups c" "Num (assign_shards c) = Num c"
    using assign_fold [OF assms, of 0 "Shards c"] by (simp_all add: assign_shards_def Let_def)
  from rebalance_loop_spec [of "assign_shards c"] a assms show ?thesis
    by (cases "Groups c") (simp_all add: Rebalance_def)
qed

text \<open>
  C12: Rebalance terminates and balances: on every configuration with twelve shards and at
  least one group, the loop that moves shards from the most to the least loaded group ends,
  and the result assigns every shard to an existing group such that the loads of any two
  groups differ by at most one; the groups and the configuration number are unchanged.
\<close>

theorem Rebalance_terminates_balanced:
  assumes "Groups c \<noteq> []" and "length (Shards c) = NShards"
  shows "\<exists>c'. Rebalance c = Some c' \<and> balanced c' \<and> all_assigned c' \<and>
    length (Shards c') = NShards \<and> Groups c' = Groups c \<and> Num c' = Num c"
  using Rebalance_spec [of c] assms by (simp add: NShards_def)

theorem Rebalance_terminates_balanced_witness:
  "let c = MakeShardConfig\<lparr>Groups := [(3, [''z'']), (1, [''x'']), (2, [''y''])], Shards := 7 # replicate 11 1\<rparr>
   in \<exists>c'. Rebalance c = Some c' \<and> balanced c' \<and> all_assigned c'"
proof -
  let ?c = "MakeShardConfig\<lparr>Groups := [(3, [''z'']), (1, [''x'']), (2, [''y''])], Shards := 7 # replicate 11 1\<rparr>"
  have "Groups ?c \<noteq> []" "length (Shards ?c) = NShards" by (simp_all add: NShards_def)
  from Rebalance_terminates_balanced [OF this] show ?thesis unfolding Let_def by blast
qed

section \<open>Join and Leave\<close>










text \<open>
  A Leave that fails has nevertheless changed the configuration: the groups before the
  unknown one are already deleted when the call returns \<^verbatim>\<open>false\<close>.
\<close>

theorem Leave_false_but_changed:
  "let cfg = MakeShardConfig\<lparr>Groups := [(1, [''x'']), (2, [''y''])]\<rparr>
   in \<exists>cfg'. Leave [1, 9] cfg = Inr (cfg', False) \<and> Groups cfg' = [(2, [''y''])]"
  by (simp add: Leave_def MakeShardConfig_def)

end
