(* ===== verification/ShardGroup.thy ===== *)
theory ShardGroup
  imports RsmLayer ShardConfig
begin

text \<open>
  One replica group of the sharded store, \<^verbatim>\<open>shardkv1/shardgrp/server.go\<close> and
  \<^verbatim>\<open>shardkv1/shardgrp/shardrpc/shardrpc.go\<close>: reads and writes of the shards the group serves, and
  the three operations that move a shard (freeze, install, delete). The state machine is
  executed by the replicated state machine layer.
\<close>

section \<open>Data\<close>

datatype ShardState = Noshard | ValidShard | FrozenShard

datatype shard_gob = GKv kvtable | GShards "int \<rightharpoonup> ShardState" | GNums "int \<rightharpoonup> int"

record ShardKV =
  sk_me :: int
  sk_gid :: int
  sk_table :: kvtable
  sk_shards :: "int \<rightharpoonup> ShardState"
  sk_nums :: "int \<rightharpoonup> int"

record FreezeShardArgs =
  fa_Shard :: int
  fa_Num :: int

record FreezeShardReply =
  fr_State :: "shard_gob list"
  fr_Num :: int
  fr_Err :: Err
  fr_LeaderHint :: int

record InstallShardArgs =
  ia_Shard :: int
  ia_State :: "shard_gob list"
  ia_Num :: int

record InstallShardReply =
  ir_Err :: Err
  ir_LeaderHint :: int

record DeleteShardArgs =
  da_Shard :: int
  da_Num :: int

record DeleteShardReply =
  dr_Err :: Err
  dr_LeaderHint :: int

definition FreezeShardReply0 :: FreezeShardReply where
  "FreezeShardReply0 = \<lparr>fr_State = [], fr_Num = 0, fr_Err = ErrEmpty, fr_LeaderHint = 0\<rparr>"

definition InstallShardReply0 :: InstallShardReply where
  "InstallShardReply0 = \<lparr>ir_Err = ErrEmpty, ir_LeaderHint = 0\<rparr>"

definition DeleteShardReply0 :: DeleteShardReply where
  "DeleteShardReply0 = \<lparr>dr_Err = ErrEmpty, dr_LeaderHint = 0\<rparr>"

text \<open>Reading a missing key of a Go map gives the zero value.\<close>

definition shard_state :: "ShardKV \<Rightarrow> int \<Rightarrow> ShardState" where
  "shard_state kv shid = (case sk_shards kv shid of None \<Rightarrow> Noshard | Some s \<Rightarrow> s)"

definition shard_num :: "ShardKV \<Rightarrow> int \<Rightarrow> int" where
  "shard_num kv shid = (case sk_nums kv shid of None \<Rightarrow> 0 | Some n \<Rightarrow> n)"

definition containShardAndNoFrozen :: "ShardKV \<Rightarrow> int \<Rightarrow> bool" where
  "containShardAndNoFrozen kv shid =
     (case sk_shards kv shid of
        None \<Rightarrow> False
      | Some s \<Rightarrow> if s = Noshard \<or> s = FrozenShard then False else True)"

definition containShard :: "ShardKV \<Rightarrow> int \<Rightarrow> bool" where
  "containShard kv shid =
     (case sk_shards kv shid of None \<Rightarrow> False | Some s \<Rightarrow> if s = Noshard then False else True)"

section \<open>Reads and writes\<close>

definition doGet :: "GetArgs \<Rightarrow> ShardKV \<Rightarrow> GetReply" where
  "doGet args kv =
     (if \<not> containShardAndNoFrozen kv (Key2Shard (ga_Key args))
      then GetReply0\<lparr>gr_Err := ErrWrongGroup\<rparr>
      else case sk_table kv (ga_Key args) of
             Some vv \<Rightarrow> GetReply0\<lparr>gr_Value := Value vv, gr_Version := Version vv, gr_Err := OK\<rparr>
           | None \<Rightarrow> GetReply0\<lparr>gr_Err := ErrNoKey\<rparr>)"

definition doPut :: "PutArgs \<Rightarrow> ShardKV \<Rightarrow> ShardKV \<times> PutReply" where
  "doPut args kv =
     (if \<not> containShardAndNoFrozen kv (Key2Shard (pa_Key args))
      then (kv, PutReply0\<lparr>pr_Err := ErrWrongGroup\<rparr>)
      else let key = pa_Key args in
        case sk_table kv key of
          Some vv \<Rightarrow>
            (if Version vv = pa_Version args
             then (kv\<lparr>sk_table := (sk_table kv)(key \<mapsto>
                       \<lparr>Value = pa_Value args, Version = pa_Version args + 1\<rparr>)\<rparr>,
                   PutReply0\<lparr>pr_Err := OK\<rparr>)
             else (kv, PutReply0\<lparr>pr_Err := ErrVersion\<rparr>))
        | None \<Rightarrow>
            (if pa_Version args = 0
             then (kv\<lparr>sk_table := (sk_table kv)(key \<mapsto>
                       \<lparr>Value = pa_Value args, Version = 1\<rparr>)\<rparr>,
                   PutReply0\<lparr>pr_Err := OK\<rparr>)
             else (kv, PutReply0\<lparr>pr_Err := ErrNoKey\<rparr>)))"

section \<open>Moving shards\<close>

definition packShardData :: "ShardKV \<Rightarrow> int \<Rightarrow> shard_gob list" where
  "packShardData kv shard = [GKv (\<lambda>k. if Key2Shard k = shard then sk_table kv k else None)]"

definition unpackShardData :: "shard_gob list \<Rightarrow> ShardKV \<Rightarrow> ShardKV go" where
  "unpackShardData data kv =
     (case data of
        [] \<Rightarrow> Inr kv
      | GKv kvmap # _ \<Rightarrow> Inr (kv\<lparr>sk_table := sk_table kv ++ kvmap\<rparr>)
      | _ \<Rightarrow> Inl (Fatal ''doInstallShard: failed to decode shard state''))"

definition doFreezeShard :: "FreezeShardArgs \<Rightarrow> ShardKV \<Rightarrow> ShardKV \<times> FreezeShardReply" where
  "doFreezeShard args kv0 =
     (let shid = fa_Shard args in
      if fa_Num args < shard_num kv0 shid
      then (kv0, FreezeShardReply0\<lparr>fr_Num := shard_num kv0 shid, fr_Err := OK\<rparr>)
      else
        let kv = kv0\<lparr>sk_nums := (sk_nums kv0)(shid \<mapsto> fa_Num args)\<rparr>;
            reply = FreezeShardReply0\<lparr>fr_Num := shard_num kv shid\<rparr> in
        if shard_state kv shid = Noshard then (kv, reply\<lparr>fr_Err := ErrWrongGroup\<rparr>)
        else
          let kv1 = (if shard_state kv shid \<noteq> FrozenShard
                     then kv\<lparr>sk_shards := (sk_shards kv)(shid \<mapsto> FrozenShard)\<rparr> else kv)
          in (kv1, reply\<lparr>fr_State := packShardData kv1 shid, fr_Err := OK\<rparr>))"

definition doInstallShard :: "InstallShardArgs \<Rightarrow> ShardKV \<Rightarrow> (ShardKV \<times> InstallShardReply) go" where
  "doInstallShard args kv0 =
     (let shid = ia_Shard args in
      if ia_Num args \<le> shard_num kv0 shid then Inr (kv0, InstallShardReply0\<lparr>ir_Err := OK\<rparr>)
      else
        let kv = kv0\<lparr>sk_nums := (sk_nums kv0)(shid \<mapsto> ia_Num args)\<rparr> in
        if shard_state kv shid = FrozenShard
        then Inl (Fatal ''doInstallShard: Install a shard that is frozen'')
        else bind_go (unpackShardData (ia_State args) kv) (\<lambda>kv1.
          Inr (kv1\<lparr>sk_shards := (sk_shards kv1)(shid \<mapsto> ValidShard)\<rparr>, InstallShardReply0\<lparr>ir_Err := OK\<rparr>)))"

definition deleteShard :: "int \<Rightarrow> ShardKV \<Rightarrow> ShardKV" where
  "deleteShard shid kv = kv\<lparr>sk_table := (\<lambda>k. if Key2Shard k = shid then None else sk_table kv k)\<rparr>"

definition doDeleteShard :: "DeleteShardArgs \<Rightarrow> ShardKV \<Rightarrow> (ShardKV \<times> DeleteShardReply) go" where
  "doDeleteShard args kv0 =
     (let shid = da_Shard args in
      if da_Num args < shard_num kv0 shid then Inr (kv0, DeleteShardReply0\<lparr>dr_Err := OK\<rparr>)
      else
        let kv = kv0\<lparr>sk_nums := (sk_nums kv0)(shid \<mapsto> da_Num args)\<rparr> in
        if shard_state kv shid = Noshard then Inr (kv, DeleteShardReply0\<lparr>dr_Err := OK\<rparr>)
        else if shard_state kv shid = ValidShard
        then Inl (Fatal ''doDeleteShard: delete a valid shard'')
        else
          let kv1 = deleteShard shid kv
          in Inr (kv1\<lparr>sk_shards := (sk_shards kv1)(shid \<mapsto> Noshard)\<rparr>, DeleteShardReply0\<lparr>dr_Err := OK\<rparr>))"

section \<open>The replicated state machine\<close>

datatype shard_any = SGet GetArgs | SPut PutArgs | SInstall InstallShardArgs
  | SFreeze FreezeShardArgs | SDelete DeleteShardArgs | SOther

datatype shard_rep = SGetR GetReply | SPutR PutReply | SInstallR InstallShardReply
  | SFreezeR FreezeShardReply | SDeleteR DeleteShardReply

definition shardgrp_DoOp :: "shard_any \<Rightarrow> ShardKV \<Rightarrow> (ShardKV \<times> shard_rep) go" where
  "shardgrp_DoOp req kv = (case req of
     SGet args \<Rightarrow> Inr (kv, SGetR (doGet args kv))
   | SPut args \<Rightarrow> (let (kv', r) = doPut args kv in Inr (kv', SPutR r))
   | SInstall args \<Rightarrow> bind_go (doInstallShard args kv) (\<lambda>(kv', r). Inr (kv', SInstallR r))
   | SFreeze args \<Rightarrow> (let (kv', r) = doFreezeShard args kv in Inr (kv', SFreezeR r))
   | SDelete args \<Rightarrow> bind_go (doDeleteShard args kv) (\<lambda>(kv', r). Inr (kv', SDeleteR r))
   | SOther \<Rightarrow> Inl (Fatal ''KVServer.DoOp: req is neither GET nor PUT''))"

definition shardgrp_Snapshot :: "ShardKV \<Rightarrow> shard_gob list" where
  "shardgrp_Snapshot kv = [GKv (sk_table kv), GShards (sk_shards kv), GNums (sk_nums kv)]"

definition shardgrp_Restore :: "shard_gob list \<Rightarrow> ShardKV \<Rightarrow> ShardKV go" where
  "shardgrp_Restore data kv = (case data of
     GKv t # GShards s # GNums n # _ \<Rightarrow> Inr (kv\<lparr>sk_table := t, sk_nums := n, sk_shards := s\<rparr>)
   | _ \<Rightarrow> Inl (Fatal ''shardgrp server: Decode fail''))"

definition StartServerShardGrp :: "(shard_gob list \<Rightarrow> int) \<Rightarrow> clock \<Rightarrow> nat \<Rightarrow> int \<Rightarrow> int \<Rightarrow>
    (shard_any Op rgob, shard_gob) Persister \<Rightarrow> int \<Rightarrow> (shard_any, shard_rep, ShardKV, shard_gob) RSM go" where
  "StartServerShardGrp nbytes clk n gid i ps maxstate =
     (let kv = \<lparr>sk_me = i, sk_gid = gid, sk_table = Map.empty, sk_shards = Map.empty, sk_nums = Map.empty\<rparr> in
      bind_go (MakeRSM nbytes shardgrp_Restore clk n i ps maxstate kv) (\<lambda>rsm.
        let kv0 = sm rsm;
            kv1 = (if gid = Gid1
                   then kv0\<lparr>sk_shards := fold (\<lambda>s m. m(int s \<mapsto> ValidShard)) [0..<NShards] (sk_shards kv0)\<rparr>
                   else kv0);
            kv2 = kv1\<lparr>sk_nums := fold (\<lambda>s m. m(int s \<mapsto> 0)) [0..<NShards] (sk_nums kv1)\<rparr>
        in Inr (rsm\<lparr>sm := kv2\<rparr>)))"

section \<open>The RPC handlers\<close>

text \<open>Each handler submits its arguments and answers with what Submit returned.\<close>

definition shardgrp_Get :: "shard_rep option submitted \<Rightarrow> GetReply go" where
  "shardgrp_Get res = (case res of
     WrongLeader hint \<Rightarrow> Inr (GetReply0\<lparr>gr_Err := ErrWrongLeader, gr_LeaderHint := hint\<rparr>)
   | Done (Some (SGetR r)) \<Rightarrow> Inr r
   | Done _ \<Rightarrow> Inl (Fatal ''a GET req get a reply is not GetReply''))"

definition shardgrp_Put :: "shard_rep option submitted \<Rightarrow> PutReply go" where
  "shardgrp_Put res = (case res of
     WrongLeader hint \<Rightarrow> Inr (PutReply0\<lparr>pr_Err := ErrWrongLeader, pr_LeaderHint := hint\<rparr>)
   | Done (Some (SPutR r)) \<Rightarrow> Inr r
   | Done _ \<Rightarrow> Inl (Fatal ''a PUT req get a reply is not PutReply''))"

definition shardgrp_FreezeShard :: "shard_rep option submitted \<Rightarrow> FreezeShardReply go" where
  "shardgrp_FreezeShard res = (case res of
     WrongLeader hint \<Rightarrow> Inr (FreezeShardReply0\<lparr>fr_Err := ErrWrongLeader, fr_LeaderHint := hint\<rparr>)
   | Done (Some (SFreezeR r)) \<Rightarrow> Inr r
   | Done _ \<Rightarrow> Inl (Fatal ''a FreezeShard req get a reply is not FreezeShardReply''))"

definition shardgrp_InstallShard :: "shard_rep option submitted \<Rightarrow> InstallShardReply go" where
  "shardgrp_InstallShard res = (case res of
     WrongLeader hint \<Rightarrow> Inr (InstallShardReply0\<lparr>ir_Err := ErrWrongLeader, ir_LeaderHint := hint\<rparr>)
   | Done (Some (SInstallR r)) \<Rightarrow> Inr r
   | Done _ \<Rightarrow> Inl (Fatal ''a InstallShard req get a reply is not shardrpc.InstallShardReply''))"

definition shardgrp_DeleteShard :: "shard_rep option submitted \<Rightarrow> DeleteShardReply go" where
  "shardgrp_DeleteShard res = (case res of
     WrongLeader hint \<Rightarrow> Inr (DeleteShardReply0\<lparr>dr_Err := ErrWrongLeader, dr_LeaderHint := hint\<rparr>)
   | Done (Some (SDeleteR r)) \<Rightarrow> Inr r
   | Done _ \<Rightarrow> Inl (Fatal ''a DeleteShard req get a reply is not DeleteShardReply''))"

section \<open>The contracts\<close>

interpretation shard_store: versioned_store sk_table "\<lambda>kv k. containShardAndNoFrozen kv (Key2Shard k)" doGet doPut
  by unfold_locales
     (auto simp: doGet_def doPut_def current_version_def containShardAndNoFrozen_def Let_def fun_eq_iff
       split: option.splits)

lemma pack_frame [simp]:
  "packShardData (kv\<lparr>sk_nums := n\<rparr>) = packShardData kv"
  "packShardData (kv\<lparr>sk_shards := m\<rparr>) = packShardData kv"
  "packShardData (kv\<lparr>sk_me := i\<rparr>) = packShardData kv"
  "packShardData (kv\<lparr>sk_gid := g\<rparr>) = packShardData kv"
  by (simp_all add: packShardData_def fun_eq_iff cong: if_cong)

lemma shard_fields_eq:
  assumes "(sk_table s, sk_shards s, sk_nums s) = (sk_table t, sk_shards t, sk_nums t)"
  shows "shard_state s = shard_state t" "shard_num s = shard_num t"
    "containShardAndNoFrozen s = containShardAndNoFrozen t" "sk_table s = sk_table t"
    "packShardData s = packShardData t"
  using assms by (auto simp: shard_state_def shard_num_def containShardAndNoFrozen_def packShardData_def fun_eq_iff)

interpretation shard_sm: state_machine shardgrp_DoOp shardgrp_Snapshot shardgrp_Restore
  "\<lambda>kv. (sk_table kv, sk_shards kv, sk_nums kv)"
proof unfold_locales
  fix s t :: ShardKV and q s' r
  assume eq: "(sk_table s, sk_shards s, sk_nums s) = (sk_table t, sk_shards t, sk_nums t)"
    and d: "shardgrp_DoOp q s = Inr (s', r)"
  have t: "t = s\<lparr>sk_me := sk_me t, sk_gid := sk_gid t\<rparr>" using eq by (cases s; cases t) simp
  have "\<exists>t'. shardgrp_DoOp q (s\<lparr>sk_me := m, sk_gid := g\<rparr>) = Inr (t', r) \<and>
      t' = s'\<lparr>sk_me := m, sk_gid := g\<rparr>" for m g
    using d
    by (cases q)
       (auto simp: shardgrp_DoOp_def doGet_def doPut_def doFreezeShard_def doInstallShard_def doDeleteShard_def
         unpackShardData_def deleteShard_def containShardAndNoFrozen_def shard_state_def
         shard_num_def Let_def cong: if_cong split: option.splits if_splits list.splits shard_gob.splits prod.splits)
  with t have "shardgrp_DoOp q t = Inr (s'\<lparr>sk_me := sk_me t, sk_gid := sk_gid t\<rparr>, r)" by metis
  then show "\<exists>t'. shardgrp_DoOp q t = Inr (t', r) \<and>
      (sk_table t', sk_shards t', sk_nums t') = (sk_table s', sk_shards s', sk_nums s')" by auto
qed (auto simp: shardgrp_Snapshot_def shardgrp_Restore_def)

section \<open>The operations on one shard\<close>

named_theorems shard_defs \<open>the shard operations and the map reads they use\<close>

lemmas [shard_defs] = doFreezeShard_def doInstallShard_def doDeleteShard_def unpackShardData_def
  deleteShard_def shard_state_def shard_num_def containShardAndNoFrozen_def Let_def

text \<open>The part of a table that belongs to a shard.\<close>

definition shard_part :: "int \<Rightarrow> kvtable \<Rightarrow> kvtable" where
  "shard_part shid t = (\<lambda>k. if Key2Shard k = shid then t k else None)"

lemma pack_part: "packShardData kv shid = [GKv (shard_part shid (sk_table kv))]"
  by (simp add: packShardData_def shard_part_def)

lemma serves_iff: "containShardAndNoFrozen kv shid \<longleftrightarrow> shard_state kv shid = ValidShard"
  by (auto simp: containShardAndNoFrozen_def shard_state_def split: option.splits ShardState.splits)
     (metis ShardState.exhaust)

lemma freeze_effect:
  assumes "shard_num kv shid \<le> n" and "shard_state kv shid \<noteq> Noshard"
    and "doFreezeShard \<lparr>fa_Shard = shid, fa_Num = n\<rparr> kv = (kv', r)"
  shows "fr_Err r = OK" and "fr_State r = [GKv (shard_part shid (sk_table kv))]"
    and "sk_table kv' = sk_table kv" and "shard_state kv' = (shard_state kv)(shid := FrozenShard)"
    and "shard_num kv' = (shard_num kv)(shid := n)"
  using assms
  by (auto simp: shard_defs pack_part FreezeShardReply0_def fun_eq_iff split: option.splits if_splits)

lemma install_effect:
  assumes "shard_num kv shid < n" and "shard_state kv shid \<noteq> FrozenShard"
  obtains kv' where "doInstallShard \<lparr>ia_Shard = shid, ia_State = [GKv t], ia_Num = n\<rparr> kv =
      Inr (kv', InstallShardReply0\<lparr>ir_Err := OK\<rparr>)"
    and "sk_table kv' = sk_table kv ++ t" and "shard_state kv' = (shard_state kv)(shid := ValidShard)"
    and "shard_num kv' = (shard_num kv)(shid := n)"
  using assms
  by (auto simp: shard_defs fun_eq_iff split: option.splits)

lemma delete_effect:
  assumes "shard_num kv shid \<le> n" and "shard_state kv shid = FrozenShard"
  obtains kv' where "doDeleteShard \<lparr>da_Shard = shid, da_Num = n\<rparr> kv = Inr (kv', DeleteShardReply0\<lparr>dr_Err := OK\<rparr>)"
    and "sk_table kv' = (\<lambda>k. if Key2Shard k = shid then None else sk_table kv k)"
    and "shard_state kv' = (shard_state kv)(shid := Noshard)"
    and "shard_num kv' = (shard_num kv)(shid := n)"
  using assms
  by (auto simp: shard_defs fun_eq_iff cong: if_cong split: option.splits)

text \<open>A repeated request, as a clerk sends it when the reply was lost, changes nothing.\<close>

lemma freeze_again:
  assumes "shard_num kv shid \<le> n" and "doFreezeShard \<lparr>fa_Shard = shid, fa_Num = n\<rparr> kv = (kv', r)"
  shows "doFreezeShard \<lparr>fa_Shard = shid, fa_Num = n\<rparr> kv' = (kv', r)"
  using assms
  by (auto simp: doFreezeShard_def shard_state_def shard_num_def Let_def split: option.splits if_splits)

lemma install_again:
  assumes "doInstallShard \<lparr>ia_Shard = shid, ia_State = d, ia_Num = n\<rparr> kv = Inr (kv', r)"
  shows "doInstallShard \<lparr>ia_Shard = shid, ia_State = d, ia_Num = n\<rparr> kv' = Inr (kv', r)"
  using assms
  by (auto simp: shard_defs split: option.splits if_splits list.splits shard_gob.splits)

lemma delete_again:
  assumes "doDeleteShard \<lparr>da_Shard = shid, da_Num = n\<rparr> kv = Inr (kv', r)"
  shows "doDeleteShard \<lparr>da_Shard = shid, da_Num = n\<rparr> kv' = Inr (kv', r)"
  using assms
  by (auto simp: shard_defs split: option.splits if_splits)

text \<open>
  Retried shard operations are harmless: when a clerk repeats a Freeze (not older than
  the shard's number), an Install or a Delete because the reply was lost, the group's state
  does not change any further and the answer, including the frozen data, is the same.
\<close>

theorem shard_operations_idempotent:
  assumes "shard_num kv shid \<le> n"
  shows "(doFreezeShard \<lparr>fa_Shard = shid, fa_Num = n\<rparr> kv = (kv1, r1) \<longrightarrow>
      doFreezeShard \<lparr>fa_Shard = shid, fa_Num = n\<rparr> kv1 = (kv1, r1)) \<and>
    (doInstallShard \<lparr>ia_Shard = shid, ia_State = d, ia_Num = n\<rparr> kv = Inr (kv2, r2) \<longrightarrow>
      doInstallShard \<lparr>ia_Shard = shid, ia_State = d, ia_Num = n\<rparr> kv2 = Inr (kv2, r2)) \<and>
    (doDeleteShard \<lparr>da_Shard = shid, da_Num = n\<rparr> kv = Inr (kv3, r3) \<longrightarrow>
      doDeleteShard \<lparr>da_Shard = shid, da_Num = n\<rparr> kv3 = Inr (kv3, r3))"
  using freeze_again [OF assms] install_again delete_again by blast

text \<open>A group that holds one key and its shard.\<close>

definition demo_group :: ShardKV where
  "demo_group = \<lparr>sk_me = 0, sk_gid = 1, sk_table = [''a'' \<mapsto> \<lparr>Value = ''v'', Version = 1\<rparr>],
     sk_shards = [Key2Shard ''a'' \<mapsto> ValidShard], sk_nums = [Key2Shard ''a'' \<mapsto> 1]\<rparr>"

theorem shard_operations_idempotent_witness:
  "let sh = Key2Shard ''a''; r = doFreezeShard \<lparr>fa_Shard = sh, fa_Num = 2\<rparr> demo_group
   in doFreezeShard \<lparr>fa_Shard = sh, fa_Num = 2\<rparr> (fst r) = r \<and> shard_state (fst r) sh = FrozenShard"
proof -
  let ?sh = "Key2Shard ''a''" and ?r = "doFreezeShard \<lparr>fa_Shard = Key2Shard ''a'', fa_Num = 2\<rparr> demo_group"
  have n: "shard_num demo_group ?sh \<le> 2" and s: "shard_state demo_group ?sh \<noteq> Noshard"
    by (simp_all add: demo_group_def shard_num_def shard_state_def)
  have "doFreezeShard \<lparr>fa_Shard = ?sh, fa_Num = 2\<rparr> (fst ?r) = (fst ?r, snd ?r)"
    using shard_operations_idempotent [OF n, of "fst ?r" "snd ?r"] by simp
  moreover have "shard_state (fst ?r) ?sh = FrozenShard"
    using freeze_effect(4) [OF n s, of "fst ?r" "snd ?r"] by simp
  ultimately show ?thesis by (simp add: Let_def)
qed

lemma fold_upd:
  "fold (\<lambda>s m. m(int s \<mapsto> v)) xs m k = (if k \<in> int ` set xs then Some v else m k)"
  by (induction xs arbitrary: m) auto

text \<open>
  A restarted server forgets which shards it has given away. \<^verbatim>\<open>StartServerShardGrp\<close> sets
  the shard tables after \<^verbatim>\<open>MakeRSM\<close> has restored the snapshot: whatever the snapshot says, a
  restarted server of group 1 considers all twelve shards valid and every shard number to be
  zero, until log entries after the snapshot say otherwise.
\<close>

theorem restart_overwrites_shard_tables:
  assumes "StartServerShardGrp nbytes clk n Gid1 i ps maxstate = Inr rsm" and "0 \<le> sh" and "sh < 12"
  shows "shard_state (sm rsm) sh = ValidShard \<and> shard_num (sm rsm) sh = 0"
proof -
  have "sh \<in> int ` set [0..<NShards]"
    using assms(2,3) by (auto simp: NShards_def image_iff intro!: bexI [of _ "nat sh"])
  with assms(1) show ?thesis
    by (auto simp: StartServerShardGrp_def Let_def shard_state_def shard_num_def fold_upd)
qed

theorem restart_overwrites_shard_tables_witness:
  "let ps = MakePersister\<lparr>p_snapshot := [GKv Map.empty, GShards [3 \<mapsto> Noshard], GNums [3 \<mapsto> 7]]\<rparr>;
       rsm = projr (StartServerShardGrp (\<lambda>b. int (length b)) demo_clock 3 Gid1 0 ps (- 1))
   in returns (StartServerShardGrp (\<lambda>b. int (length b)) demo_clock 3 Gid1 0 ps (- 1)) \<and>
      shard_state (sm rsm) 3 = ValidShard \<and> shard_num (sm rsm) 3 = 0"
proof -
  let ?ps = "MakePersister\<lparr>p_snapshot := [GKv Map.empty, GShards [3 \<mapsto> Noshard], GNums [3 \<mapsto> 7]]\<rparr>"
  let ?m = "StartServerShardGrp (\<lambda>b. int (length b)) demo_clock 3 Gid1 0 ?ps (- 1)"
  have r: "returns ?m"
    by (simp add: StartServerShardGrp_def MakeRSM_def SnapshotSize_def ReadSnapshot_def clone_def
        shardgrp_Restore_def Let_def)
  then have "?m = Inr (projr ?m)" by (auto simp: returns_iff)
  from restart_overwrites_shard_tables [OF this, of 3] r show ?thesis by (simp add: Let_def)
qed

end
