(* ===== verification/ShardControl.thy ===== *)
theory ShardControl
  imports ShardGroup KvClerk
begin

text \<open>
  The clerk of a replica group (\<^verbatim>\<open>shardkv1/shardgrp/client.go\<close>), the controller
  (\<^verbatim>\<open>shardkv1/shardctrler/shardctrler.go\<close>) that moves shards between groups and records
  configurations in a single-server store, and the client of the whole service
  (\<^verbatim>\<open>shardkv1/client.go\<close>).
\<close>

section \<open>The clerk of a group\<close>

text \<open>
  The retry loop of FreezeShard, InstallShard and DeleteShard: \<open>op\<close> is the effect and the
  reply of the operation on the group's state machine, and the list says what happens to
  each call, as for the replicated clerk, with the draw of \<^verbatim>\<open>rand.Intn\<close>. The reply variable is
  fresh in every round, so a hint is followed as it comes.
\<close>

type_synonym shard_call = "raft_outcome \<times> nat"

definition exec_if :: "bool \<Rightarrow> ('s \<Rightarrow> ('s \<times> 'r) go) \<Rightarrow> 's \<Rightarrow> 's go" where
  "exec_if ex op kv = (if ex then bind_go (op kv) (\<lambda>(kv', _). Inr kv') else Inr kv)"

fun shard_clerk :: "('s \<Rightarrow> ('s \<times> 'r) go) \<Rightarrow> shard_call list \<Rightarrow> Clerk \<Rightarrow> 's \<Rightarrow> (Clerk \<times> 's \<times> 'r option) go" where
  "shard_clerk op [] ck kv = Inr (ck, kv, None)"
| "shard_clerk op ((out, d) # env) ck kv =
     (if \<not> (0 \<le> ck_leader ck \<and> ck_leader ck < int (ck_nservers ck))
      then Inl (Panic ''index out of range'')
      else case out of
        NoAnswer ex \<Rightarrow> bind_go (exec_if ex op kv) (shard_clerk op env (random_server d ck))
      | NotLeader hint ex \<Rightarrow> bind_go (exec_if ex op kv) (shard_clerk op env (follow_hint hint d ck))
      | Answered \<Rightarrow> bind_go (op kv) (\<lambda>(kv', r). Inr (ck, kv', Some r)))"

definition Clerk_FreezeShard :: "Clerk \<Rightarrow> shard_call list \<Rightarrow> int \<Rightarrow> int \<Rightarrow> ShardKV \<Rightarrow>
    (Clerk \<times> ShardKV \<times> (shard_gob list \<times> Err) option) go" where
  "Clerk_FreezeShard ck env s num kv =
     bind_go (shard_clerk (\<lambda>kv. Inr (doFreezeShard \<lparr>fa_Shard = s, fa_Num = num\<rparr> kv)) env ck kv)
       (\<lambda>(ck', kv', r). case r of
          None \<Rightarrow> Inr (ck', kv', None)
        | Some reply \<Rightarrow>
            if fr_Err reply = OK \<or> fr_Err reply = ErrWrongGroup
            then Inr (ck', kv', Some (fr_State reply, fr_Err reply))
            else Inl (Fatal ''client FreezeShard: unknown reply type''))"

definition Clerk_InstallShard :: "Clerk \<Rightarrow> shard_call list \<Rightarrow> int \<Rightarrow> shard_gob list \<Rightarrow> int \<Rightarrow> ShardKV \<Rightarrow>
    (Clerk \<times> ShardKV \<times> Err option) go" where
  "Clerk_InstallShard ck env s st num kv =
     bind_go (shard_clerk (doInstallShard \<lparr>ia_Shard = s, ia_State = st, ia_Num = num\<rparr>) env ck kv)
       (\<lambda>(ck', kv', r). case r of
          None \<Rightarrow> Inr (ck', kv', None)
        | Some reply \<Rightarrow>
            if ir_Err reply = OK \<or> ir_Err reply = ErrWrongGroup then Inr (ck', kv', Some (ir_Err reply))
            else Inl (Fatal ''client InstallShard: unknown reply type''))"

definition Clerk_DeleteShard :: "Clerk \<Rightarrow> shard_call list \<Rightarrow> int \<Rightarrow> int \<Rightarrow> ShardKV \<Rightarrow>
    (Clerk \<times> ShardKV \<times> Err option) go" where
  "Clerk_DeleteShard ck env s num kv =
     bind_go (shard_clerk (doDeleteShard \<lparr>da_Shard = s, da_Num = num\<rparr>) env ck kv)
       (\<lambda>(ck', kv', r). case r of
          None \<Rightarrow> Inr (ck', kv', None)
        | Some reply \<Rightarrow>
            if dr_Err reply = OK \<or> dr_Err reply = ErrWrongGroup then Inr (ck', kv', Some (dr_Err reply))
            else Inl (Fatal ''client DeleteShard: unknown reply type''))"

section \<open>The controller\<close>

text \<open>
  The state of the groups by group identifier. A controller works while clients do not
  interfere with the shards it moves; what it does to one shard is one step here.
\<close>

type_synonym groups = "int \<Rightarrow> ShardKV"

text \<open>What happens to the calls for one shard: Freeze, Install and Delete.\<close>

record shard_env =
  env_freeze :: "shard_call list"
  env_install :: "shard_call list"
  env_delete :: "shard_call list"

text \<open>
  The groups and the clerks after the calls, and whether the code came to its end: \<open>False\<close> when
  a clerk is still retrying, or when the controller has been cut off there.
\<close>

definition move_shard :: "shard_env \<Rightarrow> int \<Rightarrow> int \<Rightarrow> int \<Rightarrow> int \<Rightarrow> Clerk \<times> Clerk \<Rightarrow> groups \<Rightarrow>
    ((groups \<times> Clerk \<times> Clerk) \<times> bool) go" where
  "move_shard env curGid newGid shid num cks w =
     bind_go (Clerk_FreezeShard (fst cks) (env_freeze env) shid num (w curGid)) (\<lambda>(ck1, kv1, r1).
     let w1 = w(curGid := kv1) in
     case r1 of None \<Rightarrow> Inr ((w1, ck1, snd cks), False) | Some (data, _) \<Rightarrow>
       bind_go (Clerk_InstallShard (snd cks) (env_install env) shid data num (w1 newGid)) (\<lambda>(ck2, kv2, r2).
       let w2 = w1(newGid := kv2) in
       case r2 of None \<Rightarrow> Inr ((w2, ck1, ck2), False) | Some _ \<Rightarrow>
         bind_go (Clerk_DeleteShard ck1 (env_delete env) shid num (w2 curGid)) (\<lambda>(ck3, kv3, r3).
           Inr ((w2(curGid := kv3), ck3, ck2), r3 \<noteq> None))))"

text \<open>
  The state of the loop of \<^verbatim>\<open>changConfig\<close>: the groups, and the maps \<^verbatim>\<open>clients2Cur\<close> and
  \<^verbatim>\<open>clients2New\<close> of clerks already made.
\<close>

record change_state =
  cs_groups :: groups
  clients2Cur :: "int \<rightharpoonup> Clerk"
  clients2New :: "int \<rightharpoonup> Clerk"

definition clerk_for :: "(int \<rightharpoonup> Clerk) \<Rightarrow> int \<Rightarrow> string list \<Rightarrow> Clerk" where
  "clerk_for m gid servers = (case m gid of None \<Rightarrow> MakeClerk (length servers) | Some ck \<Rightarrow> ck)"

text \<open>One iteration, for shard \<open>shid\<close>.\<close>

definition change_shard :: "(int \<Rightarrow> shard_env) \<Rightarrow> ShardConfig \<Rightarrow> ShardConfig \<Rightarrow> int \<Rightarrow> change_state \<Rightarrow>
    (change_state \<times> bool) go" where
  "change_shard envs cur new shid st =
     bind_go (GidServers shid cur) (\<lambda>(curGid, curServers, _).
     bind_go (GidServers shid new) (\<lambda>(newGid, newServers, _).
       if curGid \<noteq> newGid \<or> curServers \<noteq> newServers
       then bind_go (move_shard (envs shid) curGid newGid shid (Num new)
               (clerk_for (clients2Cur st) curGid curServers, clerk_for (clients2New st) newGid newServers) (cs_groups st))
             (\<lambda>((w, ckc, ckn), completed).
               Inr (\<lparr>cs_groups = w, clients2Cur = (clients2Cur st)(curGid \<mapsto> ckc),
                     clients2New = (clients2New st)(newGid \<mapsto> ckn)\<rparr>, completed))
       else Inr (st, True)))"

fun change_shards :: "(int \<Rightarrow> shard_env) \<Rightarrow> ShardConfig \<Rightarrow> ShardConfig \<Rightarrow> int list \<Rightarrow> change_state \<Rightarrow>
    (change_state \<times> bool) go" where
  "change_shards envs cur new [] st = Inr (st, True)"
| "change_shards envs cur new (shid # rest) st =
     bind_go (change_shard envs cur new shid st) (\<lambda>(st', completed).
        if completed then change_shards envs cur new rest st' else Inr (st', False))"

definition changConfig :: "(int \<Rightarrow> shard_env) \<Rightarrow> ShardConfig \<Rightarrow> ShardConfig \<Rightarrow> groups \<Rightarrow> (groups \<times> bool) go" where
  "changConfig envs cur new w =
     bind_go (change_shards envs cur new (map int [0..<NShards])
               \<lparr>cs_groups = w, clients2Cur = Map.empty, clients2New = Map.empty\<rparr>)
       (\<lambda>(st, completed). Inr (cs_groups st, completed))"

text \<open>
  The configuration store, where \<open>None\<close> means that a call is still being retried. \<open>enc\<close> and \<open>dec\<close> stand for the JSON encoding of a configuration
  (\<^verbatim>\<open>String\<close> and \<^verbatim>\<open>FromString\<close>); a Put and a Get of the controller go through the
  single-server clerk, so they carry the rounds of its loops.
\<close>

definition CurConfigKey :: string where
  "CurConfigKey = ''CurConfig''"

definition NewConfigKey :: string where
  "NewConfigKey = ''NewConfig''"

definition putOnce :: "rnd_put list \<Rightarrow> rnd_put list \<Rightarrow> string \<Rightarrow> string \<Rightarrow> Tversion \<Rightarrow> KVServer \<Rightarrow>
    (KVServer \<times> bool option) go" where
  "putOnce env1 env2 key val ver kv =
     bind_go (Clerk_Put KVServer_Put \<lparr>pa_Key = key, pa_Value = val, pa_Version = ver\<rparr> env1 kv) (\<lambda>((kv1, _), r).
     case r of
       None \<Rightarrow> Inr (kv1, None)
     | Some ErrMaybe \<Rightarrow>
         (case Clerk_Get KVServer_Put KVServer_Get \<lparr>ga_Key = key\<rparr> env2 kv1 of
            (kv2, None) \<Rightarrow> Inr (kv2, None)
          | (kv2, Some (v, w, err)) \<Rightarrow> Inr (kv2, Some (err = OK \<and> v = val \<and> w = ver)))
     | Some OK \<Rightarrow> Inr (kv1, Some True)
     | Some ErrVersion \<Rightarrow> Inr (kv1, Some False)
     | Some _ \<Rightarrow> Inl (Fatal ''ShardCtrler putOnce: Unkonwn error type''))"

definition InitConfig :: "(ShardConfig \<Rightarrow> string) \<Rightarrow> rnd_put list \<times> rnd_put list \<Rightarrow> ShardConfig \<Rightarrow> KVServer \<Rightarrow>
    (KVServer \<times> bool) go" where
  "InitConfig enc e cfg kv =
     bind_go (putOnce (fst e) (snd e) CurConfigKey (enc cfg) 0 kv) (\<lambda>(kv', r). case r of
        None \<Rightarrow> Inr (kv', False)
      | Some ok \<Rightarrow> if ok then Inr (kv', True) else Inl (Fatal ''ShardCtrler InitConfig(): Put fail''))"

text \<open>
  The remaining operations read the store once its answer arrives: \<open>read_cfg\<close> is what the
  clerk's Get returns. The result of a change says, besides the store and the groups,
  whether the code came to its end.
\<close>

definition read_cfg :: "string \<Rightarrow> KVServer \<Rightarrow> string \<times> Tversion \<times> Err" where
  "read_cfg key kv = (let r = KVServer_Get \<lparr>ga_Key = key\<rparr> kv in (gr_Value r, gr_Version r, gr_Err r))"

definition Query :: "(string \<Rightarrow> ShardConfig) \<Rightarrow> KVServer \<Rightarrow> ShardConfig go" where
  "Query dec kv = (case read_cfg CurConfigKey kv of (s, _, err) \<Rightarrow>
     if err = ErrNoKey then Inl (Fatal ''cur config not found'') else Inr (dec s))"

text \<open>The last two statements of \<^verbatim>\<open>ChangeConfigTo\<close> and \<^verbatim>\<open>doRecovery\<close>: move the shards, record it.\<close>

definition commit_change :: "(int \<Rightarrow> shard_env) \<Rightarrow> rnd_put list \<times> rnd_put list \<Rightarrow> ShardConfig \<Rightarrow> ShardConfig \<Rightarrow>
    string \<Rightarrow> Tversion \<Rightarrow> KVServer \<Rightarrow> groups \<Rightarrow> (KVServer \<times> groups \<times> bool) go" where
  "commit_change envs e curConfig newConfig newConfigStr curVer kv w =
     bind_go (changConfig envs curConfig newConfig w) (\<lambda>(w1, completed).
       if \<not> completed then Inr (kv, w1, False)
       else bind_go (putOnce (fst e) (snd e) CurConfigKey newConfigStr curVer kv)
              (\<lambda>(kv2, r2). Inr (kv2, w1, r2 \<noteq> None)))"

definition ChangeConfigTo :: "(ShardConfig \<Rightarrow> string) \<Rightarrow> (string \<Rightarrow> ShardConfig) \<Rightarrow> (int \<Rightarrow> shard_env) \<Rightarrow>
    rnd_put list \<times> rnd_put list \<Rightarrow> rnd_put list \<times> rnd_put list \<Rightarrow> ShardConfig \<Rightarrow> KVServer \<Rightarrow> groups \<Rightarrow>
    (KVServer \<times> groups \<times> bool) go" where
  "ChangeConfigTo enc dec envs e1 e2 newConfig kv w =
     (case read_cfg CurConfigKey kv of (curConfigStr, curVer, err) \<Rightarrow>
      if err = ErrNoKey then Inl (Fatal ''cur config not found'')
      else let curConfig = dec curConfigStr in
        if Num newConfig \<le> Num curConfig then Inr (kv, w, True)
        else bind_go (putOnce (fst e1) (snd e1) NewConfigKey (enc newConfig) (curVer - 1) kv) (\<lambda>(kv1, r).
          case r of
            None \<Rightarrow> Inr (kv1, w, False)
          | Some ok \<Rightarrow>
              if \<not> ok then Inr (kv1, w, True)
              else commit_change envs e2 curConfig newConfig (enc newConfig) curVer kv1 w))"

definition doRecovery :: "(string \<Rightarrow> ShardConfig) \<Rightarrow> (int \<Rightarrow> shard_env) \<Rightarrow>
    rnd_put list \<times> rnd_put list \<Rightarrow> KVServer \<Rightarrow> groups \<Rightarrow> (KVServer \<times> groups \<times> bool) go" where
  "doRecovery dec envs e kv w =
     (case read_cfg CurConfigKey kv of (curConfigStr, curVer, err) \<Rightarrow>
      if err = ErrNoKey then Inl (Fatal ''cur config not found'')
      else let curConfig = dec curConfigStr in
        case read_cfg NewConfigKey kv of (newConfigStr, newVer, err2) \<Rightarrow>
          if err2 = ErrNoKey then Inr (kv, w, True)
          else let newConfig = dec newConfigStr in
            if curVer - newVer = 1 \<and> Num curConfig = Num newConfig then Inr (kv, w, True)
            else if curVer - newVer \<noteq> 1 \<and> curVer - newVer \<noteq> 0
            then Inl (Fatal ''invalid config state'')
            else commit_change envs e curConfig newConfig newConfigStr curVer kv w)"

definition InitController :: "(string \<Rightarrow> ShardConfig) \<Rightarrow> (int \<Rightarrow> shard_env) \<Rightarrow>
    rnd_put list \<times> rnd_put list \<Rightarrow> KVServer \<Rightarrow> groups \<Rightarrow> (KVServer \<times> groups \<times> bool) go" where
  "InitController dec envs e kv w = doRecovery dec envs e kv w"

section \<open>A clerk loop over an idempotent operation\<close>

text \<open>
  A clerk of a group with \<open>n\<close> servers, and rounds whose leader hints name servers of the
  group or nobody.
\<close>

definition clerk_ok :: "nat \<Rightarrow> Clerk \<Rightarrow> bool" where
  "clerk_ok n ck \<longleftrightarrow> ck_nservers ck = n \<and> 0 \<le> ck_leader ck \<and> ck_leader ck < int n"

definition hints_ok :: "nat \<Rightarrow> shard_call list \<Rightarrow> bool" where
  "hints_ok n env = list_all (\<lambda>(out, _). case out of NotLeader hint _ \<Rightarrow> hint < int n | _ \<Rightarrow> True) env"

definition gets_answer :: "shard_call list \<Rightarrow> bool" where
  "gets_answer env = list_ex (\<lambda>(out, _). out = Answered) env"

lemma clerk_moves [simp]:
  "clerk_ok n ck \<Longrightarrow> clerk_ok n (random_server d ck)"
  "clerk_ok n ck \<Longrightarrow> hint < int n \<Longrightarrow> clerk_ok n (follow_hint hint d ck)"
  by (auto simp: clerk_ok_def random_server_def follow_hint_def)

lemma shard_clerk_idempotent:
  assumes "clerk_ok n ck" and "hints_ok n env" and "op kv = Inr (kv', r)" and "op kv' = Inr (kv', r)"
  shows "\<exists>ck'. clerk_ok n ck' \<and> (shard_clerk op env ck kv = Inr (ck', kv', Some r) \<or>
    \<not> gets_answer env \<and> (\<exists>x \<in> {kv, kv'}. shard_clerk op env ck kv = Inr (ck', x, None)))"
proof -
  have "\<forall>z \<in> {kv, kv'}. \<exists>ck'. clerk_ok n ck' \<and> (shard_clerk op env ck z = Inr (ck', kv', Some r) \<or>
      \<not> gets_answer env \<and> (\<exists>x \<in> {kv, kv'}. shard_clerk op env ck z = Inr (ck', x, None)))"
    using assms(1,2)
  proof (induction env arbitrary: ck)
    case (Cons rd env)
    obtain out d where rd: "rd = (out, d)" by (cases rd)
    have h: "hints_ok n env" using Cons.prems by (simp add: hints_ok_def)
    have l: "0 \<le> ck_leader ck" "ck_leader ck < int (ck_nservers ck)" using Cons.prems by (auto simp: clerk_ok_def)
    show ?case
    proof (cases out)
      case (NoAnswer ex)
      then show ?thesis
        using rd l assms(3,4) Cons.IH [of "random_server d ck", OF _ h] Cons.prems(1)
        by (cases ex) (simp_all add: exec_if_def gets_answer_def)
    next
      case (NotLeader hint ex)
      then have "hint < int n" using rd Cons.prems(2) by (simp add: hints_ok_def)
      then show ?thesis
        using NotLeader rd l assms(3,4) Cons.IH [of "follow_hint hint d ck", OF _ h] Cons.prems(1)
        by (cases ex) (simp_all add: exec_if_def gets_answer_def)
    next
      case Answered
      then show ?thesis using rd l assms(3,4) Cons.prems(1) by auto
    qed
  qed (auto simp: gets_answer_def)
  then show ?thesis by blast
qed

lemma freeze_call:
  assumes "clerk_ok n ck" and "hints_ok n env" and "shard_num kv shid \<le> num"
    and f: "doFreezeShard \<lparr>fa_Shard = shid, fa_Num = num\<rparr> kv = (kv', r)"
  obtains (completed) ck' where "Clerk_FreezeShard ck env shid num kv = Inr (ck', kv', Some (fr_State r, fr_Err r))"
      "clerk_ok n ck'"
  | (cut) ck' x where "Clerk_FreezeShard ck env shid num kv = Inr (ck', x, None)" "clerk_ok n ck'"
      "x \<in> {kv, kv'}" "\<not> gets_answer env"
proof -
  have "fr_Err r = OK \<or> fr_Err r = ErrWrongGroup"
    using f by (auto simp: doFreezeShard_def FreezeShardReply0_def Let_def split: if_splits)
  then show thesis
    using that shard_clerk_idempotent [OF assms(1,2), of "\<lambda>kv. Inr (doFreezeShard \<lparr>fa_Shard = shid, fa_Num = num\<rparr> kv)"
        kv kv' r] f freeze_again [OF assms(3) f]
    by (auto simp: Clerk_FreezeShard_def)
qed

lemma install_call:
  assumes "clerk_ok n ck" and "hints_ok n env"
    and i: "doInstallShard \<lparr>ia_Shard = shid, ia_State = d, ia_Num = num\<rparr> kv = Inr (kv', InstallShardReply0\<lparr>ir_Err := OK\<rparr>)"
  obtains (completed) ck' where "Clerk_InstallShard ck env shid d num kv = Inr (ck', kv', Some OK)" "clerk_ok n ck'"
  | (cut) ck' x where "Clerk_InstallShard ck env shid d num kv = Inr (ck', x, None)" "clerk_ok n ck'"
      "x \<in> {kv, kv'}" "\<not> gets_answer env"
  using that shard_clerk_idempotent [OF assms(1,2) i install_again [OF i]]
  by (auto simp: Clerk_InstallShard_def InstallShardReply0_def)

lemma delete_call:
  assumes "clerk_ok n ck" and "hints_ok n env"
    and d: "doDeleteShard \<lparr>da_Shard = shid, da_Num = num\<rparr> kv = Inr (kv', DeleteShardReply0\<lparr>dr_Err := OK\<rparr>)"
  obtains (completed) ck' where "Clerk_DeleteShard ck env shid num kv = Inr (ck', kv', Some OK)" "clerk_ok n ck'"
  | (cut) ck' x where "Clerk_DeleteShard ck env shid num kv = Inr (ck', x, None)" "clerk_ok n ck'"
      "x \<in> {kv, kv'}" "\<not> gets_answer env"
  using that shard_clerk_idempotent [OF assms(1,2) d delete_again [OF d]]
  by (auto simp: Clerk_DeleteShard_def DeleteShardReply0_def)

section \<open>Where a shard is during a configuration change\<close>

text \<open>The group of a shard; shard numbers of a configuration run from 0 to 11.\<close>

definition gid_of :: "ShardConfig \<Rightarrow> int \<Rightarrow> int" where
  "gid_of cfg shid = Shards cfg ! nat shid"

definition holds :: "int \<Rightarrow> kvtable \<Rightarrow> ShardKV \<Rightarrow> bool" where
  "holds shid t kv \<longleftrightarrow> shard_part shid (sk_table kv) = shard_part shid t"

definition absent :: "int \<Rightarrow> ShardKV \<Rightarrow> bool" where
  "absent shid kv \<longleftrightarrow> shard_state kv shid = Noshard \<and> holds shid Map.empty kv"

text \<open>
  At rest, with contents \<open>t\<close>: exactly the group of the configuration serves the shard, no
  other group has any of it.
\<close>

definition home_shard :: "ShardConfig \<Rightarrow> kvtable \<Rightarrow> groups \<Rightarrow> int \<Rightarrow> bool" where
  "home_shard cfg t w shid \<longleftrightarrow>
     shard_state (w (gid_of cfg shid)) shid = ValidShard \<and> holds shid t (w (gid_of cfg shid)) \<and>
     (\<forall>i. i \<noteq> gid_of cfg shid \<longrightarrow> absent shid (w i)) \<and> (\<forall>i. shard_num (w i) shid \<le> Num cfg)"

text \<open>
  Between the groups \<open>g\<close> and \<open>h\<close>: not yet installed at \<open>h\<close> (served or frozen at \<open>g\<close>), or
  installed at \<open>h\<close> while \<open>g\<close> has a frozen copy left or nothing any more.
\<close>

definition on_way :: "int \<Rightarrow> int \<Rightarrow> int \<Rightarrow> int \<Rightarrow> kvtable \<Rightarrow> groups \<Rightarrow> bool" where
  "on_way shid g h num t w \<longleftrightarrow> (\<forall>i. shard_num (w i) shid \<le> num) \<and>
     (\<forall>i. i \<noteq> g \<longrightarrow> i \<noteq> h \<longrightarrow> absent shid (w i)) \<and>
     (if shard_num (w h) shid < num
      then shard_state (w g) shid \<noteq> Noshard \<and> holds shid t (w g) \<and> absent shid (w h)
      else (shard_state (w g) shid = FrozenShard \<or> absent shid (w g)) \<and>
           shard_state (w h) shid = ValidShard \<and> holds shid t (w h))"

definition transit_shard :: "ShardConfig \<Rightarrow> ShardConfig \<Rightarrow> kvtable \<Rightarrow> groups \<Rightarrow> int \<Rightarrow> bool" where
  "transit_shard cur new t w shid \<longleftrightarrow>
     (if gid_of cur shid = gid_of new shid then home_shard new t w shid
      else on_way shid (gid_of cur shid) (gid_of new shid) (Num new) t w)"

text \<open>Nothing of the shard has changed, respectively nothing but the shard.\<close>

definition same_shard :: "int \<Rightarrow> groups \<Rightarrow> groups \<Rightarrow> bool" where
  "same_shard shid w w' \<longleftrightarrow> (\<forall>i. shard_state (w' i) shid = shard_state (w i) shid \<and>
     shard_num (w' i) shid = shard_num (w i) shid \<and>
     shard_part shid (sk_table (w' i)) = shard_part shid (sk_table (w i)))"

definition only_shard :: "int \<Rightarrow> groups \<Rightarrow> groups \<Rightarrow> bool" where
  "only_shard shid w w' \<longleftrightarrow> (\<forall>j. j \<noteq> shid \<longrightarrow> same_shard j w w')"

lemma same_shard_preds:
  assumes "same_shard shid w w'"
  shows "home_shard cfg t w' shid = home_shard cfg t w shid"
    and "transit_shard cur new t w' shid = transit_shard cur new t w shid"
  using assms
  by (simp_all add: same_shard_def home_shard_def transit_shard_def on_way_def absent_def holds_def)

lemma only_shard_refl [simp]: "only_shard s w w"
  by (simp add: only_shard_def same_shard_def)

lemma only_shard_trans [trans]: "only_shard s a b \<Longrightarrow> only_shard s b c \<Longrightarrow> only_shard s a c"
  by (simp add: only_shard_def same_shard_def)

lemma only_shard_upd:
  assumes "\<And>j. j \<noteq> s \<Longrightarrow> shard_state kv j = shard_state (w g) j \<and> shard_num kv j = shard_num (w g) j \<and>
    shard_part j (sk_table kv) = shard_part j (sk_table (w g))"
  shows "only_shard s w (w(g := kv))"
  using assms by (simp add: only_shard_def same_shard_def)

lemma shard_part_simps [simp]:
  "shard_part s (shard_part s t) = shard_part s t"
  "j \<noteq> s \<Longrightarrow> shard_part j (t ++ shard_part s u) = shard_part j t"
  "j \<noteq> s \<Longrightarrow> shard_part j (\<lambda>k. if Key2Shard k = s then None else t k) = shard_part j t"
  "shard_part s (\<lambda>k. if Key2Shard k = s then None else t k) = shard_part s Map.empty"
  by (auto simp: shard_part_def fun_eq_iff map_add_def split: option.splits)

lemma holds_add:
  "holds s Map.empty kv \<Longrightarrow> shard_part s (sk_table kv ++ shard_part s t) = shard_part s t"
  by (auto simp: holds_def shard_part_def fun_eq_iff map_add_def split: option.splits if_splits)

section \<open>The three calls that move a shard\<close>

text \<open>
  After the freeze call: if the shard is still to be installed, it is frozen and \<open>d\<close> is its
  contents. After the install call the new group has it.
\<close>

definition frozen_with :: "shard_gob list \<Rightarrow> int \<Rightarrow> int \<Rightarrow> int \<Rightarrow> int \<Rightarrow> kvtable \<Rightarrow> groups \<Rightarrow> bool" where
  "frozen_with d shid g h num t w \<longleftrightarrow> on_way shid g h num t w \<and>
     (shard_num (w h) shid < num \<longrightarrow>
        shard_state (w g) shid = FrozenShard \<and> d = [GKv (shard_part shid t)])"

definition installed :: "int \<Rightarrow> int \<Rightarrow> int \<Rightarrow> int \<Rightarrow> kvtable \<Rightarrow> groups \<Rightarrow> bool" where
  "installed shid g h num t w \<longleftrightarrow> on_way shid g h num t w \<and> shard_num (w h) shid = num"

definition moved :: "int \<Rightarrow> int \<Rightarrow> int \<Rightarrow> int \<Rightarrow> kvtable \<Rightarrow> groups \<Rightarrow> bool" where
  "moved shid g h num t w \<longleftrightarrow> installed shid g h num t w \<and> absent shid (w g)"

lemma freeze_absent:
  assumes "shard_num kv shid \<le> num" and "shard_state kv shid = Noshard"
    and "doFreezeShard \<lparr>fa_Shard = shid, fa_Num = num\<rparr> kv = (kv', r)"
  shows "sk_table kv' = sk_table kv" "shard_state kv' = shard_state kv"
    "shard_num kv' = (shard_num kv)(shid := num)"
  using assms
  by (auto simp: doFreezeShard_def shard_state_def shard_num_def Let_def fun_eq_iff split: option.splits if_splits)

lemma delete_absent:
  assumes "shard_num kv shid \<le> num" and "shard_state kv shid = Noshard"
  obtains kv' where "doDeleteShard \<lparr>da_Shard = shid, da_Num = num\<rparr> kv = Inr (kv', DeleteShardReply0\<lparr>dr_Err := OK\<rparr>)"
    and "sk_table kv' = sk_table kv" "shard_state kv' = shard_state kv"
    "shard_num kv' = (shard_num kv)(shid := num)"
  using assms
  by (auto simp: doDeleteShard_def shard_state_def shard_num_def Let_def fun_eq_iff split: option.splits)

lemma on_way_freeze:
  assumes gh: "g \<noteq> h" and w: "on_way shid g h num t w"
  obtains kv r where "doFreezeShard \<lparr>fa_Shard = shid, fa_Num = num\<rparr> (w g) = (kv, r)"
    and "frozen_with (fr_State r) shid g h num t (w(g := kv))" and "only_shard shid w (w(g := kv))"
proof -
  obtain kv r where f: "doFreezeShard \<lparr>fa_Shard = shid, fa_Num = num\<rparr> (w g) = (kv, r)"
    by (cases "doFreezeShard \<lparr>fa_Shard = shid, fa_Num = num\<rparr> (w g)")
  have n: "shard_num (w g) shid \<le> num" using w by (simp add: on_way_def)
  show thesis
  proof (cases "shard_state (w g) shid = Noshard")
    case True
    note e = freeze_absent [OF n True f]
    show thesis
      by (rule that [OF f])
         (use w gh True e in \<open>auto simp: frozen_with_def on_way_def absent_def holds_def intro!: only_shard_upd split: if_splits\<close>)
  next
    case False
    note e = freeze_effect [OF n False f]
    show thesis
      by (rule that [OF f])
         (use w gh False e in \<open>auto simp: frozen_with_def on_way_def absent_def holds_def intro!: only_shard_upd split: if_splits\<close>)
  qed
qed

lemma frozen_install:
  assumes gh: "g \<noteq> h" and w: "frozen_with d shid g h num t w"
  obtains kv where "doInstallShard \<lparr>ia_Shard = shid, ia_State = d, ia_Num = num\<rparr> (w h) =
      Inr (kv, InstallShardReply0\<lparr>ir_Err := OK\<rparr>)"
    and "installed shid g h num t (w(h := kv))" and "only_shard shid w (w(h := kv))"
proof (cases "shard_num (w h) shid < num")
  case True
  then have d: "d = [GKv (shard_part shid t)]" and nf: "shard_state (w h) shid \<noteq> FrozenShard"
    and a: "holds shid Map.empty (w h)"
    using w by (auto simp: frozen_with_def on_way_def absent_def)
  obtain kv where i: "doInstallShard \<lparr>ia_Shard = shid, ia_State = d, ia_Num = num\<rparr> (w h) =
      Inr (kv, InstallShardReply0\<lparr>ir_Err := OK\<rparr>)"
    and e: "sk_table kv = sk_table (w h) ++ shard_part shid t" "shard_state kv = (shard_state (w h))(shid := ValidShard)"
      "shard_num kv = (shard_num (w h))(shid := num)"
    using install_effect [OF True nf] d by metis
  show thesis
    by (rule that [OF i])
       (use w gh True e holds_add [OF a, of t] in \<open>auto simp: installed_def frozen_with_def on_way_def holds_def intro!: only_shard_upd\<close>)
next
  case False
  then have "shard_num (w h) shid = num" using w by (auto simp: frozen_with_def on_way_def intro: antisym)
  moreover have "w(h := w h) = w" by simp
  ultimately show thesis
    using that [of "w h"] w False by (simp add: doInstallShard_def installed_def frozen_with_def)
qed

lemma installed_delete:
  assumes gh: "g \<noteq> h" and w: "installed shid g h num t w"
  obtains kv where "doDeleteShard \<lparr>da_Shard = shid, da_Num = num\<rparr> (w g) = Inr (kv, DeleteShardReply0\<lparr>dr_Err := OK\<rparr>)"
    and "moved shid g h num t (w(g := kv))" and "only_shard shid w (w(g := kv))"
proof -
  have n: "shard_num (w g) shid \<le> num" and st: "shard_state (w g) shid = FrozenShard \<or> absent shid (w g)"
    using w by (auto simp: installed_def on_way_def split: if_splits)
  show thesis
  proof (cases "shard_state (w g) shid = FrozenShard")
    case True
    obtain kv where d: "doDeleteShard \<lparr>da_Shard = shid, da_Num = num\<rparr> (w g) = Inr (kv, DeleteShardReply0\<lparr>dr_Err := OK\<rparr>)"
      and e: "sk_table kv = (\<lambda>k. if Key2Shard k = shid then None else sk_table (w g) k)"
        "shard_state kv = (shard_state (w g))(shid := Noshard)" "shard_num kv = (shard_num (w g))(shid := num)"
      using delete_effect [OF n True] by metis
    show thesis
      by (rule that [OF d])
         (use w gh e in \<open>auto simp: moved_def installed_def on_way_def absent_def holds_def intro!: only_shard_upd split: if_splits\<close>)
  next
    case False
    then have a: "shard_state (w g) shid = Noshard" "absent shid (w g)" using st by (auto simp: absent_def)
    obtain kv where d: "doDeleteShard \<lparr>da_Shard = shid, da_Num = num\<rparr> (w g) = Inr (kv, DeleteShardReply0\<lparr>dr_Err := OK\<rparr>)"
      and e: "sk_table kv = sk_table (w g)" "shard_state kv = shard_state (w g)"
        "shard_num kv = (shard_num (w g))(shid := num)"
      using delete_absent [OF n a(1)] by metis
    show thesis
      by (rule that [OF d])
         (use w gh e a in \<open>auto simp: moved_def installed_def on_way_def absent_def holds_def intro!: only_shard_upd split: if_splits\<close>)
  qed
qed

text \<open>Whatever happens to the calls, the shard stays on its way with its contents.\<close>

definition answered :: "shard_env \<Rightarrow> bool" where
  "answered env \<longleftrightarrow> gets_answer (env_freeze env) \<and> gets_answer (env_install env) \<and> gets_answer (env_delete env)"

definition env_ok :: "nat \<Rightarrow> nat \<Rightarrow> shard_env \<Rightarrow> bool" where
  "env_ok a b env \<longleftrightarrow> hints_ok a (env_freeze env) \<and> hints_ok b (env_install env) \<and> hints_ok a (env_delete env)"

lemma move_shard_spec:
  assumes gh: "g \<noteq> h" and ck: "clerk_ok a (fst cks)" "clerk_ok b (snd cks)" and env: "env_ok a b env"
    and w: "on_way shid g h num t w"
  obtains w' c1 c2 completed where "move_shard env g h shid num cks w = Inr ((w', c1, c2), completed)"
    and "on_way shid g h num t w'" and "only_shard shid w w'" and "clerk_ok a c1" and "clerk_ok b c2"
    and "completed \<Longrightarrow> moved shid g h num t w'" and "answered env \<Longrightarrow> completed"
proof -
  have n: "shard_num (w g) shid \<le> num" using w by (simp add: on_way_def)
  have hints: "hints_ok a (env_freeze env)" "hints_ok b (env_install env)" "hints_ok a (env_delete env)"
    using env by (auto simp: env_ok_def)
  obtain k1 r where f: "doFreezeShard \<lparr>fa_Shard = shid, fa_Num = num\<rparr> (w g) = (k1, r)"
    and w1: "frozen_with (fr_State r) shid g h num t (w(g := k1))" "only_shard shid w (w(g := k1))"
    using on_way_freeze [OF gh w] .
  from ck(1) hints(1) n f show thesis
  proof (cases rule: freeze_call)
    case (cut c1 x)
    then show thesis
      using that [of "w(g := x)" c1 "snd cks" False] w w1 ck by (auto simp: move_shard_def answered_def frozen_with_def)
  next
    case c1: (completed c1)
    obtain k2 where i: "doInstallShard \<lparr>ia_Shard = shid, ia_State = fr_State r, ia_Num = num\<rparr> ((w(g := k1)) h) =
        Inr (k2, InstallShardReply0\<lparr>ir_Err := OK\<rparr>)"
      and w2: "installed shid g h num t (w(g := k1, h := k2))" "only_shard shid (w(g := k1)) (w(g := k1, h := k2))"
      using frozen_install [OF gh w1(1)] .
    from ck(2) hints(2) i show thesis
    proof (cases rule: install_call)
      case (cut c2 x)
      then have "w(g := k1, h := x) \<in> {w(g := k1), w(g := k1, h := k2)}" by auto
      then show thesis
        using that [of "w(g := k1, h := x)" c1 c2 False] w1 w2 c1 cut only_shard_trans [OF w1(2) w2(2)]
        by (auto simp: move_shard_def answered_def frozen_with_def installed_def)
    next
      case c2: (completed c2)
      obtain k3 where d: "doDeleteShard \<lparr>da_Shard = shid, da_Num = num\<rparr> ((w(g := k1, h := k2)) g) =
          Inr (k3, DeleteShardReply0\<lparr>dr_Err := OK\<rparr>)"
        and w3: "moved shid g h num t (w(g := k1, h := k2, g := k3))"
          "only_shard shid (w(g := k1, h := k2)) (w(g := k1, h := k2, g := k3))"
        using installed_delete [OF gh w2(1)] .
      note o2 = only_shard_trans [OF w1(2) w2(2)]
      from c1(2) hints(3) d show thesis
      proof (cases rule: delete_call)
        case (cut c3 x)
        then have "w(g := k1, h := k2, g := x) \<in> {w(g := k1, h := k2), w(g := k1, h := k2, g := k3)}" by auto
        then show thesis
          using that [of "w(g := k1, h := k2, g := x)" c3 c2 False] c1 c2 cut w2 w3 o2 only_shard_trans [OF o2 w3(2)]
          by (auto simp: move_shard_def Let_def answered_def moved_def installed_def)
      next
        case (completed c3)
        then show thesis
          using that [of "w(g := k1, h := k2, g := k3)" c3 c2 True] c1 c2 w3 only_shard_trans [OF o2 w3(2)]
          by (auto simp: move_shard_def Let_def moved_def installed_def)
      qed
    qed
  qed
qed

section \<open>A whole configuration change\<close>

text \<open>
  Configurations a change runs between: twelve shards each, every shard assigned to a group
  that has servers, and a group identifier never reused for other servers.
\<close>

definition assigned :: "ShardConfig \<Rightarrow> bool" where
  "assigned cfg \<longleftrightarrow> length (Shards cfg) = NShards \<and>
     (\<forall>g \<in> set (Shards cfg). \<exists>srvs. map_of (Groups cfg) g = Some srvs \<and> srvs \<noteq> [])"

definition same_servers :: "ShardConfig \<Rightarrow> ShardConfig \<Rightarrow> bool" where
  "same_servers cur new \<longleftrightarrow>
     (\<forall>g \<in> set (Shards cur) \<inter> set (Shards new). map_of (Groups cur) g = map_of (Groups new) g)"

definition successor :: "ShardConfig \<Rightarrow> ShardConfig \<Rightarrow> bool" where
  "successor cur new \<longleftrightarrow> assigned cur \<and> assigned new \<and> same_servers cur new \<and> Num cur < Num new"

lemma gid_servers:
  assumes "assigned cfg" and "0 \<le> shid" and "shid < int NShards"
  obtains srvs where "GidServers shid cfg = Inr (gid_of cfg shid, srvs, True)" and "srvs \<noteq> []"
    and "map_of (Groups cfg) (gid_of cfg shid) = Some srvs" and "gid_of cfg shid \<in> set (Shards cfg)"
proof -
  have m: "gid_of cfg shid \<in> set (Shards cfg)"
    using assms unfolding gid_of_def assigned_def by (intro nth_mem) linarith
  with assms(1) obtain srvs where s: "map_of (Groups cfg) (gid_of cfg shid) = Some srvs" "srvs \<noteq> []"
    by (auto simp: assigned_def)
  show thesis
    by (rule that [OF _ s(2,1) m])
       (use assms s in \<open>simp add: GidServers_def go_nth_Inr assigned_def gid_of_def [symmetric]\<close>)
qed

lemma home_on_way:
  assumes "home_shard cur t w shid" and "Num cur < Num new"
  shows "transit_shard cur new t w shid"
proof (cases "gid_of cur shid = gid_of new shid")
  case True
  have "shard_num (w i) shid \<le> Num new" for i
    using assms by (meson home_shard_def less_le_not_le order_trans)
  then show ?thesis using assms True by (simp add: home_shard_def transit_shard_def)
next
  case False
  have "shard_num (w i) shid < Num new" for i
    using assms by (meson home_shard_def le_less_trans)
  then show ?thesis
    using assms False by (auto simp: home_shard_def transit_shard_def on_way_def less_imp_le)
qed

lemma moved_home:
  assumes "moved shid g h (Num new) t w" and "h = gid_of new shid"
  shows "home_shard new t w shid"
  using assms by (auto simp: moved_def installed_def on_way_def home_shard_def)

text \<open>The clerks the loop has made, and what the network may say about leaders.\<close>

definition nservers :: "ShardConfig \<Rightarrow> int \<Rightarrow> nat" where
  "nservers cfg g = (case map_of (Groups cfg) g of None \<Rightarrow> 0 | Some srvs \<Rightarrow> length srvs)"

definition clerks_ok :: "ShardConfig \<Rightarrow> (int \<rightharpoonup> Clerk) \<Rightarrow> bool" where
  "clerks_ok cfg m \<longleftrightarrow> (\<forall>g ck. m g = Some ck \<longrightarrow> clerk_ok (nservers cfg g) ck)"

definition envs_ok :: "ShardConfig \<Rightarrow> ShardConfig \<Rightarrow> (int \<Rightarrow> shard_env) \<Rightarrow> bool" where
  "envs_ok cur new envs \<longleftrightarrow>
     (\<forall>s \<in> {0..<int NShards}. env_ok (nservers cur (gid_of cur s)) (nservers new (gid_of new s)) (envs s))"

lemma clerk_for_ok:
  assumes "clerks_ok cfg m" and "map_of (Groups cfg) g = Some srvs" and "srvs \<noteq> []"
  shows "clerk_ok (nservers cfg g) (clerk_for m g srvs)"
  using assms by (auto simp: clerks_ok_def clerk_for_def nservers_def MakeClerk_def clerk_ok_def split: option.splits)

lemma change_shard_spec:
  assumes c: "successor cur new" and shid: "0 \<le> shid" "shid < int NShards" and env: "envs_ok cur new envs"
    and tr: "transit_shard cur new t (cs_groups st) shid"
    and ck: "clerks_ok cur (clients2Cur st)" "clerks_ok new (clients2New st)"
  obtains st' completed where "change_shard envs cur new shid st = Inr (st', completed)"
    and "transit_shard cur new t (cs_groups st') shid" and "only_shard shid (cs_groups st) (cs_groups st')"
    and "clerks_ok cur (clients2Cur st')" and "clerks_ok new (clients2New st')"
    and "completed \<Longrightarrow> home_shard new t (cs_groups st') shid" and "answered (envs shid) \<Longrightarrow> completed"
proof -
  let ?g = "gid_of cur shid" and ?h = "gid_of new shid"
  from c have cs: "assigned cur" "assigned new" "same_servers cur new" by (auto simp: successor_def)
  obtain sc where sc: "GidServers shid cur = Inr (?g, sc, True)" "sc \<noteq> []" "map_of (Groups cur) ?g = Some sc"
    "?g \<in> set (Shards cur)" using gid_servers [OF cs(1) shid] .
  obtain sn where sn: "GidServers shid new = Inr (?h, sn, True)" "sn \<noteq> []" "map_of (Groups new) ?h = Some sn"
    "?h \<in> set (Shards new)" using gid_servers [OF cs(2) shid] .
  show thesis
  proof (cases "?g = ?h")
    case True
    then have "sc = sn" using cs(3) sc sn by (auto simp: same_servers_def)
    then show thesis using that [of st True] True sc sn tr ck by (simp add: change_shard_def transit_shard_def)
  next
    case False
    let ?cks = "(clerk_for (clients2Cur st) ?g sc, clerk_for (clients2New st) ?h sn)"
    have e: "env_ok (nservers cur ?g) (nservers new ?h) (envs shid)" using env shid by (simp add: envs_ok_def)
    have cl: "clerk_ok (nservers cur ?g) (fst ?cks)" "clerk_ok (nservers new ?h) (snd ?cks)"
      using clerk_for_ok [OF ck(1) sc(3,2)] clerk_for_ok [OF ck(2) sn(3,2)] by simp_all
    have way: "on_way shid ?g ?h (Num new) t (cs_groups st)" using tr False by (simp add: transit_shard_def)
    obtain w' c1 c2 completed where
      m: "move_shard (envs shid) ?g ?h shid (Num new) ?cks (cs_groups st) = Inr ((w', c1, c2), completed)"
      and w': "on_way shid ?g ?h (Num new) t w'" "only_shard shid (cs_groups st) w'"
        "clerk_ok (nservers cur ?g) c1" "clerk_ok (nservers new ?h) c2"
        "completed \<Longrightarrow> moved shid ?g ?h (Num new) t w'" "answered (envs shid) \<Longrightarrow> completed"
      using move_shard_spec [OF False cl e way] by blast
    show thesis
      by (rule that [of "\<lparr>cs_groups = w', clients2Cur = (clients2Cur st)(?g \<mapsto> c1), clients2New = (clients2New st)(?h \<mapsto> c2)\<rparr>"
            completed])
         (use m w' sc sn ck False moved_home in \<open>auto simp: change_shard_def transit_shard_def clerks_ok_def\<close>)
  qed
qed

lemma only_shard_other: "only_shard s w w' \<Longrightarrow> i \<noteq> s \<Longrightarrow> same_shard i w w'"
  by (simp add: only_shard_def)

lemma change_shards_spec:
  assumes c: "successor cur new" and env: "envs_ok cur new envs" and "set xs \<subseteq> {0..<int NShards}"
    and "\<And>s. s \<in> {0..<int NShards} \<Longrightarrow> transit_shard cur new t (cs_groups st) s"
    and "\<And>s. s \<in> {0..<int NShards} - set xs \<Longrightarrow> home_shard new t (cs_groups st) s" and "distinct xs"
    and "clerks_ok cur (clients2Cur st)" and "clerks_ok new (clients2New st)"
  shows "\<exists>st' completed. change_shards envs cur new xs st = Inr (st', completed) \<and>
    (\<forall>s \<in> {0..<int NShards}. transit_shard cur new t (cs_groups st') s) \<and>
    (completed \<longrightarrow> (\<forall>s \<in> {0..<int NShards}. home_shard new t (cs_groups st') s)) \<and>
    ((\<forall>s \<in> set xs. answered (envs s)) \<longrightarrow> completed)"
  using assms(3-8)
proof (induction xs arbitrary: st)
  case (Cons x xs)
  have x: "0 \<le> x" "x < int NShards" using Cons.prems(1) by auto
  then have tx: "transit_shard cur new t (cs_groups st) x" using Cons.prems(2) by simp
  obtain st1 b where ch: "change_shard envs cur new x st = Inr (st1, b)"
    and st1: "transit_shard cur new t (cs_groups st1) x" "only_shard x (cs_groups st) (cs_groups st1)"
      "clerks_ok cur (clients2Cur st1)" "clerks_ok new (clients2New st1)"
      "b \<Longrightarrow> home_shard new t (cs_groups st1) x" "answered (envs x) \<Longrightarrow> b"
    using change_shard_spec [OF c x env tx Cons.prems(5,6)] by blast
  have other: "transit_shard cur new t (cs_groups st1) s = transit_shard cur new t (cs_groups st) s"
    "home_shard new t (cs_groups st1) s = home_shard new t (cs_groups st) s" if "s \<noteq> x" for s
    using same_shard_preds [OF only_shard_other [OF st1(2) that]] by simp_all
  have tr: "transit_shard cur new t (cs_groups st1) s" if "s \<in> {0..<int NShards}" for s
    using Cons.prems(2) [OF that] st1(1) other(1) by (cases "s = x") auto
  show ?case
  proof (cases b)
    case False
    then show ?thesis using ch st1(6) tr by (auto intro!: exI [of _ st1])
  next
    case True
    have "home_shard new t (cs_groups st1) s" if "s \<in> {0..<int NShards} - set xs" for s
      using Cons.prems(3) st1(5) [OF True] other(2) that by (cases "s = x") auto
    with Cons.IH [of st1] Cons.prems(1,4) tr st1(3,4) obtain st' c where
      r: "change_shards envs cur new xs st1 = Inr (st', c)"
        "\<forall>s \<in> {0..<int NShards}. transit_shard cur new t (cs_groups st') s"
        "c \<longrightarrow> (\<forall>s \<in> {0..<int NShards}. home_shard new t (cs_groups st') s)" "(\<forall>s \<in> set xs. answered (envs s)) \<longrightarrow> c"
      by auto
    show ?thesis by (rule exI [of _ st'], rule exI [of _ c]) (use r True ch in simp)
  qed
qed auto

text \<open>The state of the whole service during a change, and at rest.\<close>

definition transit :: "ShardConfig \<Rightarrow> ShardConfig \<Rightarrow> kvtable \<Rightarrow> groups \<Rightarrow> bool" where
  "transit cur new t w \<longleftrightarrow> (\<forall>s \<in> {0..<int NShards}. transit_shard cur new t w s)"

definition at_rest :: "ShardConfig \<Rightarrow> kvtable \<Rightarrow> groups \<Rightarrow> bool" where
  "at_rest cfg t w \<longleftrightarrow> (\<forall>s \<in> {0..<int NShards}. home_shard cfg t w s)"

definition all_answered :: "(int \<Rightarrow> shard_env) \<Rightarrow> bool" where
  "all_answered envs \<longleftrightarrow> (\<forall>s \<in> {0..<int NShards}. answered (envs s))"

lemma at_rest_transit: "at_rest cur t w \<Longrightarrow> Num cur < Num new \<Longrightarrow> transit cur new t w"
  by (simp add: at_rest_def transit_def home_on_way)

lemma changConfig_spec:
  assumes "successor cur new" and "envs_ok cur new envs" and "transit cur new t w"
  obtains w' completed where "changConfig envs cur new w = Inr (w', completed)" and "transit cur new t w'"
    and "completed \<Longrightarrow> at_rest new t w'" and "all_answered envs \<Longrightarrow> completed"
proof -
  let ?st = "\<lparr>cs_groups = w, clients2Cur = Map.empty, clients2New = Map.empty\<rparr>"
  have r: "set (map int [0..<NShards]) = {0..<int NShards}" by (auto simp: image_int_atLeastLessThan)
  have ck: "clerks_ok cur (clients2Cur ?st)" "clerks_ok new (clients2New ?st)" by (simp_all add: clerks_ok_def)
  have "transit_shard cur new t (cs_groups ?st) s" if "s \<in> {0..<int NShards}" for s
    using assms(3) that by (simp add: transit_def)
  then obtain st' c where "change_shards envs cur new (map int [0..<NShards]) ?st = Inr (st', c)"
    "\<forall>s \<in> {0..<int NShards}. transit_shard cur new t (cs_groups st') s"
    "c \<longrightarrow> (\<forall>s \<in> {0..<int NShards}. home_shard new t (cs_groups st') s)"
    "(\<forall>s \<in> {0..<int NShards}. answered (envs s)) \<longrightarrow> c"
    using change_shards_spec [OF assms(1,2), of "map int [0..<NShards]" t ?st] ck unfolding r
    by (auto simp: distinct_map)
  then show thesis using that [of "cs_groups st'" c] by (simp add: changConfig_def transit_def at_rest_def all_answered_def)
qed

section \<open>The configuration store during a change\<close>

text \<open>A loop without Puts of other controllers, and one that hears from the store.\<close>

definition quiet :: "rnd_put list \<Rightarrow> bool" where
  "quiet env \<longleftrightarrow> (\<forall>rd \<in> set env. fst rd = [])"

definition heard :: "rnd_put list \<Rightarrow> bool" where
  "heard env \<longleftrightarrow> Delivered \<in> snd ` set env"

lemma KVServer_Put_accept:
  assumes "current_version (table kv) (pa_Key a) = pa_Version a"
  shows "KVServer_Put a kv = (kv\<lparr>table := (table kv)(pa_Key a \<mapsto> \<lparr>Value = pa_Value a, Version = pa_Version a + 1\<rparr>)\<rparr>,
    PutReply0\<lparr>pr_Err := OK\<rparr>)"
  using assms by (auto simp: KVServer_Put_def current_version_def split: option.splits)

lemma KVServer_Put_twice:
  assumes "current_version (table kv) (pa_Key a) = pa_Version a"
  shows "KVServer_Put a (fst (KVServer_Put a kv)) = (fst (KVServer_Put a kv), PutReply0\<lparr>pr_Err := ErrVersion\<rparr>)"
  using assms by (simp add: KVServer_Put_accept) (simp add: KVServer_Put_def)

lemma resend_after_put:
  assumes "quiet env" and "current_version (table kv) (pa_Key a) = pa_Version a"
  shows "\<exists>n r. Clerk_resend KVServer_Put a env (fst (KVServer_Put a kv), m) = Inr ((fst (KVServer_Put a kv), n), r) \<and>
    r \<in> {None, Some ErrMaybe} \<and> (heard env \<longrightarrow> r \<noteq> None)"
  using assms(1)
proof (induction env)
  case (Cons rd env)
  obtain out where rd: "rd = ([], out)" using Cons.prems by (cases rd) (simp add: quiet_def)
  then show ?case
    using Cons KVServer_Put_twice [OF assms(2)]
    by (cases out) (auto simp: call_put_def quiet_def heard_def PutReply0_def)
qed (simp add: heard_def)

lemma resend_before_put:
  assumes "quiet env" and v: "current_version (table kv) (pa_Key a) = pa_Version a"
  shows "\<exists>x n r. Clerk_resend KVServer_Put a env (kv, m) = Inr ((x, n), r) \<and>
    (r = None \<and> x \<in> {kv, fst (KVServer_Put a kv)} \<and> \<not> heard env \<or>
     r \<in> {Some OK, Some ErrMaybe} \<and> x = fst (KVServer_Put a kv))"
  using assms(1)
proof (induction env)
  case (Cons rd env)
  obtain out where rd: "rd = ([], out)" using Cons.prems by (cases rd) (simp add: quiet_def)
  have q: "quiet env" using Cons.prems by (simp add: quiet_def)
  then show ?case
    using rd Cons.IH [OF q] resend_after_put [OF q v, of "Suc m"] KVServer_Put_accept [OF v]
    by (cases out) (auto simp: call_put_def heard_def PutReply0_def)
qed (simp add: heard_def)

lemma Clerk_Put_quiet:
  assumes "quiet env" and v: "current_version (table kv) (pa_Key a) = pa_Version a"
  shows "\<exists>x n r. Clerk_Put KVServer_Put a env kv = Inr ((x, n), r) \<and>
    (r = None \<and> x \<in> {kv, fst (KVServer_Put a kv)} \<and> \<not> heard env \<or>
     r \<in> {Some OK, Some ErrMaybe} \<and> x = fst (KVServer_Put a kv))"
proof (cases env)
  case (Cons rd env')
  obtain out where rd: "rd = ([], out)" using assms(1) Cons by (cases rd) (simp add: quiet_def)
  have q: "quiet env'" using assms(1) Cons by (simp add: quiet_def)
  show ?thesis
    using Cons rd resend_before_put [OF q v, of 0] resend_after_put [OF q v, of 1] KVServer_Put_accept [OF v]
    by (cases out) (auto simp: call_put_def heard_def PutReply0_def)
qed (simp add: heard_def)

lemma Clerk_Get_quiet:
  assumes "quiet env"
  shows "fst (Clerk_Get KVServer_Put KVServer_Get g env kv) = kv \<and>
    (heard env \<longrightarrow> snd (Clerk_Get KVServer_Put KVServer_Get g env kv) \<noteq> None)"
  using assms
proof (induction env)
  case (Cons rd env)
  obtain out where rd: "rd = ([], out)" using Cons.prems by (cases rd) (simp add: quiet_def)
  then show ?case
    using Cons by (cases out)
      (auto simp: quiet_def heard_def KVServer_Get_def GetReply0_def Let_def split: option.splits)
qed (simp add: heard_def)

text \<open>The store with \<open>val\<close> put under \<open>key\<close> at version \<open>ver\<close>.\<close>

definition written :: "string \<Rightarrow> string \<Rightarrow> Tversion \<Rightarrow> KVServer \<Rightarrow> KVServer" where
  "written key val ver kv = kv\<lparr>table := (table kv)(key \<mapsto> \<lparr>Value = val, Version = ver + 1\<rparr>)\<rparr>"

lemma putOnce_quiet:
  assumes "quiet e1" and "quiet e2" and v: "current_version (table kv) key = ver"
  obtains r where "putOnce e1 e2 key val ver kv = Inr (written key val ver kv, r)"
      and "heard e1 \<Longrightarrow> heard e2 \<Longrightarrow> r \<noteq> None"
  | "putOnce e1 e2 key val ver kv = Inr (kv, None)" and "\<not> heard e1"
proof -
  let ?a = "\<lparr>pa_Key = key, pa_Value = val, pa_Version = ver\<rparr>"
  have w: "fst (KVServer_Put ?a kv) = written key val ver kv"
    using v by (simp add: KVServer_Put_accept written_def)
  from Clerk_Put_quiet [OF assms(1), of kv ?a] v w obtain x n r where
    p: "Clerk_Put KVServer_Put ?a e1 kv = Inr ((x, n), r)"
      "r = None \<and> x \<in> {kv, written key val ver kv} \<and> \<not> heard e1 \<or>
       r \<in> {Some OK, Some ErrMaybe} \<and> x = written key val ver kv" by auto
  from Clerk_Get_quiet [OF assms(2), of "\<lparr>ga_Key = key\<rparr>" "written key val ver kv"]
  obtain y where g: "Clerk_Get KVServer_Put KVServer_Get \<lparr>ga_Key = key\<rparr> e2 (written key val ver kv) =
      (written key val ver kv, y)" "heard e2 \<longrightarrow> y \<noteq> None"
    by (metis prod.collapse)
  have "(\<exists>r. putOnce e1 e2 key val ver kv = Inr (written key val ver kv, r) \<and> (heard e1 \<longrightarrow> heard e2 \<longrightarrow> r \<noteq> None)) \<or>
      putOnce e1 e2 key val ver kv = Inr (kv, None) \<and> \<not> heard e1"
    using p g by (cases y) (auto simp: putOnce_def)
  then show thesis using that by blast
qed

text \<open>
  Between changes the store names the configuration \<open>cfg\<close> at version \<open>v\<close>, and the entry for the
  next configuration lags by one. During a change to \<open>new\<close> both have the same version.
\<close>

definition settled :: "(ShardConfig \<Rightarrow> string) \<Rightarrow> ShardConfig \<Rightarrow> Tversion \<Rightarrow> KVServer \<Rightarrow> bool" where
  "settled enc cfg v kv \<longleftrightarrow> table kv CurConfigKey = Some \<lparr>Value = enc cfg, Version = v\<rparr> \<and>
     (table kv NewConfigKey = None \<and> v = 1 \<or>
      table kv NewConfigKey = Some \<lparr>Value = enc cfg, Version = v - 1\<rparr>)"

definition pending :: "(ShardConfig \<Rightarrow> string) \<Rightarrow> ShardConfig \<Rightarrow> ShardConfig \<Rightarrow> Tversion \<Rightarrow> KVServer \<Rightarrow> bool" where
  "pending enc cur new v kv \<longleftrightarrow> table kv CurConfigKey = Some \<lparr>Value = enc cur, Version = v\<rparr> \<and>
     table kv NewConfigKey = Some \<lparr>Value = enc new, Version = v\<rparr>"

lemma keys_differ [simp]: "CurConfigKey \<noteq> NewConfigKey" "NewConfigKey \<noteq> CurConfigKey"
  by (simp_all add: CurConfigKey_def NewConfigKey_def)

lemma settled_next:
  assumes "settled enc cur v kv"
  shows "current_version (table kv) NewConfigKey = v - 1" and "pending enc cur new v (written NewConfigKey (enc new) (v - 1) kv)"
  using assms by (auto simp: settled_def pending_def written_def current_version_def)

lemma pending_next:
  assumes "pending enc cur new v kv"
  shows "current_version (table kv) CurConfigKey = v" and "settled enc new (v + 1) (written CurConfigKey (enc new) v kv)"
  using assms by (auto simp: settled_def pending_def written_def current_version_def)

lemma read_cfg_Some:
  "table kv key = Some vv \<Longrightarrow> read_cfg key kv = (Value vv, Version vv, OK)"
  by (simp add: read_cfg_def KVServer_Get_def GetReply0_def)

lemma read_cfg_None: "table kv key = None \<Longrightarrow> read_cfg key kv = ([], 0, ErrNoKey)"
  by (simp add: read_cfg_def KVServer_Get_def GetReply0_def)

text \<open>A state a controller may leave behind at any moment.\<close>

definition mid_change :: "(ShardConfig \<Rightarrow> string) \<Rightarrow> ShardConfig \<Rightarrow> ShardConfig \<Rightarrow> Tversion \<Rightarrow> kvtable \<Rightarrow>
    KVServer \<Rightarrow> groups \<Rightarrow> bool" where
  "mid_change enc cur new v t kv w \<longleftrightarrow> settled enc cur v kv \<and> at_rest cur t w \<or>
     pending enc cur new v kv \<and> transit cur new t w \<or> settled enc new (v + 1) kv \<and> at_rest new t w"

lemma commit_change_spec:
  assumes "successor cur new" and env: "envs_ok cur new envs" and p: "pending enc cur new v kv"
    and "transit cur new t w" and "quiet (fst e)" and "quiet (snd e)"
  obtains w' kv' completed where
    "commit_change envs e cur new (enc new) v kv w = Inr (kv', w', completed)"
    and "mid_change enc cur new v t kv' w'"
    and "all_answered envs \<Longrightarrow> heard (fst e) \<Longrightarrow> heard (snd e) \<Longrightarrow>
         completed \<and> settled enc new (v + 1) kv' \<and> at_rest new t w'"
proof -
  obtain w' c where ch: "changConfig envs cur new w = Inr (w', c)" "transit cur new t w'"
    "c \<Longrightarrow> at_rest new t w'" "all_answered envs \<Longrightarrow> c"
    using changConfig_spec [OF assms(1) env assms(4)] by blast
  show thesis
  proof (cases c)
    case False
    then show thesis using that [of kv w' False] ch p by (auto simp: mid_change_def commit_change_def)
  next
    case True
    from putOnce_quiet [OF assms(5,6) pending_next(1) [OF p], of "enc new"] show thesis
    proof cases
      case (1 r)
      then show thesis
        using that [of "written CurConfigKey (enc new) v kv" w' "r \<noteq> None"] True ch pending_next(2) [OF p]
        by (auto simp: mid_change_def commit_change_def)
    next
      case 2
      then show thesis using that [of kv w' False] True ch p by (auto simp: mid_change_def commit_change_def)
    qed
  qed
qed

lemma ChangeConfigTo_spec:
  assumes c: "successor cur new" and env: "envs_ok cur new envs" and d: "dec (enc cur) = cur"
    and s: "settled enc cur v kv" and r: "at_rest cur t w"
    and q: "quiet (fst e1)" "quiet (snd e1)" "quiet (fst e2)" "quiet (snd e2)"
  obtains kv' w' completed where "ChangeConfigTo enc dec envs e1 e2 new kv w = Inr (kv', w', completed)"
    and "mid_change enc cur new v t kv' w'"
proof -
  let ?k = "written NewConfigKey (enc new) (v - 1) kv"
  have rd: "read_cfg CurConfigKey kv = (enc cur, v, OK)" using s by (simp add: settled_def read_cfg_Some)
  have n: "\<not> Num new \<le> Num cur" using c by (simp add: successor_def)
  then have t: "transit cur new t w" using at_rest_transit [OF r] by simp
  note p = settled_next(2) [OF s, of new]
  from putOnce_quiet [OF q(1,2) settled_next(1) [OF s], of "enc new"] show thesis
  proof cases
    case (1 r)
    then show thesis
    proof (cases "r = Some True")
      case True
      obtain w' kv' b where
        "commit_change envs e2 cur new (enc new) v ?k w = Inr (kv', w', b)" "mid_change enc cur new v t kv' w'"
        using commit_change_spec [OF c env p t q(3,4)] by blast
      then show thesis using that [of kv' w' b] True 1 rd d n by (simp add: ChangeConfigTo_def)
    next
      case False
      then show thesis using that [of ?k w "r \<noteq> None"] 1 rd d n p t
        by (auto simp: ChangeConfigTo_def mid_change_def split: option.splits)
    qed
  next
    case 2
    then show thesis using that [of kv w False] rd d n s r by (simp add: ChangeConfigTo_def mid_change_def)
  qed
qed

lemma InitController_spec:
  assumes c: "successor cur new" and env: "envs_ok cur new envs" and d: "dec (enc cur) = cur" "dec (enc new) = new"
    and m: "mid_change enc cur new v t kv w"
    and q: "quiet (fst e)" "quiet (snd e)" and net: "all_answered envs" "heard (fst e)" "heard (snd e)"
  obtains kv' w' cfg v' where "InitController dec envs e kv w = Inr (kv', w', True)" and "cfg \<in> {cur, new}"
    and "settled enc cfg v' kv'" and "at_rest cfg t w'"
proof -
  have rest: "InitController dec envs e kv w = Inr (kv, w, True)"
    if "settled enc cfg u kv" "dec (enc cfg) = cfg" for cfg u
    using that by (auto simp: InitController_def doRecovery_def settled_def read_cfg_Some read_cfg_None Let_def)
  from m consider "settled enc cur v kv" "at_rest cur t w" | "settled enc new (v + 1) kv" "at_rest new t w"
    | "pending enc cur new v kv" "transit cur new t w" by (auto simp: mid_change_def)
  then show thesis
  proof cases
    case 1
    then show thesis using that rest [OF 1(1) d(1)] by blast
  next
    case 2
    then show thesis using that rest [OF 2(1) d(2)] by blast
  next
    case 3
    obtain w' kv' b where
      f: "commit_change envs e cur new (enc new) v kv w = Inr (kv', w', b)"
      and g: "b \<and> settled enc new (v + 1) kv' \<and> at_rest new t w'"
      using commit_change_spec [OF c env 3 q] net by blast
    have "read_cfg CurConfigKey kv = (enc cur, v, OK)" "read_cfg NewConfigKey kv = (enc new, v, OK)"
      using 3(1) by (simp_all add: pending_def read_cfg_Some)
    with f d have "InitController dec envs e kv w = Inr (kv', w', b)"
      by (simp add: InitController_def doRecovery_def Let_def)
    with that [of kv' w' new "v + 1"] g show thesis by simp
  qed
qed

text \<open>A service for the witnesses: twelve shards move from group 1 to group 2.\<close>

definition demo_cfg :: "int \<Rightarrow> ShardConfig" where
  "demo_cfg n = \<lparr>Num = n, Shards = replicate NShards n, Groups = [(n, [''s''])]\<rparr>"

definition demo_enc :: "ShardConfig \<Rightarrow> string" where
  "demo_enc c = (if Num c = 1 then ''one'' else ''two'')"

definition demo_dec :: "string \<Rightarrow> ShardConfig" where
  "demo_dec s = (if s = ''one'' then demo_cfg 1 else demo_cfg 2)"

definition demo_store :: KVServer where
  "demo_store = MakeKVServer\<lparr>table := [CurConfigKey \<mapsto> \<lparr>Value = ''one'', Version = 1\<rparr>]\<rparr>"

definition demo_table :: kvtable where
  "demo_table = [''k'' \<mapsto> \<lparr>Value = ''v'', Version = 4\<rparr>]"

definition demo_groups :: groups where
  "demo_groups g = \<lparr>sk_me = 0, sk_gid = g, sk_table = if g = 1 then demo_table else Map.empty,
     sk_shards = if g = 1 then (\<lambda>s. Some ValidShard) else Map.empty, sk_nums = Map.empty\<rparr>"

definition demo_envs :: "int \<Rightarrow> shard_env" where
  "demo_envs s = \<lparr>env_freeze = [(NoAnswer True, 5), (Answered, 0)], env_install = [(NotLeader (- 1) False, 7), (Answered, 0)],
     env_delete = [(Answered, 0)]\<rparr>"

text \<open>The first controller is cut off while it retries the Install of shard 3.\<close>

definition demo_crash :: "int \<Rightarrow> shard_env" where
  "demo_crash s = (if s = 3 then (demo_envs s)\<lparr>env_install := [(NoAnswer True, 0)]\<rparr> else demo_envs s)"

lemma demo_service:
  "successor (demo_cfg 1) (demo_cfg 2)" "demo_dec (demo_enc (demo_cfg 1)) = demo_cfg 1"
  "demo_dec (demo_enc (demo_cfg 2)) = demo_cfg 2" "settled demo_enc (demo_cfg 1) 1 demo_store"
  "at_rest (demo_cfg 1) demo_table demo_groups" "all_answered demo_envs"
  "envs_ok (demo_cfg 1) (demo_cfg 2) demo_envs" "envs_ok (demo_cfg 1) (demo_cfg 2) demo_crash"
  by (auto simp: successor_def assigned_def same_servers_def demo_cfg_def demo_dec_def demo_enc_def
      settled_def demo_store_def at_rest_def home_shard_def gid_of_def demo_groups_def
      shard_state_def shard_num_def absent_def holds_def all_answered_def answered_def demo_envs_def MakeKVServer_def
      envs_ok_def env_ok_def hints_ok_def gets_answer_def demo_crash_def nservers_def)

text \<open>
  C3: A controller may crash anywhere. Start from a service at rest in configuration \<open>cur\<close>
  and let a controller run \<^verbatim>\<open>ChangeConfigTo\<close> to a successor configuration, whatever
  happens to its calls and wherever it is cut off: before or after any Put, Freeze,
  Install or Delete. If the next controller's \<^verbatim>\<open>InitController\<close> gets answers, it completes, and
  afterwards the service is at rest in the old or in the new configuration: each
  shard is served by exactly the group the configuration names, no other group keeps any of
  it, its contents are what they were, and Query returns that configuration.
\<close>

theorem interrupted_change_recovers:
  assumes "successor cur new" and "dec (enc cur) = cur" and "dec (enc new) = new"
    and "settled enc cur v kv" and "at_rest cur t w"
    and "quiet (fst e1)" and "quiet (snd e1)" and "quiet (fst e2)" and "quiet (snd e2)"
    and "quiet (fst e3)" and "quiet (snd e3)" and "all_answered envs'" and "heard (fst e3)" and "heard (snd e3)"
    and "envs_ok cur new envs" and "envs_ok cur new envs'"
  shows "\<exists>kv1 w1 c1 kv2 w2 cfg v2.
    ChangeConfigTo enc dec envs e1 e2 new kv w = Inr (kv1, w1, c1) \<and>
    InitController dec envs' e3 kv1 w1 = Inr (kv2, w2, True) \<and>
    cfg \<in> {cur, new} \<and> settled enc cfg v2 kv2 \<and> Query dec kv2 = Inr cfg \<and> at_rest cfg t w2"
proof -
  obtain kv1 w1 c1 where ch: "ChangeConfigTo enc dec envs e1 e2 new kv w = Inr (kv1, w1, c1)"
    and m: "mid_change enc cur new v t kv1 w1"
    using ChangeConfigTo_spec [of cur new envs dec enc, OF assms(1,15,2,4-9)] .
  obtain kv2 w2 cfg v2 where "InitController dec envs' e3 kv1 w1 = Inr (kv2, w2, True)" "cfg \<in> {cur, new}"
    "settled enc cfg v2 kv2" "at_rest cfg t w2"
    using InitController_spec [of cur new envs' dec enc, OF assms(1,16,2,3) m assms(10-14)] .
  moreover from this have "Query dec kv2 = Inr cfg"
    using assms(2,3) by (auto simp: Query_def settled_def read_cfg_Some)
  ultimately show ?thesis using ch by blast
qed

theorem interrupted_change_recovers_witness:
  "\<exists>kv1 w1 c1 kv2 w2 cfg v2.
    ChangeConfigTo demo_enc demo_dec demo_crash ([([], Delivered)], []) ([([], Delivered)], []) (demo_cfg 2) demo_store
      demo_groups = Inr (kv1, w1, c1) \<and>
    InitController demo_dec demo_envs ([([], Delivered)], [([], Delivered)]) kv1 w1 = Inr (kv2, w2, True) \<and>
    cfg \<in> {demo_cfg 1, demo_cfg 2} \<and> settled demo_enc cfg v2 kv2 \<and> Query demo_dec kv2 = Inr cfg \<and>
    at_rest cfg demo_table w2"
  using interrupted_change_recovers [of "demo_cfg 1" "demo_cfg 2" demo_dec demo_enc 1 demo_store demo_table demo_groups
      "([([], Delivered)], [])" "([([], Delivered)], [])" "([([], Delivered)], [([], Delivered)])" demo_envs demo_crash]
    demo_service by (simp add: quiet_def heard_def)

text \<open>
  C15: When every call is answered and the first Put is acknowledged at once, \<^verbatim>\<open>ChangeConfigTo\<close>
  runs to its end without a fatal error, and the service is at rest in the new configuration
  with every key where it belongs.
\<close>

theorem ChangeConfigTo_moves_shards:
  assumes "successor cur new" and "dec (enc cur) = cur" and "settled enc cur v kv" and "at_rest cur t w"
    and "fst e1 = ([], Delivered) # rest" and "quiet (fst e2)" and "quiet (snd e2)"
    and "all_answered envs" and "heard (fst e2)" and "heard (snd e2)" and "envs_ok cur new envs"
  shows "\<exists>kv' w'. ChangeConfigTo enc dec envs e1 e2 new kv w = Inr (kv', w', True) \<and>
    settled enc new (v + 1) kv' \<and> at_rest new t w'"
proof -
  let ?k = "written NewConfigKey (enc new) (v - 1) kv"
  have n: "Num cur < Num new" using assms(1) by (simp add: successor_def)
  have rd: "read_cfg CurConfigKey kv = (enc cur, v, OK)" using assms(3) by (simp add: settled_def read_cfg_Some)
  have put: "putOnce (fst e1) (snd e1) NewConfigKey (enc new) (v - 1) kv = Inr (?k, Some True)"
    using settled_next(1) [OF assms(3)] assms(5)
    by (simp add: putOnce_def call_put_def KVServer_Put_accept written_def PutReply0_def)
  obtain w' kv' b where
    "commit_change envs e2 cur new (enc new) v ?k w = Inr (kv', w', b)" "b \<and> settled enc new (v + 1) kv' \<and> at_rest new t w'"
    using commit_change_spec [OF assms(1,11) settled_next(2) [OF assms(3), of new] at_rest_transit [OF assms(4) n] assms(6,7)]
      assms(8-10) by blast
  then show ?thesis using n rd put assms(2) by (simp add: ChangeConfigTo_def)
qed

theorem ChangeConfigTo_moves_shards_witness:
  "\<exists>kv' w'. ChangeConfigTo demo_enc demo_dec demo_envs ([([], Delivered)], []) ([([], Delivered)], [([], Delivered)])
      (demo_cfg 2) demo_store demo_groups = Inr (kv', w', True) \<and>
    settled demo_enc (demo_cfg 2) (1 + 1) kv' \<and> at_rest (demo_cfg 2) demo_table w'"
  by (rule ChangeConfigTo_moves_shards [of "demo_cfg 1" _ demo_dec demo_enc, OF demo_service(1,2,4,5), where rest = "[]"])
     (simp_all add: demo_service quiet_def heard_def)

text \<open>
  C33: \<^verbatim>\<open>putOnce\<close> reports failure for a Put it performed. When the reply to the first
  request is lost, the retry gets \<^verbatim>\<open>ErrMaybe\<close>; the check that follows compares the stored
  version with the version of the request, which the successful Put has incremented, so the
  answer is false although the value was written by this very call.
\<close>

theorem putOnce_denies_own_write:
  assumes "current_version (table kv) key = ver"
  shows "putOnce [([], ReplyLost), ([], Delivered)] [([], Delivered)] key val ver kv =
    Inr (written key val ver kv, Some False)"
  using assms
  by (simp add: putOnce_def call_put_def KVServer_Put_accept written_def PutReply0_def)
     (simp add: KVServer_Put_def KVServer_Get_def GetReply0_def PutReply0_def)

theorem putOnce_denies_own_write_witness:
  "current_version (table MakeKVServer) CurConfigKey = 0 \<and>
   putOnce [([], ReplyLost), ([], Delivered)] [([], Delivered)] CurConfigKey ''cfg'' 0 MakeKVServer =
    Inr (written CurConfigKey ''cfg'' 0 MakeKVServer, Some False)"
  using putOnce_denies_own_write [of MakeKVServer CurConfigKey 0 "''cfg''"]
  by (simp add: current_version_def MakeKVServer_def)

end
