(* ===== verification/ShardClient.thy ===== *)
theory ShardClient
  imports ShardControl
begin

text \<open>
  Clients of the sharded store: Get and Put of a group's clerk
  (\<^verbatim>\<open>shardkv1/shardgrp/client.go\<close>) and the clerk of the whole service
  (\<^verbatim>\<open>shardkv1/client.go\<close>), which finds the group of a key in a cached configuration and
  queries the controller again when the group turns out to be the wrong one.

  The environment of a loop is the list of its calls: the state of the group at the moment
  the command is executed there, what happens to the call, and the draw of
  \<^verbatim>\<open>rand.Intn\<close>. A Put loop also counts how often its request succeeded at a group; the
  count is for the statements.
\<close>

section \<open>Get and Put of a group's clerk\<close>

definition MaxRPCTimes :: nat where
  "MaxRPCTimes = 25"

record grp_call =
  gc_state :: ShardKV
  gc_outcome :: raft_outcome
  gc_draw :: nat

definition leader_in_range :: "Clerk \<Rightarrow> bool" where
  "leader_in_range ck \<longleftrightarrow> 0 \<le> ck_leader ck \<and> ck_leader ck < int (ck_nservers ck)"

text \<open>The first argument counts the iterations that are left.\<close>

fun grp_Get_loop :: "nat \<Rightarrow> string \<Rightarrow> grp_call list \<Rightarrow> Clerk \<Rightarrow> (Clerk \<times> (string \<times> Tversion \<times> Err) option) go" where
  "grp_Get_loop 0 key env ck = Inr (ck, Some ([], 0, ErrWrongGroup))"
| "grp_Get_loop (Suc i) key [] ck = Inr (ck, None)"
| "grp_Get_loop (Suc i) key (gc # env) ck =
     (if \<not> leader_in_range ck then Inl (Panic ''index out of range'')
      else case gc_outcome gc of
        NoAnswer _ \<Rightarrow> grp_Get_loop i key env (random_server (gc_draw gc) ck)
      | NotLeader hint _ \<Rightarrow> grp_Get_loop i key env (follow_hint hint (gc_draw gc) ck)
      | Answered \<Rightarrow>
          (let reply = doGet \<lparr>ga_Key = key\<rparr> (gc_state gc) in
           case gr_Err reply of
             OK \<Rightarrow> Inr (ck, Some (gr_Value reply, gr_Version reply, OK))
           | ErrNoKey \<Rightarrow> Inr (ck, Some ([], 0, ErrNoKey))
           | ErrWrongGroup \<Rightarrow> Inr (ck, Some ([], 0, ErrWrongGroup))
           | _ \<Rightarrow> grp_Get_loop i key env ck))"

definition grp_Clerk_Get :: "string \<Rightarrow> grp_call list \<Rightarrow> Clerk \<Rightarrow> (Clerk \<times> (string \<times> Tversion \<times> Err) option) go" where
  "grp_Clerk_Get key env ck = grp_Get_loop MaxRPCTimes key env ck"





section \<open>The clerk of the service\<close>

record SKClerk =
  rcks :: "int \<rightharpoonup> Clerk"
  sk_config :: "ShardConfig option"


definition GetClerk :: "int \<Rightarrow> SKClerk \<Rightarrow> Clerk option" where
  "GetClerk gid ck = rcks ck gid"

text \<open>
  \<open>query\<close> is the answer of the controller's Query. The group's clerk is returned with its
  identifier, since later changes of the clerk are changes of the entry in \<^verbatim>\<open>rcks\<close>.
\<close>

definition getClientByShard :: "ShardConfig go \<Rightarrow> int \<Rightarrow> bool \<Rightarrow> SKClerk \<Rightarrow> (SKClerk \<times> int \<times> Clerk) go" where
  "getClientByShard query shid isUpdate ck0 =
     bind_go (if sk_config ck0 = None \<or> isUpdate
              then bind_go query (\<lambda>c. Inr (ck0\<lparr>sk_config := Some c\<rparr>)) else Inr ck0) (\<lambda>ck.
     bind_go (GidServers shid (the (sk_config ck))) (\<lambda>(gid, servers, ok).
       if \<not> ok then Inl (Fatal ''getClientByKey: no group for shard'')
       else case GetClerk gid ck of
              Some client \<Rightarrow>
                if isUpdate
                then Inr (ck\<lparr>rcks := (rcks ck)(gid \<mapsto> MakeClerk (length servers))\<rparr>, gid, MakeClerk (length servers))
                else Inr (ck, gid, client)
            | None \<Rightarrow> Inr (ck\<lparr>rcks := (rcks ck)(gid \<mapsto> MakeClerk (length servers))\<rparr>, gid, MakeClerk (length servers))))"

text \<open>A round of the outer loops: what Query would answer, and the calls of the group's clerk.\<close>

type_synonym sk_round = "ShardConfig go \<times> grp_call list"

fun sk_Get_loop :: "string \<Rightarrow> bool \<Rightarrow> sk_round list \<Rightarrow> SKClerk \<Rightarrow> (SKClerk \<times> (string \<times> Tversion \<times> Err) option) go" where
  "sk_Get_loop key isUpdate [] ck = Inr (ck, None)"
| "sk_Get_loop key isUpdate ((query, env) # rounds) ck0 =
     bind_go (getClientByShard query (Key2Shard key) isUpdate ck0) (\<lambda>(ck, gid, client).
     bind_go (grp_Clerk_Get key env client) (\<lambda>(client', res).
       let ck' = ck\<lparr>rcks := (rcks ck)(gid \<mapsto> client')\<rparr> in
       case res of
         None \<Rightarrow> Inr (ck', None)
       | Some (val, ver, err) \<Rightarrow>
           (case err of
              OK \<Rightarrow> Inr (ck', Some (val, ver, OK))
            | ErrNoKey \<Rightarrow> Inr (ck', Some ([], 0, ErrNoKey))
            | ErrWrongGroup \<Rightarrow> sk_Get_loop key True rounds ck'
            | _ \<Rightarrow> Inl (Fatal ''shardkv client Get() got invalid err reply''))))"

definition sk_Get :: "string \<Rightarrow> sk_round list \<Rightarrow> SKClerk \<Rightarrow> (SKClerk \<times> (string \<times> Tversion \<times> Err) option) go" where
  "sk_Get key rounds ck = sk_Get_loop key False rounds ck"



section \<open>A Get is bounded\<close>

lemma grp_Get_loop_returns:
  assumes "clerk_ok n ck" and "hints_ok n (map (\<lambda>gc. (gc_outcome gc, gc_draw gc)) env)" and "i \<le> length env"
  shows "\<exists>ck' val ver err. grp_Get_loop i key env ck = Inr (ck', Some (val, ver, err)) \<and> clerk_ok n ck' \<and>
    err \<in> {OK, ErrNoKey, ErrWrongGroup}"
  using assms
proof (induction i key env ck rule: grp_Get_loop.induct)
  case (3 i key gc env ck)
  have h: "hints_ok n (map (\<lambda>gc. (gc_outcome gc, gc_draw gc)) env)" and len: "i \<le> length env"
    using "3.prems" by (auto simp: hints_ok_def)
  have l: "leader_in_range ck" using "3.prems"(1) by (simp add: leader_in_range_def clerk_ok_def)
  show ?case
  proof (cases "gc_outcome gc")
    case (NoAnswer ex)
    then show ?thesis using "3.IH"(1) "3.prems"(1) l h len by simp
  next
    case (NotLeader hint ex)
    then have "hint < int n" using "3.prems"(2) by (simp add: hints_ok_def)
    then show ?thesis using "3.IH"(2) NotLeader "3.prems"(1) l h len by simp
  next
    case Answered
    then show ?thesis
      using "3.prems"(1) l by (auto simp: doGet_def GetReply0_def split: option.splits)
  qed
qed simp_all

text \<open>
  The Get of a group's clerk always returns: whatever happens to its calls, it gives up
  with \<^verbatim>\<open>ErrWrongGroup\<close> after at most 25 of them (\<^verbatim>\<open>MaxRPCTimes\<close>), with its idea of the leader still
  inside the group, so that the client can ask the controller for a new configuration.
\<close>

theorem grp_Clerk_Get_terminates:
  assumes "clerk_ok n ck" and "hints_ok n (map (\<lambda>gc. (gc_outcome gc, gc_draw gc)) env)" and "25 \<le> length env"
  shows "\<exists>ck' val ver err. grp_Clerk_Get key env ck = Inr (ck', Some (val, ver, err)) \<and> clerk_ok n ck' \<and>
    err \<in> {OK, ErrNoKey, ErrWrongGroup}"
  using grp_Get_loop_returns [OF assms(1,2), of MaxRPCTimes key] assms(3)
  by (simp add: grp_Clerk_Get_def MaxRPCTimes_def)

theorem grp_Clerk_Get_terminates_witness:
  "\<exists>ck' val ver err.
    grp_Clerk_Get ''k'' (replicate 30 \<lparr>gc_state = demo_groups 1, gc_outcome = NoAnswer False, gc_draw = 4\<rparr>) (MakeClerk 3) =
      Inr (ck', Some (val, ver, err)) \<and> clerk_ok 3 ck' \<and> err \<in> {OK, ErrNoKey, ErrWrongGroup}"
  using grp_Clerk_Get_terminates [of 3 "MakeClerk 3" "replicate 30 \<lparr>gc_state = demo_groups 1, gc_outcome = NoAnswer False, gc_draw = 4\<rparr>" "''k''"]
  by (simp add: clerk_ok_def MakeClerk_def hints_ok_def list_all_iff)

section \<open>The verdict of a Put\<close>














end
