(* ===== verification/MrCoordinator.thy ===== *)
theory MrCoordinator
  imports Prelude
begin

text \<open>
  The MapReduce coordinator, \<^verbatim>\<open>mr/coordinator.go\<close> with the messages of \<^verbatim>\<open>mr/rpc.go\<close>: it
  hands out map tasks, then reduce tasks, takes tasks back from workers that are too slow,
  and knows when the job is finished. The socket server is not modelled.
\<close>

section \<open>Data\<close>

datatype taskState = taskStateUnassigned | taskStateExecuting | taskStateDone

datatype phase = phaseMap | phaseReduce | phaseFinished

record Coordinator =
  files :: "string list"
  nReduce :: nat
  taskStates :: "taskState list"
  state :: phase

datatype TaskType = MapTask | ReduceTask | WaitTask | DoneTask | NoReply

record GetTaskReply =
  TaskType :: TaskType
  TaskID :: int
  FileName :: string
  NReduce :: nat
  KeyHash :: int

record CompleteTaskArgs =
  ct_TaskType :: TaskType
  ct_TaskID :: int

definition GetTaskReply0 :: GetTaskReply where
  "GetTaskReply0 = \<lparr>TaskType = MapTask, TaskID = 0, FileName = [], NReduce = 0, KeyHash = 0\<rparr>"

section \<open>Operations\<close>

text \<open>
  The loop over the tasks of a phase: the first unassigned task, if there is one, and
  otherwise whether all of them are done.
\<close>

fun scan_tasks :: "nat \<Rightarrow> taskState list \<Rightarrow> bool \<Rightarrow> nat option \<times> bool" where
  "scan_tasks i [] allDone = (None, allDone)"
| "scan_tasks i (t # ts) allDone =
     (let allDone' = (if t \<noteq> taskStateDone then False else allDone) in
      if t = taskStateUnassigned then (Some i, allDone') else scan_tasks (i + 1) ts allDone')"

definition set_task :: "nat \<Rightarrow> taskState \<Rightarrow> Coordinator \<Rightarrow> Coordinator" where
  "set_task i t c = c\<lparr>taskStates := (taskStates c)[i := t]\<rparr>"

text \<open>
  The map phase and the reduce phase of \<^verbatim>\<open>GetTask\<close>: a reply when a task is handed out, else
  the coordinator with its phase advanced when all the tasks are done. Every task handed out
  gets a timer.
\<close>

definition GetTask_map :: "Coordinator \<Rightarrow> Coordinator \<times> GetTaskReply option" where
  "GetTask_map c =
     (case scan_tasks 0 (take (length (files c)) (taskStates c)) True of
        (Some i, _) \<Rightarrow> (set_task i taskStateExecuting c,
          Some (GetTaskReply0\<lparr>FileName := files c ! i, TaskID := int i, NReduce := nReduce c, TaskType := MapTask\<rparr>))
      | (None, allMapDone) \<Rightarrow> (if allMapDone then c\<lparr>state := phaseReduce\<rparr> else c, None))"

definition GetTask_reduce :: "Coordinator \<Rightarrow> Coordinator \<times> GetTaskReply option" where
  "GetTask_reduce c =
     (case scan_tasks (length (files c)) (drop (length (files c)) (taskStates c)) True of
        (Some i, _) \<Rightarrow> (set_task i taskStateExecuting c,
          Some (GetTaskReply0\<lparr>TaskType := ReduceTask, TaskID := int i, KeyHash := int i - int (length (files c))\<rparr>))
      | (None, allReduceDone) \<Rightarrow> (if allReduceDone then c\<lparr>state := phaseFinished\<rparr> else c, None))"

definition GetTask :: "Coordinator \<Rightarrow> Coordinator \<times> GetTaskReply" where
  "GetTask c0 =
     (case (if state c0 = phaseMap then GetTask_map c0 else (c0, None)) of
        (c1, Some reply) \<Rightarrow> (c1, reply)
      | (c1, None) \<Rightarrow>
          (case (if state c1 = phaseReduce then GetTask_reduce c1 else (c1, None)) of
             (c2, Some reply) \<Rightarrow> (c2, reply)
           | (c2, None) \<Rightarrow>
               if state c2 = phaseFinished then (c2, GetTaskReply0\<lparr>TaskType := DoneTask\<rparr>)
               else (c2, GetTaskReply0\<lparr>TaskType := WaitTask\<rparr>)))"

text \<open>What the timer of a task does after ten seconds.\<close>

definition timer :: "nat \<Rightarrow> Coordinator \<Rightarrow> Coordinator" where
  "timer i c = (if i < length (taskStates c) \<and> taskStates c ! i = taskStateExecuting
                then set_task i taskStateUnassigned c else c)"

definition CompleteTask :: "CompleteTaskArgs \<Rightarrow> Coordinator \<Rightarrow> Coordinator go" where
  "CompleteTask args c =
     bind_go (go_nth (taskStates c) (ct_TaskID args)) (\<lambda>t.
       if t = taskStateExecuting then Inr (set_task (nat (ct_TaskID args)) taskStateDone c) else Inr c)"

definition Done :: "Coordinator \<Rightarrow> bool" where
  "Done c \<longleftrightarrow> state c = phaseFinished"

definition MakeCoordinator :: "string list \<Rightarrow> nat \<Rightarrow> Coordinator" where
  "MakeCoordinator fs n =
     \<lparr>files = fs, nReduce = n, taskStates = replicate (length fs + n) taskStateUnassigned, state = phaseMap\<rparr>"

section \<open>The task table\<close>

lemma scan_tasks_None:
  "scan_tasks i ts b = (None, d) \<longleftrightarrow>
     (\<forall>t \<in> set ts. t \<noteq> taskStateUnassigned) \<and> (d \<longleftrightarrow> b \<and> (\<forall>t \<in> set ts. t = taskStateDone))"
  by (induction ts arbitrary: i b) (auto simp: Let_def)

lemma scan_tasks_Some:
  "scan_tasks i ts b = (Some k, d) \<Longrightarrow> i \<le> k \<and> k < i + length ts \<and> ts ! (k - i) = taskStateUnassigned"
proof (induction ts arbitrary: i b)
  case (Cons t ts)
  show ?case
  proof (cases "t = taskStateUnassigned")
    case True
    then show ?thesis using Cons.prems by simp
  next
    case False
    then have "scan_tasks (i + 1) ts (t = taskStateDone \<and> b) = (Some k, d)"
      using Cons.prems by (auto simp: Let_def split: if_splits)
    from Cons.IH [OF this] show ?thesis by (auto simp: nth_Cons' Suc_diff_le)
  qed
qed simp

text \<open>The invariant of the coordinator: the phase follows the task table.\<close>

definition coord_ok :: "Coordinator \<Rightarrow> bool" where
  "coord_ok c \<longleftrightarrow> length (taskStates c) = length (files c) + nReduce c \<and>
     (state c \<noteq> phaseMap \<longrightarrow> (\<forall>i < length (files c). taskStates c ! i = taskStateDone)) \<and>
     (state c = phaseMap \<longrightarrow> (\<forall>i < nReduce c. taskStates c ! (length (files c) + i) = taskStateUnassigned)) \<and>
     (state c = phaseFinished \<longrightarrow> (\<forall>i < length (taskStates c). taskStates c ! i = taskStateDone))"

text \<open>How the table may differ after an operation, for the statements about a run.\<close>

definition same_job :: "Coordinator \<Rightarrow> Coordinator \<Rightarrow> bool" where
  "same_job c c' \<longleftrightarrow> files c' = files c \<and> nReduce c' = nReduce c \<and> length (taskStates c') = length (taskStates c)"

lemma set_task_fields [simp]:
  "files (set_task i t c) = files c" "nReduce (set_task i t c) = nReduce c" "state (set_task i t c) = state c"
  "taskStates (set_task i t c) = (taskStates c)[i := t]"
  by (simp_all add: set_task_def)

lemma coord_ok_Make: "coord_ok (MakeCoordinator fs n)"
  by (simp add: coord_ok_def MakeCoordinator_def)

lemma GetTask_map_cases:
  assumes "coord_ok c"
  obtains (assign) i where "i < length (files c)" "taskStates c ! i = taskStateUnassigned"
      "GetTask_map c = (set_task i taskStateExecuting c,
         Some (GetTaskReply0\<lparr>FileName := files c ! i, TaskID := int i, NReduce := nReduce c, TaskType := MapTask\<rparr>))"
  | (finished) "\<forall>i < length (files c). taskStates c ! i = taskStateDone" "GetTask_map c = (c\<lparr>state := phaseReduce\<rparr>, None)"
  | (busy) "GetTask_map c = (c, None)" "\<exists>i < length (files c). taskStates c ! i = taskStateExecuting"
proof -
  let ?ts = "take (length (files c)) (taskStates c)"
  have len: "length ?ts = length (files c)" using assms by (simp add: coord_ok_def)
  obtain r d where s: "scan_tasks 0 ?ts True = (r, d)" by (cases "scan_tasks 0 ?ts True")
  show thesis
  proof (cases r)
    case (Some i)
    then have "scan_tasks 0 ?ts True = (Some i, d)" using s by simp
    from scan_tasks_Some [OF this] have "i < length (files c)" "taskStates c ! i = taskStateUnassigned"
      using len by auto
    then show thesis using assign s Some by (simp add: GetTask_map_def)
  next
    case None
    then have sn: "scan_tasks 0 ?ts True = (None, d)" using s by simp
    then have n: "\<forall>t \<in> set ?ts. t \<noteq> taskStateUnassigned" "d \<longleftrightarrow> (\<forall>t \<in> set ?ts. t = taskStateDone)"
      by (simp_all add: scan_tasks_None)
    have el: "(\<forall>t \<in> set ?ts. P t) \<longleftrightarrow> (\<forall>i < length (files c). P (taskStates c ! i))" for P
      using len by (auto simp: all_set_conv_all_nth)
    show thesis
    proof (cases d)
      case True
      then show thesis using finished sn n el by (simp add: GetTask_map_def)
    next
      case False
      then obtain i where "i < length (files c)" "taskStates c ! i \<noteq> taskStateDone" using n(2) el by auto
      moreover from this have "taskStates c ! i \<noteq> taskStateUnassigned" using n(1) el by auto
      ultimately have "\<exists>i < length (files c). taskStates c ! i = taskStateExecuting"
        using taskState.exhaust by (intro exI [of _ i]) auto
      then show thesis using busy sn False by (simp add: GetTask_map_def)
    qed
  qed
qed

lemma GetTask_reduce_cases:
  assumes "coord_ok c"
  obtains (assign) i where "i < nReduce c" "taskStates c ! (length (files c) + i) = taskStateUnassigned"
      "GetTask_reduce c = (set_task (length (files c) + i) taskStateExecuting c,
         Some (GetTaskReply0\<lparr>TaskType := ReduceTask, TaskID := int (length (files c) + i), KeyHash := int i\<rparr>))"
  | (finished) "\<forall>i < nReduce c. taskStates c ! (length (files c) + i) = taskStateDone"
      "GetTask_reduce c = (c\<lparr>state := phaseFinished\<rparr>, None)"
  | (busy) "GetTask_reduce c = (c, None)" "\<exists>i < nReduce c. taskStates c ! (length (files c) + i) = taskStateExecuting"
proof -
  let ?n = "length (files c)" and ?ts = "drop (length (files c)) (taskStates c)"
  have len: "length ?ts = nReduce c" using assms by (simp add: coord_ok_def)
  obtain r d where s: "scan_tasks ?n ?ts True = (r, d)" by (cases "scan_tasks ?n ?ts True")
  show thesis
  proof (cases r)
    case (Some k)
    then have "scan_tasks ?n ?ts True = (Some k, d)" using s by simp
    from scan_tasks_Some [OF this] len assms have "?n \<le> k" "k - ?n < nReduce c"
      "taskStates c ! (?n + (k - ?n)) = taskStateUnassigned"
      by (auto simp: coord_ok_def)
    then show thesis using assign [of "k - ?n"] s Some by (simp add: GetTask_reduce_def)
  next
    case None
    then have sn: "scan_tasks ?n ?ts True = (None, d)" using s by simp
    then have n: "\<forall>t \<in> set ?ts. t \<noteq> taskStateUnassigned" "d \<longleftrightarrow> (\<forall>t \<in> set ?ts. t = taskStateDone)"
      by (simp_all add: scan_tasks_None)
    have el: "(\<forall>t \<in> set ?ts. P t) \<longleftrightarrow> (\<forall>i < nReduce c. P (taskStates c ! (?n + i)))" for P
      using len assms by (auto simp: all_set_conv_all_nth coord_ok_def)
    show thesis
    proof (cases d)
      case True
      then show thesis using finished sn n el by (simp add: GetTask_reduce_def)
    next
      case False
      then obtain i where "i < nReduce c" "taskStates c ! (?n + i) \<noteq> taskStateDone" using n(2) el by auto
      moreover from this have "taskStates c ! (?n + i) \<noteq> taskStateUnassigned" using n(1) el by auto
      ultimately have "\<exists>i < nReduce c. taskStates c ! (?n + i) = taskStateExecuting"
        using taskState.exhaust by (intro exI [of _ i]) auto
      then show thesis using busy sn False by (simp add: GetTask_reduce_def)
    qed
  qed
qed

lemma GetTask_cases:
  assumes ok: "coord_ok c"
  obtains (map) i where "state c = phaseMap" "i < length (files c)" "taskStates c ! i = taskStateUnassigned"
      "GetTask c = (set_task i taskStateExecuting c,
         GetTaskReply0\<lparr>FileName := files c ! i, TaskID := int i, NReduce := nReduce c, TaskType := MapTask\<rparr>)"
  | (reduce) i where "i < nReduce c" "taskStates c ! (length (files c) + i) = taskStateUnassigned"
      "\<forall>j < length (files c). taskStates c ! j = taskStateDone"
      "GetTask c = (set_task (length (files c) + i) taskStateExecuting (c\<lparr>state := phaseReduce\<rparr>),
         GetTaskReply0\<lparr>TaskType := ReduceTask, TaskID := int (length (files c) + i), KeyHash := int i\<rparr>)"
  | (finished) "\<forall>j < length (taskStates c). taskStates c ! j = taskStateDone"
      "GetTask c = (c\<lparr>state := phaseFinished\<rparr>, GetTaskReply0\<lparr>TaskType := DoneTask\<rparr>)"
  | (wait) c' where "GetTask c = (c', GetTaskReply0\<lparr>TaskType := WaitTask\<rparr>)" "taskStates c' = taskStates c"
      "coord_ok c'" "same_job c c'" "state c' \<noteq> phaseMap \<or> c' = c"
      "\<exists>j < length (taskStates c). taskStates c ! j = taskStateExecuting"
proof -
  have len: "length (taskStates c) = length (files c) + nReduce c" using ok by (simp add: coord_ok_def)
  have red: thesis
    if r: "\<forall>j < length (files c). taskStates c ! j = taskStateDone"
      and g: "GetTask c = (case GetTask_reduce (c\<lparr>state := phaseReduce\<rparr>) of
             (c2, Some reply) \<Rightarrow> (c2, reply)
           | (c2, None) \<Rightarrow> if state c2 = phaseFinished then (c2, GetTaskReply0\<lparr>TaskType := DoneTask\<rparr>)
               else (c2, GetTaskReply0\<lparr>TaskType := WaitTask\<rparr>))"
      and okr: "coord_ok (c\<lparr>state := phaseReduce\<rparr>)"
    using okr
  proof (cases rule: GetTask_reduce_cases)
    case (assign i)
    then show thesis using reduce [of i] r g by simp
  next
    case fin: finished
    have "\<forall>j < length (taskStates c). taskStates c ! j = taskStateDone"
    proof (intro allI impI)
      fix j assume "j < length (taskStates c)"
      then show "taskStates c ! j = taskStateDone"
        using r fin(1) len by (cases "j < length (files c)") (auto dest: spec [of _ "j - length (files c)"])
    qed
    then show thesis using finished fin(2) g by simp
  next
    case busy
    then have "\<exists>j < length (taskStates c). taskStates c ! j = taskStateExecuting"
      using len by (auto intro: exI [of _ "length (files c) + _"])
    then show thesis using wait [of "c\<lparr>state := phaseReduce\<rparr>"] busy(1) g okr by (simp add: same_job_def)
  qed
  consider "state c = phaseMap" | "state c = phaseReduce" | "state c = phaseFinished" by (cases "state c")
  then show thesis
  proof cases
    case 1
    from ok show thesis
    proof (cases rule: GetTask_map_cases)
      case (assign i)
      then show thesis using map [of i] 1 by (simp add: GetTask_def)
    next
      case fin: finished
      show thesis
        by (rule red) (use 1 fin ok in \<open>simp_all add: GetTask_def coord_ok_def\<close>)
    next
      case busy
      then show thesis using wait [of c] 1 ok len by (force simp: GetTask_def same_job_def)
    qed
  next
    case 2
    then have same: "c\<lparr>state := phaseReduce\<rparr> = c" by simp
    show thesis
      by (rule red [unfolded same]) (use 2 ok in \<open>simp_all add: GetTask_def coord_ok_def\<close>)
  next
    case 3
    then have same: "c\<lparr>state := phaseFinished\<rparr> = c" by simp
    show thesis
      by (rule finished [unfolded same]) (use 3 ok in \<open>simp_all add: GetTask_def coord_ok_def\<close>)
  qed
qed

lemma GetTask_ok:
  assumes "coord_ok c"
  shows "coord_ok (fst (GetTask c))" and "same_job c (fst (GetTask c))"
    and "state (fst (GetTask c)) \<noteq> phaseMap \<or> state (fst (GetTask c)) = state c"
proof -
  from assms have "coord_ok (fst (GetTask c)) \<and> same_job c (fst (GetTask c)) \<and>
      (state (fst (GetTask c)) \<noteq> phaseMap \<or> state (fst (GetTask c)) = state c)"
  proof (cases rule: GetTask_cases)
    case (map i)
    then show ?thesis using assms by (simp add: coord_ok_def same_job_def nth_list_update)
  next
    case (reduce i)
    then show ?thesis using assms by (simp add: coord_ok_def same_job_def nth_list_update)
  next
    case finished
    then show ?thesis using assms by (simp add: coord_ok_def same_job_def)
  next
    case (wait c')
    then show ?thesis by (cases "c' = c") simp_all
  qed
  then show "coord_ok (fst (GetTask c))" and "same_job c (fst (GetTask c))"
    and "state (fst (GetTask c)) \<noteq> phaseMap \<or> state (fst (GetTask c)) = state c" by blast+
qed

lemma timer_ok:
  assumes "coord_ok c"
  shows "coord_ok (timer i c)" and "same_job c (timer i c)"
  using assms by (auto simp: timer_def coord_ok_def same_job_def nth_list_update)

lemma CompleteTask_ok:
  assumes "coord_ok c" and "CompleteTask a c = Inr c'"
  shows "coord_ok c'" and "same_job c c'"
  using assms by (auto simp: CompleteTask_def coord_ok_def same_job_def nth_list_update go_access_iff split: if_splits)

end
