(* ===== verification/MapReduce.thy ===== *)
theory MapReduce
  imports MrCoordinator "HOL-Library.AList" "HOL-Library.Multiset" "HOL-Library.List_Lexorder" "HOL-Library.Char_ord"
begin

text \<open>
  MapReduce workers (\<^verbatim>\<open>mr/worker.go\<close>), the sequential reference program
  (\<^verbatim>\<open>main/mrsequential.go\<close>), the comparison the tests make (\<^verbatim>\<open>mr/util.go\<close>) and two applications
  (\<^verbatim>\<open>mrapps/wc.go\<close>, \<^verbatim>\<open>mrapps/indexer.go\<close>). A run of a job is a sequence of events: workers take
  steps, crash and are started, calls lose their replies, and timers fire, in any order.

  \<^verbatim>\<open>sort.Slice\<close> and \<^verbatim>\<open>sort.Sort\<close> are not stable, so the sorting function is a parameter of the
  model; theorems assume that it sorts by key.
\<close>

section \<open>Files\<close>

record KeyValue =
  Key :: string
  Value :: string

text \<open>
  Intermediate files \<^verbatim>\<open>mr-X-Y\<close> hold JSON values, result files \<^verbatim>\<open>mr-out-Y\<close> lines of text. A
  temporary file is renamed when it is complete, so a file appears with all its contents.
\<close>

datatype fname = Inter nat nat | Out nat

datatype mr_file = KvFile "KeyValue list" | OutFile "string list"

type_synonym file_system = "(fname \<times> mr_file) list"

fun name_of :: "fname \<Rightarrow> string" where
  "name_of (Inter x y) = ''mr-'' @ itoa x @ ''-'' @ itoa y"
| "name_of (Out y) = ''mr-out-'' @ itoa y"

text \<open>
  \<^verbatim>\<open>filepath.Glob("mr-*-Y")\<close>, in the order of the names. The pattern matches the intermediate files
  of bucket \<open>Y\<close>, and also the result file of the task itself if a worker has already written it.
\<close>

fun glob_match :: "nat \<Rightarrow> fname \<Rightarrow> bool" where
  "glob_match y (Inter x y') = (y' = y)"
| "glob_match y (Out y') = (y' = y)"

definition glob :: "nat \<Rightarrow> file_system \<Rightarrow> fname list" where
  "glob y fs = sort_key name_of (filter (glob_match y) (remdups (map fst fs)))"

text \<open>
  The JSON decoder stops at the first thing that is no JSON value. What it finds in a
  file of text lines is given by \<open>json_text\<close>.
\<close>

fun decode_file :: "(string list \<Rightarrow> KeyValue list) \<Rightarrow> mr_file \<Rightarrow> KeyValue list" where
  "decode_file json_text (KvFile kvs) = kvs"
| "decode_file json_text (OutFile ls) = json_text ls"

section \<open>The worker\<close>

definition ihash :: "string \<Rightarrow> nat" where
  "ihash key = unat (and (fnv32a key) 0x7fffffff)"

text \<open>Partitioning the output of a map task in memory.\<close>

fun bucket_loop :: "nat \<Rightarrow> KeyValue list \<Rightarrow> KeyValue list list \<Rightarrow> KeyValue list list go" where
  "bucket_loop n [] bs = Inr bs"
| "bucket_loop n (kv # kvs) bs =
     (if n = 0 then Inl (Panic ''integer divide by zero'')
      else let index = ihash (Key kv) mod n in bucket_loop n kvs (bs[index := bs ! index @ [kv]]))"

definition bucketize :: "nat \<Rightarrow> KeyValue list \<Rightarrow> KeyValue list list go" where
  "bucketize n kva = bucket_loop n kva (replicate n [])"

text \<open>A bucket without pairs is a nil slice and gets no file.\<close>

definition write_bucket :: "nat \<Rightarrow> nat \<Rightarrow> KeyValue list \<Rightarrow> file_system \<Rightarrow> file_system" where
  "write_bucket x i b fs = (if b = [] then fs else AList.update (Inter x i) (KvFile b) fs)"

text \<open>The loop over the sorted pairs: equal keys are adjacent.\<close>

function reduce_loop :: "(string \<Rightarrow> string list \<Rightarrow> string) \<Rightarrow> KeyValue list \<Rightarrow> (string \<times> string) list" where
  "reduce_loop reducef [] = []"
| "reduce_loop reducef (kv # kvs) =
     (Key kv, reducef (Key kv) (Value kv # map Value (takeWhile (\<lambda>x. Key x = Key kv) kvs))) #
     reduce_loop reducef (dropWhile (\<lambda>x. Key x = Key kv) kvs)"
  by pat_completeness auto
termination
  by (relation "measure (\<lambda>(_, kvs). length kvs)") (auto simp: less_Suc_eq_le length_dropWhile_le)

definition format_line :: "string \<times> string \<Rightarrow> string" where
  "format_line kv = fst kv @ '' '' @ snd kv @ [char_of (10 :: nat)]"

definition read_bucket :: "(string list \<Rightarrow> KeyValue list) \<Rightarrow> nat \<Rightarrow> file_system \<Rightarrow> KeyValue list" where
  "read_bucket json_text y fs = concat (map (\<lambda>f. decode_file json_text (the (map_of fs f))) (glob y fs))"

definition reduce_lines :: "(KeyValue list \<Rightarrow> KeyValue list) \<Rightarrow> (string \<Rightarrow> string list \<Rightarrow> string) \<Rightarrow> KeyValue list \<Rightarrow> string list" where
  "reduce_lines sorter reducef kvs = map format_line (reduce_loop reducef (sorter kvs))"

text \<open>An application and its environment: the input files, the sorting function, the JSON decoder on text.\<close>

record app =
  input :: "string \<rightharpoonup> string"
  mapf :: "string \<Rightarrow> string \<Rightarrow> KeyValue list"
  reducef :: "string \<Rightarrow> string list \<Rightarrow> string"
  sorter :: "KeyValue list \<Rightarrow> KeyValue list"
  json_text :: "string list \<Rightarrow> KeyValue list"

text \<open>
  Where a worker is: before a call of GetTask; writing bucket \<open>k\<close> of a map task (at the end
  of the list, before the call of CompleteTask); before the reading of a reduce task; before the call
  of CompleteTask of a reduce task; gone.
\<close>

datatype worker = Idle | Mapping nat "KeyValue list list" nat | Reducing nat int | Reduced int | Exited

record world =
  coord :: Coordinator
  disk :: file_system
  workers :: "nat \<Rightarrow> worker"

definition set_worker :: "nat \<Rightarrow> worker \<Rightarrow> world \<Rightarrow> world" where
  "set_worker i p w = w\<lparr>workers := (workers w)(i := p)\<rparr>"

text \<open>The branches of the worker's loop for the reply of GetTask; a fatal error ends the worker.\<close>

definition take_task :: "app \<Rightarrow> GetTaskReply \<Rightarrow> worker" where
  "take_task a reply = (case TaskType reply of
     MapTask \<Rightarrow>
       (case input a (FileName reply) of
          None \<Rightarrow> Exited
        | Some content \<Rightarrow>
            (case bucketize (NReduce reply) (mapf a (FileName reply) content) of
               Inl _ \<Rightarrow> Exited
             | Inr bs \<Rightarrow> Mapping (nat (TaskID reply)) bs 0))
   | ReduceTask \<Rightarrow> Reducing (nat (KeyHash reply)) (TaskID reply)
   | WaitTask \<Rightarrow> Idle
   | DoneTask \<Rightarrow> Exited
   | NoReply \<Rightarrow> Exited)"

definition complete :: "TaskType \<Rightarrow> int \<Rightarrow> world \<Rightarrow> world go" where
  "complete t tid w = bind_go (CompleteTask \<lparr>ct_TaskType = t, ct_TaskID = tid\<rparr> (coord w)) (\<lambda>c. Inr (w\<lparr>coord := c\<rparr>))"

definition worker_step :: "app \<Rightarrow> nat \<Rightarrow> world \<Rightarrow> world go" where
  "worker_step a i w = (case workers w i of
     Idle \<Rightarrow> (let (c, reply) = GetTask (coord w) in Inr (set_worker i (take_task a reply) (w\<lparr>coord := c\<rparr>)))
   | Mapping x bs k \<Rightarrow>
       if k < length bs
       then Inr (set_worker i (Mapping x bs (k + 1)) (w\<lparr>disk := write_bucket x k (bs ! k) (disk w)\<rparr>))
       else bind_go (complete MapTask (int x) w) (\<lambda>w'. Inr (set_worker i Idle w'))
   | Reducing y tid \<Rightarrow>
       Inr (set_worker i (Reduced tid)
         (w\<lparr>disk := AList.update (Out y)
              (OutFile (reduce_lines (sorter a) (reducef a) (read_bucket (json_text a) y (disk w)))) (disk w)\<rparr>))
   | Reduced tid \<Rightarrow> bind_go (complete ReduceTask tid w) (\<lambda>w'. Inr (set_worker i Idle w'))
   | Exited \<Rightarrow> Inr w)"

text \<open>
  Events: a worker's step; a call of GetTask whose reply is lost (the worker gives up); a call
  of CompleteTask that is not answered, executed or not (the worker goes on); a crash; the
  start of a worker; a timer.
\<close>

datatype event = Step nat | LostGetTask nat | LostComplete nat | Crash nat | StartWorker nat | Timer nat

definition mr_do :: "app \<Rightarrow> event \<Rightarrow> world \<Rightarrow> world go" where
  "mr_do a e w = (case e of
     Step i \<Rightarrow> worker_step a i w
   | LostGetTask i \<Rightarrow>
       (if workers w i = Idle then Inr (set_worker i Exited (w\<lparr>coord := fst (GetTask (coord w))\<rparr>)) else Inr w)
   | LostComplete i \<Rightarrow>
       (case workers w i of
          Mapping x bs k \<Rightarrow> if length bs \<le> k then Inr (set_worker i Idle w) else Inr w
        | Reduced tid \<Rightarrow> Inr (set_worker i Idle w)
        | _ \<Rightarrow> Inr w)
   | Crash i \<Rightarrow> Inr (set_worker i Exited w)
   | StartWorker i \<Rightarrow> (if workers w i = Exited then Inr (set_worker i Idle w) else Inr w)
   | Timer t \<Rightarrow> Inr (w\<lparr>coord := timer t (coord w)\<rparr>))"

fun mr_run :: "app \<Rightarrow> event list \<Rightarrow> world \<Rightarrow> world go" where
  "mr_run a [] w = Inr w"
| "mr_run a (e # es) w = bind_go (mr_do a e w) (mr_run a es)"

definition start_job :: "string list \<Rightarrow> nat \<Rightarrow> world" where
  "start_job inputs n = \<lparr>coord = MakeCoordinator inputs n, disk = [], workers = (\<lambda>_. Exited)\<rparr>"

section \<open>The sequential program and the comparison\<close>

fun read_all :: "app \<Rightarrow> string list \<Rightarrow> KeyValue list go" where
  "read_all a [] = Inr []"
| "read_all a (f # rest) = (case input a f of
     None \<Rightarrow> Inl (Fatal ''cannot open'')
   | Some content \<Rightarrow> bind_go (read_all a rest) (\<lambda>kvs. Inr (mapf a f content @ kvs)))"

text \<open>The lines of the file \<^verbatim>\<open>mr-out-0\<close> that the sequential program writes.\<close>

definition mrsequential :: "app \<Rightarrow> string list \<Rightarrow> string list go" where
  "mrsequential a inputs = bind_go (read_all a inputs) (\<lambda>kvs. Inr (reduce_lines (sorter a) (reducef a) kvs))"

definition mkCorrectOutput :: "app \<Rightarrow> string list \<Rightarrow> string list go" where
  "mkCorrectOutput a inputs = bind_go (mrsequential a inputs) (\<lambda>ls. Inr (sort ls))"

text \<open>The lines of all result files; the name pattern \<^verbatim>\<open>mr-out-[0-9]\<close> has one digit.\<close>

definition out_lines :: "nat \<Rightarrow> file_system \<Rightarrow> string list" where
  "out_lines y fs = (case map_of fs (Out y) of Some (OutFile ls) \<Rightarrow> ls | _ \<Rightarrow> [])"

definition mergeOutput :: "file_system \<Rightarrow> string list go" where
  "mergeOutput fs =
     (let found = filter (\<lambda>y. map_of fs (Out y) \<noteq> None) [0..<10] in
      if found = [] then Inl (Fatal ''reduce created no mr-out-X output files!'')
      else Inr (sort (concat (map (\<lambda>y. out_lines y fs) found))))"

section \<open>Applications\<close>

text \<open>
  \<^verbatim>\<open>strings.FieldsFunc\<close> with a predicate for separators; \<open>is_letter\<close> stands for \<^verbatim>\<open>unicode.IsLetter\<close>.
\<close>

fun fields_func :: "(char \<Rightarrow> bool) \<Rightarrow> string \<Rightarrow> string \<Rightarrow> string list" where
  "fields_func sep [] cur = (if cur = [] then [] else [cur])"
| "fields_func sep (c # cs) cur =
     (if sep c then (if cur = [] then fields_func sep cs [] else cur # fields_func sep cs [])
      else fields_func sep cs (cur @ [c]))"

definition FieldsFunc :: "(char \<Rightarrow> bool) \<Rightarrow> string \<Rightarrow> string list" where
  "FieldsFunc sep s = fields_func sep s []"

definition wc_Map :: "(char \<Rightarrow> bool) \<Rightarrow> string \<Rightarrow> string \<Rightarrow> KeyValue list" where
  "wc_Map is_letter filename contents =
     map (\<lambda>w. \<lparr>Key = w, Value = ''1''\<rparr>) (FieldsFunc (\<lambda>r. \<not> is_letter r) contents)"

definition wc_Reduce :: "string \<Rightarrow> string list \<Rightarrow> string" where
  "wc_Reduce key values = itoa (length values)"

text \<open>The indexer ranges over a Go map, whose order is arbitrary: \<open>order\<close> is the order it takes.\<close>

definition indexer_Map :: "(char \<Rightarrow> bool) \<Rightarrow> (string list \<Rightarrow> string list) \<Rightarrow> string \<Rightarrow> string \<Rightarrow> KeyValue list" where
  "indexer_Map is_letter order document val =
     map (\<lambda>w. \<lparr>Key = w, Value = document\<rparr>) (order (remdups (FieldsFunc (\<lambda>r. \<not> is_letter r) val)))"

fun join_strings :: "string \<Rightarrow> string list \<Rightarrow> string" where
  "join_strings sep [] = []"
| "join_strings sep [x] = x"
| "join_strings sep (x # y # xs) = x @ sep @ join_strings sep (y # xs)"

definition indexer_Reduce :: "string \<Rightarrow> string list \<Rightarrow> string" where
  "indexer_Reduce key values = itoa (length values) @ '' '' @ join_strings '','' (sort values)"

text \<open>
  The applications of the crash tests.  \<^verbatim>\<open>crash.go\<close> draws a number below 1000 in every call and
  may end the process; \<^verbatim>\<open>nocrash.go\<close>, whose output is expected of it, draws and goes on.
  A call that ends the process has no result.
\<close>

datatype crash_choice = ExitNow | SleepFirst | GoOn

definition crash_maybeCrash :: "nat \<Rightarrow> crash_choice" where
  "crash_maybeCrash rr = (if rr < 330 then ExitNow else if rr < 660 then SleepFirst else GoOn)"

definition nocrash_maybeCrash :: "nat \<Rightarrow> crash_choice" where
  "nocrash_maybeCrash rr = (if False \<and> rr < 500 then ExitNow else GoOn)"

definition crash_Map :: "nat \<Rightarrow> string \<Rightarrow> string \<Rightarrow> KeyValue list option" where
  "crash_Map rr filename contents =
     (if crash_maybeCrash rr = ExitNow then None
      else Some [\<lparr>Key = ''a'', Value = filename\<rparr>, \<lparr>Key = ''b'', Value = itoa (length filename)\<rparr>,
                 \<lparr>Key = ''c'', Value = itoa (length contents)\<rparr>, \<lparr>Key = ''d'', Value = ''xyzzy''\<rparr>])"

definition crash_Reduce :: "nat \<Rightarrow> string \<Rightarrow> string list \<Rightarrow> string option" where
  "crash_Reduce rr key values =
     (if crash_maybeCrash rr = ExitNow then None else Some (join_strings '' '' (sort values)))"

definition nocrash_Map :: "nat \<Rightarrow> string \<Rightarrow> string \<Rightarrow> KeyValue list option" where
  "nocrash_Map rr filename contents =
     (if nocrash_maybeCrash rr = ExitNow then None
      else Some [\<lparr>Key = ''a'', Value = filename\<rparr>, \<lparr>Key = ''b'', Value = itoa (length filename)\<rparr>,
                 \<lparr>Key = ''c'', Value = itoa (length contents)\<rparr>, \<lparr>Key = ''d'', Value = ''xyzzy''\<rparr>])"

definition nocrash_Reduce :: "nat \<Rightarrow> string \<Rightarrow> string list \<Rightarrow> string option" where
  "nocrash_Reduce rr key values =
     (if nocrash_maybeCrash rr = ExitNow then None else Some (join_strings '' '' (sort values)))"

text \<open>\<^verbatim>\<open>early_exit.go\<close>; some of its reduce tasks sleep first.\<close>

definition early_exit_Map :: "string \<Rightarrow> string \<Rightarrow> KeyValue list" where
  "early_exit_Map filename contents = [\<lparr>Key = filename, Value = ''1''\<rparr>]"

definition early_exit_Reduce :: "string \<Rightarrow> string list \<Rightarrow> string" where
  "early_exit_Reduce key values = itoa (length values)"

section \<open>Grouping\<close>

text \<open>A sorting function that may permute pairs with equal keys.\<close>

definition key_sorter :: "(KeyValue list \<Rightarrow> KeyValue list) \<Rightarrow> bool" where
  "key_sorter srt \<longleftrightarrow> (\<forall>xs. mset (srt xs) = mset xs \<and> sorted (map Key (srt xs)))"

text \<open>An application whose result does not depend on the order of the values of a key.\<close>

definition order_free :: "(string \<Rightarrow> string list \<Rightarrow> string) \<Rightarrow> bool" where
  "order_free red \<longleftrightarrow> (\<forall>k vs vs'. mset vs = mset vs' \<longrightarrow> red k vs = red k vs')"

definition values_of :: "string \<Rightarrow> KeyValue list \<Rightarrow> string list" where
  "values_of k kvs = map Value (filter (\<lambda>kv. Key kv = k) kvs)"

definition result_of :: "(string \<Rightarrow> string list \<Rightarrow> string) \<Rightarrow> KeyValue list \<Rightarrow> string \<Rightarrow> string \<times> string" where
  "result_of red kvs k = (k, red k (values_of k kvs))"

lemma sorted_run:
  assumes "sorted (k # map Key kvs)"
  shows "filter (\<lambda>x. Key x = k) kvs = takeWhile (\<lambda>x. Key x = k) kvs"
    and "filter (\<lambda>x. Key x \<noteq> k) kvs = dropWhile (\<lambda>x. Key x = k) kvs"
  using assms
proof (induction kvs)
  case (Cons kv kvs)
  { case 1
    then have "filter (\<lambda>x. Key x = k) kvs = []" if "Key kv \<noteq> k"
      using that by (auto simp: filter_empty_conv)
    with Cons.IH(1) 1 show ?case by auto }
  { case 2
    then have "filter (\<lambda>x. Key x \<noteq> k) kvs = kvs" if "Key kv \<noteq> k"
      using that by (auto simp: filter_id_conv)
    with Cons.IH(2) 2 show ?case by auto }
qed simp_all

text \<open>On sorted pairs the loop calls the reduce function once for every key, with all its values.\<close>

lemma reduce_loop_spec:
  assumes "sorted (map Key kvs)"
  shows "reduce_loop red kvs = map (result_of red kvs) (sorted_list_of_set (Key ` set kvs))"
  using assms
proof (induction red kvs rule: reduce_loop.induct)
  case (2 red kv kvs)
  let ?k = "Key kv" and ?rest = "dropWhile (\<lambda>x. Key x = Key kv) kvs"
  have run: "takeWhile (\<lambda>x. Key x = ?k) kvs = filter (\<lambda>x. Key x = ?k) kvs" "?rest = filter (\<lambda>x. Key x \<noteq> ?k) kvs"
    using sorted_run [of ?k kvs] 2(2) by simp_all
  have sr: "sorted (map Key ?rest)" using 2(2) run(2) by (simp add: sorted_filter)
  have keys: "sorted_list_of_set (Key ` set (kv # kvs)) = ?k # sorted_list_of_set (Key ` set ?rest)"
  proof -
    have "Key ` set (kv # kvs) = insert ?k (Key ` set ?rest)" using run(2) by auto
    moreover have "?k \<notin> Key ` set ?rest" using run(2) by auto
    moreover have "\<forall>x \<in> Key ` set ?rest. ?k \<le> x" using 2(2) run(2) by auto
    ultimately show ?thesis by (simp add: insort_is_Cons)
  qed
  have "result_of red ?rest k = result_of red (kv # kvs) k" if "k \<in> Key ` set ?rest" for k
  proof -
    have "k \<noteq> ?k" using that run(2) by auto
    then have "filter (\<lambda>x. Key x = k) ?rest = filter (\<lambda>x. Key x = k) (kv # kvs)"
      unfolding run(2) by (auto intro!: filter_cong)
    then show ?thesis by (simp add: result_of_def values_of_def)
  qed
  then have "map (result_of red ?rest) (sorted_list_of_set (Key ` set ?rest)) =
      map (result_of red (kv # kvs)) (sorted_list_of_set (Key ` set ?rest))" by simp
  with 2(1) [OF sr] keys run(1) show ?case by (simp add: result_of_def values_of_def)
qed simp

text \<open>The lines for a collection of pairs, whatever the order of the pairs and of equal keys.\<close>

definition lines_for :: "(string \<Rightarrow> string list \<Rightarrow> string) \<Rightarrow> KeyValue list \<Rightarrow> string list" where
  "lines_for red kvs = map format_line (map (result_of red kvs) (sorted_list_of_set (Key ` set kvs)))"

lemma result_of_mset:
  assumes "order_free red" and "mset xs = mset ys"
  shows "result_of red xs = result_of red ys"
proof
  fix k
  have "mset (values_of k xs) = mset (values_of k ys)" using assms(2) by (simp add: values_of_def)
  then have "red k (values_of k xs) = red k (values_of k ys)" using assms(1) unfolding order_free_def by blast
  then show "result_of red xs k = result_of red ys k" by (simp add: result_of_def)
qed

lemma lines_for_mset:
  assumes "order_free red" and "mset xs = mset ys"
  shows "lines_for red xs = lines_for red ys"
  using result_of_mset [OF assms] mset_eq_setD [OF assms(2)] by (simp add: lines_for_def)

lemma reduce_lines_eq:
  assumes "key_sorter srt" and "order_free red"
  shows "reduce_lines srt red kvs = lines_for red kvs"
proof -
  have s: "sorted (map Key (srt kvs))" "mset (srt kvs) = mset kvs" using assms(1) by (auto simp: key_sorter_def)
  show ?thesis
    using lines_for_mset [OF assms(2) s(2)] by (simp add: reduce_lines_def reduce_loop_spec [OF s(1)] lines_for_def)
qed

section \<open>Partitioning\<close>

definition bucket :: "nat \<Rightarrow> nat \<Rightarrow> KeyValue list \<Rightarrow> KeyValue list" where
  "bucket n y kva = filter (\<lambda>kv. ihash (Key kv) mod n = y) kva"

lemma bucket_loop_eq:
  assumes "0 < n" and "length bs = n"
  shows "bucket_loop n kva bs = Inr (map (\<lambda>y. bs ! y @ bucket n y kva) [0..<n])"
  using assms(2)
proof (induction kva arbitrary: bs)
  case Nil
  then have "map ((!) bs) [0..<n] = bs" using map_nth [of bs] by simp
  then show ?case by (simp add: bucket_def)
next
  case (Cons kv kva)
  let ?bs = "bs[ihash (Key kv) mod n := bs ! (ihash (Key kv) mod n) @ [kv]]"
  have "map (\<lambda>y. ?bs ! y @ bucket n y kva) [0..<n] = map (\<lambda>y. bs ! y @ bucket n y (kv # kva)) [0..<n]"
    using Cons.prems by (auto simp: bucket_def nth_list_update)
  with Cons assms(1) show ?case by (simp add: Let_def)
qed

lemma bucketize_eq: "0 < n \<Longrightarrow> bucketize n kva = Inr (map (\<lambda>y. bucket n y kva) [0..<n])"
  by (simp add: bucketize_def bucket_loop_eq)

lemma partition_mset:
  assumes "0 < (n :: nat)"
  shows "mset (concat (map (\<lambda>y. filter (\<lambda>x. h x mod n = y) xs) [0..<n])) = mset xs"
proof (induction xs)
  case Nil
  then show ?case by (simp add: concat_eq_Nil_conv)
next
  case (Cons x xs)
  let ?f = "\<lambda>y. filter (\<lambda>x. h x mod n = y) xs"
  have "mset (concat (map (\<lambda>y. filter (\<lambda>x. h x mod n = y) (x # xs)) [0..<m])) =
      mset (concat (map ?f [0..<m])) + (if h x mod n < m then {#x#} else {#})" for m
    by (induction m) auto
  from this [of n] Cons assms show ?case by simp
qed

lemma lines_for_bucket:
  assumes "order_free red"
  shows "lines_for red (bucket n y kvs) =
    map format_line (map (result_of red kvs) (filter (\<lambda>k. ihash k mod n = y) (sorted_list_of_set (Key ` set kvs))))"
proof -
  let ?l = "filter (\<lambda>k. ihash k mod n = y) (sorted_list_of_set (Key ` set kvs))"
  have eq: "Key ` set (bucket n y kvs) = set ?l" by (auto simp: bucket_def)
  have "sorted_list_of_set (set ?l) = ?l"
    by (rule sorted_list_of_set.idem_if_sorted_distinct) (simp_all add: sorted_wrt_filter)
  then have keys: "sorted_list_of_set (Key ` set (bucket n y kvs)) = ?l" by (simp only: eq)
  have "result_of red (bucket n y kvs) k = result_of red kvs k" if "ihash k mod n = y" for k
    using that by (simp add: result_of_def values_of_def bucket_def conj_commute cong: conj_cong)
  then show ?thesis by (simp add: lines_for_def keys)
qed

text \<open>
  The heart of the matter: reducing bucket by bucket gives the same lines as reducing
  everything at once.
\<close>

lemma bucketwise_lines:
  assumes "0 < n" and "order_free red"
  shows "mset (concat (map (\<lambda>y. lines_for red (bucket n y kvs)) [0..<n])) = mset (lines_for red kvs)"
proof -
  let ?ks = "sorted_list_of_set (Key ` set kvs)" and ?g = "\<lambda>k. format_line (result_of red kvs k)"
  have "concat (map (\<lambda>y. lines_for red (bucket n y kvs)) [0..<n]) =
      map ?g (concat (map (\<lambda>y. filter (\<lambda>k. ihash k mod n = y) ?ks) [0..<n]))"
    by (simp add: lines_for_bucket [OF assms(2)] map_concat comp_def)
  then show ?thesis using partition_mset [OF assms(1), of ihash ?ks] by (simp add: lines_for_def comp_def)
qed

end
