(* ===== verification/MrJob.thy ===== *)
theory MrJob
  imports MapReduce
begin

text \<open>
  Runs of a MapReduce job: the invariant that ties the coordinator's task table to the files on
  disk and to what each worker is doing, and its consequences. A finished job has
  computed what the sequential program computes, and an undisturbed worker finishes the job.
\<close>

section \<open>The state of a job\<close>

definition kva_of :: "app \<Rightarrow> string list \<Rightarrow> nat \<Rightarrow> KeyValue list" where
  "kva_of a inputs x = mapf a (inputs ! x) (the (input a (inputs ! x)))"

definition all_kvs :: "app \<Rightarrow> string list \<Rightarrow> KeyValue list" where
  "all_kvs a inputs = concat (map (kva_of a inputs) [0..<length inputs])"

text \<open>What belongs into the file \<^verbatim>\<open>mr-x-y\<close>, and the lines of \<^verbatim>\<open>mr-out-y\<close>.\<close>

definition part :: "app \<Rightarrow> string list \<Rightarrow> nat \<Rightarrow> nat \<Rightarrow> nat \<Rightarrow> KeyValue list" where
  "part a inputs n x y = bucket n y (kva_of a inputs x)"

definition expected :: "app \<Rightarrow> string list \<Rightarrow> nat \<Rightarrow> nat \<Rightarrow> string list" where
  "expected a inputs n y = lines_for (reducef a) (bucket n y (all_kvs a inputs))"

text \<open>
  The conditions on the application: readable input, a sorting function, a reduce
  function that does not depend on the order of values, and result files that do not happen
  to start with a JSON object.
\<close>

definition app_ok :: "app \<Rightarrow> string list \<Rightarrow> nat \<Rightarrow> bool" where
  "app_ok a inputs n \<longleftrightarrow> 0 < n \<and> (\<forall>f \<in> set inputs. input a f \<noteq> None) \<and> key_sorter (sorter a) \<and>
     order_free (reducef a) \<and> (\<forall>y < n. json_text a (expected a inputs n y) = [])"

definition written :: "app \<Rightarrow> string list \<Rightarrow> nat \<Rightarrow> nat \<Rightarrow> nat \<Rightarrow> file_system \<Rightarrow> bool" where
  "written a inputs n x k d \<longleftrightarrow> (\<forall>y < k. part a inputs n x y \<noteq> [] \<longrightarrow> map_of d (Inter x y) \<noteq> None)"

definition disk_ok :: "app \<Rightarrow> string list \<Rightarrow> nat \<Rightarrow> file_system \<Rightarrow> bool" where
  "disk_ok a inputs n d \<longleftrightarrow>
     (\<forall>x y b. map_of d (Inter x y) = Some b \<longrightarrow> x < length inputs \<and> b = KvFile (part a inputs n x y) \<and> part a inputs n x y \<noteq> []) \<and>
     (\<forall>y b. map_of d (Out y) = Some b \<longrightarrow> y < n \<and> b = OutFile (expected a inputs n y))"

definition tasks_ok :: "app \<Rightarrow> string list \<Rightarrow> nat \<Rightarrow> taskState list \<Rightarrow> file_system \<Rightarrow> bool" where
  "tasks_ok a inputs n ts d \<longleftrightarrow>
     (\<forall>x < length inputs. ts ! x = taskStateDone \<longrightarrow> written a inputs n x n d) \<and>
     (\<forall>y < n. ts ! (length inputs + y) = taskStateDone \<longrightarrow> map_of d (Out y) \<noteq> None)"

fun worker_ok :: "app \<Rightarrow> string list \<Rightarrow> nat \<Rightarrow> phase \<Rightarrow> file_system \<Rightarrow> worker \<Rightarrow> bool" where
  "worker_ok a inputs n ph d (Mapping x bs k) =
     (x < length inputs \<and> bs = map (part a inputs n x) [0..<n] \<and> written a inputs n x k d)"
| "worker_ok a inputs n ph d (Reducing y tid) = (y < n \<and> tid = int (length inputs + y) \<and> ph \<noteq> phaseMap)"
| "worker_ok a inputs n ph d (Reduced tid) = (\<exists>y < n. tid = int (length inputs + y) \<and> map_of d (Out y) \<noteq> None)"
| "worker_ok a inputs n ph d _ = True"

definition job_inv :: "app \<Rightarrow> string list \<Rightarrow> nat \<Rightarrow> world \<Rightarrow> bool" where
  "job_inv a inputs n w \<longleftrightarrow> coord_ok (coord w) \<and> files (coord w) = inputs \<and> nReduce (coord w) = n \<and>
     disk_ok a inputs n (disk w) \<and> tasks_ok a inputs n (taskStates (coord w)) (disk w) \<and>
     (\<forall>i. worker_ok a inputs n (state (coord w)) (disk w) (workers w i))"

lemma mset_concat_distinct:
  "distinct L \<Longrightarrow> mset (concat (map g L)) = (\<Sum>f \<in> set L. mset (g f))"
  by (induction L) auto

lemma mset_concat_sort: "mset (concat (map g (sort_key k L))) = mset (concat (map g L))"
proof -
  have "mset (map g (sort_key k L)) = mset (map g L)" by simp
  then show ?thesis by (metis mset_concat mset_map sum_mset_sum_list)
qed

text \<open>A reduce task that starts when all map tasks are done reads exactly its bucket.\<close>

lemma read_bucket_mset:
  assumes d: "disk_ok a inputs n d" and maps: "\<And>x. x < length inputs \<Longrightarrow> written a inputs n x n d"
    and y: "y < n" and j: "json_text a (expected a inputs n y) = []"
  shows "mset (read_bucket (json_text a) y d) = mset (bucket n y (all_kvs a inputs))"
proof -
  let ?L = "filter (glob_match y) (remdups (map fst d))"
  let ?g = "\<lambda>f. decode_file (json_text a) (the (map_of d f))"
  define g' where "g' f = (case f of Inter x _ \<Rightarrow> part a inputs n x y | Out _ \<Rightarrow> [])" for f
  let ?S = "insert (Out y) ((\<lambda>x. Inter x y) ` {..<length inputs})"
  have L: "f \<in> set ?L \<longleftrightarrow> glob_match y f \<and> map_of d f \<noteq> None" for f
    using map_of_eq_None_iff [of d f] by auto
  have dI: "map_of d (Inter x z) = Some b \<Longrightarrow> x < length inputs \<and> b = KvFile (part a inputs n x z)"
    and dO: "map_of d (Out z) = Some b \<Longrightarrow> b = OutFile (expected a inputs n z)" for x z b
    using d unfolding disk_ok_def by blast+
  have gS: "?g f = g' f \<and> f \<in> ?S" if "f \<in> set ?L" for f
  proof -
    from that L [of f] obtain b where b: "glob_match y f" "map_of d f = Some b" by auto
    show ?thesis
    proof (cases f)
      case (Inter x z)
      then show ?thesis using b dI [of x z b] by (simp add: g'_def)
    next
      case (Out z)
      then show ?thesis using b dO [of z b] j by (simp add: g'_def)
    qed
  qed
  have zero: "g' f = []" if "f \<in> ?S - set ?L" for f
    using that maps y L [of f] by (auto simp: g'_def written_def)
  have "mset (read_bucket (json_text a) y d) = (\<Sum>f \<in> set ?L. mset (?g f))"
    using mset_concat_distinct [of ?L ?g] by (simp add: read_bucket_def glob_def mset_concat_sort)
  also have "\<dots> = (\<Sum>f \<in> set ?L. mset (g' f))" by (rule sum.cong [OF refl]) (simp add: gS)
  also have "\<dots> = (\<Sum>f \<in> ?S. mset (g' f))"
    by (rule sum.mono_neutral_left) (use gS zero in auto)
  also have "\<dots> = (\<Sum>x < length inputs. mset (part a inputs n x y))"
    by (subst sum.insert) (auto simp: g'_def sum.reindex inj_on_def)
  also have "\<dots> = mset (bucket n y (all_kvs a inputs))"
    using mset_concat_distinct [of "[0..<length inputs]" "\<lambda>x. part a inputs n x y"]
    by (simp add: all_kvs_def bucket_def part_def filter_concat comp_def atLeast0LessThan)
  finally show ?thesis .
qed

lemma reduce_writes_expected:
  assumes "app_ok a inputs n" and "disk_ok a inputs n d" and "\<And>x. x < length inputs \<Longrightarrow> written a inputs n x n d"
    and "y < n"
  shows "reduce_lines (sorter a) (reducef a) (read_bucket (json_text a) y d) = expected a inputs n y"
proof -
  have o: "key_sorter (sorter a)" "order_free (reducef a)" "json_text a (expected a inputs n y) = []"
    using assms(1,4) by (auto simp: app_ok_def)
  show ?thesis
    unfolding reduce_lines_eq [OF o(1,2)] expected_def
    by (rule lines_for_mset [OF o(2) read_bucket_mset [OF assms(2,3,4) o(3)]])
qed

text \<open>More files never hurt.\<close>

definition grows :: "file_system \<Rightarrow> file_system \<Rightarrow> bool" where
  "grows d d' \<longleftrightarrow> (\<forall>f. map_of d f \<noteq> None \<longrightarrow> map_of d' f \<noteq> None)"

lemma grows_update: "grows d (AList.update f b d)"
  by (auto simp: grows_def update_conv')

lemma grows_write: "grows d (write_bucket x k b d)"
  by (auto simp: write_bucket_def grows_update) (simp add: grows_def)

lemma grows_mono:
  assumes "grows d d'"
  shows "written a inputs n x k d \<Longrightarrow> written a inputs n x k d'"
    and "tasks_ok a inputs n ts d \<Longrightarrow> tasks_ok a inputs n ts d'"
    and "worker_ok a inputs n ph d p \<Longrightarrow> worker_ok a inputs n ph d' p"
proof -
  show w: "written a inputs n x k d \<Longrightarrow> written a inputs n x k d'" for x k
    using assms by (auto simp: written_def grows_def)
  show "tasks_ok a inputs n ts d \<Longrightarrow> tasks_ok a inputs n ts d'"
    using assms w by (auto simp: tasks_ok_def grows_def)
  show "worker_ok a inputs n ph d p \<Longrightarrow> worker_ok a inputs n ph d' p"
    using assms w by (cases p) (auto simp: grows_def)
qed

lemma phase_mono:
  "worker_ok a inputs n ph d p \<Longrightarrow> ph' \<noteq> phaseMap \<or> ph' = ph \<Longrightarrow> worker_ok a inputs n ph' d p"
  by (cases p) auto
section \<open>Every event keeps the invariant\<close>

lemma inv_coord:
  assumes "job_inv a inputs n w" and "coord_ok c" and "same_job (coord w) c"
    and "tasks_ok a inputs n (taskStates c) (disk w)" and "state c \<noteq> phaseMap \<or> state c = state (coord w)"
  shows "job_inv a inputs n (w\<lparr>coord := c\<rparr>)"
  using assms phase_mono unfolding job_inv_def same_job_def by fastforce

lemma inv_worker:
  assumes "job_inv a inputs n w" and "worker_ok a inputs n (state (coord w)) (disk w) p"
  shows "job_inv a inputs n (set_worker i p w)"
  using assms by (simp add: job_inv_def set_worker_def)

lemma inv_disk:
  assumes "job_inv a inputs n w" and "grows (disk w) d" and "disk_ok a inputs n d"
  shows "job_inv a inputs n (w\<lparr>disk := d\<rparr>)"
  using assms grows_mono [OF assms(2)] by (simp add: job_inv_def)

lemma tasks_ok_not_done:
  assumes "tasks_ok a inputs n ts d" and "t \<noteq> taskStateDone"
  shows "tasks_ok a inputs n (ts[i := t]) d"
proof -
  have "ts ! j = taskStateDone" if "ts[i := t] ! j = taskStateDone" for j
    using that assms(2) by (cases "i < length ts") (auto simp: nth_list_update list_update_beyond split: if_splits)
  then show ?thesis using assms(1) unfolding tasks_ok_def by blast
qed

lemma tasks_ok_done:
  assumes "tasks_ok a inputs n ts d"
    and "i < length inputs \<Longrightarrow> written a inputs n i n d"
    and "\<And>y. y < n \<Longrightarrow> i = length inputs + y \<Longrightarrow> map_of d (Out y) \<noteq> None"
  shows "tasks_ok a inputs n (ts[i := taskStateDone]) d"
proof -
  have "j = i \<or> ts ! j = taskStateDone" if "ts[i := taskStateDone] ! j = taskStateDone" for j
    using that by (cases "i < length ts") (auto simp: nth_list_update list_update_beyond split: if_splits)
  then show ?thesis using assms unfolding tasks_ok_def by (metis add_left_cancel)
qed

lemma inv_GetTask:
  assumes inv: "job_inv a inputs n w" and ok: "app_ok a inputs n"
  shows "job_inv a inputs n (w\<lparr>coord := fst (GetTask (coord w))\<rparr>)"
    and "worker_ok a inputs n (state (fst (GetTask (coord w)))) d (take_task a (snd (GetTask (coord w))))"
proof -
  let ?c = "coord w"
  have c: "coord_ok ?c" "files ?c = inputs" "nReduce ?c = n" "tasks_ok a inputs n (taskStates ?c) (disk w)"
    using inv by (auto simp: job_inv_def)
  show "job_inv a inputs n (w\<lparr>coord := fst (GetTask ?c)\<rparr>)"
  proof (rule inv_coord [OF inv GetTask_ok(1,2) [OF c(1)] _ GetTask_ok(3) [OF c(1)]])
    show "tasks_ok a inputs n (taskStates (fst (GetTask ?c))) (disk w)"
      by (rule GetTask_cases [OF c(1)]) (use c(4) in \<open>simp_all add: tasks_ok_not_done\<close>)
  qed
  from c(1) show "worker_ok a inputs n (state (fst (GetTask ?c))) d (take_task a (snd (GetTask ?c)))"
  proof (cases rule: GetTask_cases)
    case (map i)
    then have "input a (inputs ! i) \<noteq> None" "0 < n" using ok c(2) by (auto simp: app_ok_def)
    then obtain content where "input a (inputs ! i) = Some content" "0 < n" by auto
    with map c(2,3) show ?thesis
      by (simp add: take_task_def GetTaskReply0_def bucketize_eq written_def part_def kva_of_def)
  qed (use c in \<open>auto simp: take_task_def GetTaskReply0_def\<close>)
qed

lemma inv_complete:
  assumes inv: "job_inv a inputs n w" and i: "i < length inputs + n"
    and "i < length inputs \<Longrightarrow> written a inputs n i n (disk w)"
    and "\<And>y. y < n \<Longrightarrow> i = length inputs + y \<Longrightarrow> map_of (disk w) (Out y) \<noteq> None"
  obtains w' where "complete t (int i) w = Inr w'" and "job_inv a inputs n w'"
proof -
  let ?c = "coord w"
  have c: "coord_ok ?c" "length (taskStates ?c) = length inputs + n" "tasks_ok a inputs n (taskStates ?c) (disk w)"
    using inv by (auto simp: job_inv_def coord_ok_def)
  define c' where "c' = (if taskStates ?c ! i = taskStateExecuting then set_task i taskStateDone ?c else ?c)"
  have e: "CompleteTask \<lparr>ct_TaskType = t, ct_TaskID = int i\<rparr> ?c = Inr c'"
    using c(2) i by (simp add: CompleteTask_def go_nth_Inr c'_def)
  have "tasks_ok a inputs n ((taskStates ?c)[i := taskStateDone]) (disk w)"
    by (rule tasks_ok_done [OF c(3)]) (fact assms(3), fact assms(4))
  then have t: "tasks_ok a inputs n (taskStates c') (disk w)" using c(3) by (simp add: c'_def)
  have "job_inv a inputs n (w\<lparr>coord := c'\<rparr>)"
    by (rule inv_coord [OF inv CompleteTask_ok [OF c(1) e] t]) (simp add: c'_def)
  with that [of "w\<lparr>coord := c'\<rparr>"] e show thesis by (simp add: complete_def)
qed

lemma disk_ok_write:
  assumes "disk_ok a inputs n d" and "x < length inputs"
  shows "disk_ok a inputs n (write_bucket x k (part a inputs n x k) d)"
  using assms by (auto simp: write_bucket_def disk_ok_def update_conv' split: if_splits)

lemma disk_ok_out:
  assumes "disk_ok a inputs n d" and "y < n"
  shows "disk_ok a inputs n (AList.update (Out y) (OutFile (expected a inputs n y)) d)"
  using assms by (auto simp: disk_ok_def update_conv' split: if_splits)

lemma worker_step_inv:
  assumes inv: "job_inv a inputs n w" and ok: "app_ok a inputs n"
  obtains w' where "worker_step a i w = Inr w'" and "job_inv a inputs n w'"
proof (cases "workers w i")
  case Idle
  let ?c = "fst (GetTask (coord w))" and ?p = "take_task a (snd (GetTask (coord w)))"
  have "worker_step a i w = Inr (set_worker i ?p (w\<lparr>coord := ?c\<rparr>))"
    using Idle by (simp add: worker_step_def split_beta)
  moreover have "job_inv a inputs n (set_worker i ?p (w\<lparr>coord := ?c\<rparr>))"
    by (rule inv_worker [OF inv_GetTask(1) [OF inv ok]]) (simp add: inv_GetTask(2) [OF inv ok])
  ultimately show thesis using that by blast
next
  case (Mapping x bs k)
  have p: "x < length inputs" "bs = map (part a inputs n x) [0..<n]" "written a inputs n x k (disk w)"
    and d: "disk_ok a inputs n (disk w)"
    using inv Mapping unfolding job_inv_def by (metis worker_ok.simps(1))+
  show thesis
  proof (cases "k < n")
    case True
    let ?d = "write_bucket x k (part a inputs n x k) (disk w)"
    have "worker_step a i w = Inr (set_worker i (Mapping x bs (k + 1)) (w\<lparr>disk := ?d\<rparr>))"
      using Mapping True p(2) by (simp add: worker_step_def)
    moreover have "job_inv a inputs n (w\<lparr>disk := ?d\<rparr>)"
      by (rule inv_disk [OF inv grows_write disk_ok_write [OF d p(1)]])
    moreover have "written a inputs n x (k + 1) ?d"
      using p(3) grows_write [of "disk w" x k "part a inputs n x k"]
      by (auto simp: written_def grows_def write_bucket_def update_conv' less_Suc_eq)
    ultimately show thesis using that inv_worker [of a inputs n "w\<lparr>disk := ?d\<rparr>" "Mapping x bs (k + 1)" i] p(1,2) by simp
  next
    case False
    have wr: "written a inputs n x n (disk w)" using p(3) False by (auto simp: written_def)
    obtain w' where c: "complete MapTask (int x) w = Inr w'" "job_inv a inputs n w'"
      by (rule inv_complete [OF inv, of x]) (use p(1) wr in auto)
    moreover have "worker_step a i w = Inr (set_worker i Idle w')"
      using Mapping False p(2) c(1) by (simp add: worker_step_def)
    ultimately show thesis using that inv_worker [OF c(2), of Idle i] by simp
  qed
next
  case (Reducing y tid)
  have p: "y < n" "tid = int (length inputs + y)" "state (coord w) \<noteq> phaseMap" and d: "disk_ok a inputs n (disk w)"
    using inv Reducing unfolding job_inv_def by (metis worker_ok.simps(2))+
  have "written a inputs n x n (disk w)" if "x < length inputs" for x
    using inv p(3) that by (auto simp: job_inv_def coord_ok_def tasks_ok_def)
  then have e: "reduce_lines (sorter a) (reducef a) (read_bucket (json_text a) y (disk w)) = expected a inputs n y"
    by (rule reduce_writes_expected [OF ok d _ p(1)])
  let ?d = "AList.update (Out y) (OutFile (expected a inputs n y)) (disk w)"
  have "worker_step a i w = Inr (set_worker i (Reduced tid) (w\<lparr>disk := ?d\<rparr>))"
    using Reducing e by (simp add: worker_step_def)
  moreover have "job_inv a inputs n (w\<lparr>disk := ?d\<rparr>)"
    by (rule inv_disk [OF inv grows_update disk_ok_out [OF d p(1)]])
  moreover from this have "job_inv a inputs n (set_worker i (Reduced tid) (w\<lparr>disk := ?d\<rparr>))"
    by (rule inv_worker) (use p in \<open>auto simp: update_conv'\<close>)
  ultimately show thesis using that by blast
next
  case (Reduced tid)
  obtain y where p: "y < n" "tid = int (length inputs + y)" "map_of (disk w) (Out y) \<noteq> None"
    using inv Reduced unfolding job_inv_def by (metis worker_ok.simps(3))
  obtain w' where c: "complete ReduceTask tid w = Inr w'" "job_inv a inputs n w'"
    unfolding p(2) by (rule inv_complete [OF inv, of "length inputs + y"]) (use p in auto)
  moreover have "worker_step a i w = Inr (set_worker i Idle w')" using Reduced c(1) by (simp add: worker_step_def)
  ultimately show thesis using that inv_worker [OF c(2), of Idle i] by simp
next
  case Exited
  then show thesis using that inv by (simp add: worker_step_def)
qed

lemma mr_do_inv:
  assumes inv: "job_inv a inputs n w" and ok: "app_ok a inputs n"
  obtains w' where "mr_do a e w = Inr w'" and "job_inv a inputs n w'"
proof (cases e)
  case (Step i)
  then show thesis using worker_step_inv [OF inv ok, of i] that by (auto simp: mr_do_def)
next
  case (LostGetTask i)
  then show thesis
    using that inv inv_worker [OF inv_GetTask(1) [OF inv ok], of Exited i]
    by (cases "workers w i = Idle") (auto simp: mr_do_def)
next
  case (LostComplete i)
  then have "mr_do a e w \<in> {Inr w, Inr (set_worker i Idle w)}"
    by (cases "workers w i") (simp_all add: mr_do_def)
  then show thesis using that inv inv_worker [OF inv, of Idle i] by auto
next
  case (Timer t)
  have c: "coord_ok (coord w)" "tasks_ok a inputs n (taskStates (coord w)) (disk w)" using inv by (auto simp: job_inv_def)
  have "job_inv a inputs n (w\<lparr>coord := timer t (coord w)\<rparr>)"
    by (rule inv_coord [OF inv timer_ok [OF c(1)]]) (use c(2) in \<open>simp_all add: timer_def tasks_ok_not_done\<close>)
  then show thesis using that Timer by (simp add: mr_do_def)
next
  case (StartWorker i)
  then have "mr_do a e w \<in> {Inr w, Inr (set_worker i Idle w)}" by (simp add: mr_do_def)
  then show thesis using that inv inv_worker [OF inv, of Idle i] by auto
next
  case (Crash i)
  then show thesis using that inv_worker [OF inv, of Exited i] by (simp add: mr_do_def)
qed

lemma mr_run_inv:
  assumes "job_inv a inputs n w" and "app_ok a inputs n"
  shows "\<exists>w'. mr_run a es w = Inr w' \<and> job_inv a inputs n w'"
  using assms(1)
proof (induction es arbitrary: w)
  case (Cons e es)
  obtain w1 where "mr_do a e w = Inr w1" "job_inv a inputs n w1" using mr_do_inv [OF Cons.prems assms(2)] .
  with Cons.IH [of w1] show ?case by auto
qed simp

lemma start_job_inv: "job_inv a inputs n (start_job inputs n)"
  using coord_ok_Make [of inputs n]
  by (auto simp: job_inv_def start_job_def disk_ok_def tasks_ok_def) (simp_all add: MakeCoordinator_def)

section \<open>The result of a job\<close>

lemma read_all_kvs:
  assumes "\<forall>f \<in> set inputs. input a f \<noteq> None"
  shows "read_all a inputs = Inr (all_kvs a inputs)"
  using assms
proof (induction inputs)
  case (Cons f inputs)
  have "all_kvs a (f # inputs) = kva_of a (f # inputs) 0 @ concat (map (\<lambda>x. kva_of a (f # inputs) (Suc x)) [0..<length inputs])"
    unfolding all_kvs_def by (simp add: upt_conv_Cons map_Suc_upt [symmetric] comp_def del: upt_Suc)
  also have "\<dots> = mapf a f (the (input a f)) @ all_kvs a inputs" by (simp add: all_kvs_def kva_of_def [abs_def])
  finally show ?case using Cons by auto
qed (simp add: all_kvs_def)

lemma finished_outputs:
  assumes inv: "job_inv a inputs n w" and fin: "Done (coord w)" and y: "y < n"
  shows "map_of (disk w) (Out y) = Some (OutFile (expected a inputs n y))"
proof -
  have "taskStates (coord w) ! (length inputs + y) = taskStateDone"
    using inv fin y by (auto simp: job_inv_def Done_def coord_ok_def)
  then have "map_of (disk w) (Out y) \<noteq> None" using inv y by (auto simp: job_inv_def tasks_ok_def)
  then show ?thesis using inv by (auto simp: job_inv_def disk_ok_def)
qed

lemma filter_upt_below: "n \<le> m \<Longrightarrow> filter (\<lambda>y. y < n) [0..<m] = [0..<n]"
proof (induction m)
  case (Suc m)
  then show ?case by (cases "n = Suc m") (auto intro: filter_True)
qed simp

lemma job_result:
  assumes "app_ok a inputs n" and "n \<le> 10"
  shows "\<exists>w. mr_run a es (start_job inputs n) = Inr w \<and>
    (Done (coord w) \<longrightarrow> mergeOutput (disk w) = mkCorrectOutput a inputs)"
proof -
  obtain w where r: "mr_run a es (start_job inputs n) = Inr w" and inv: "job_inv a inputs n w"
    using mr_run_inv [OF start_job_inv assms(1)] by blast
  have ok: "0 < n" "key_sorter (sorter a)" "order_free (reducef a)" "\<forall>f \<in> set inputs. input a f \<noteq> None"
    using assms(1) by (auto simp: app_ok_def)
  have "mergeOutput (disk w) = mkCorrectOutput a inputs" if fin: "Done (coord w)"
  proof -
    have expected_fun: "expected a inputs n = (\<lambda>y. lines_for (reducef a) (bucket n y (all_kvs a inputs)))"
      by (simp add: fun_eq_iff expected_def)
    let ?found = "filter (\<lambda>y. map_of (disk w) (Out y) \<noteq> None) [0..<10]" and ?red = "reducef a"
    have dom: "map_of (disk w) (Out y) \<noteq> None \<longleftrightarrow> y < n" for y
      using inv finished_outputs [OF inv fin] by (auto simp: job_inv_def disk_ok_def)
    have "filter (\<lambda>y. y < n) [0..<10] = [0..<n]"
      using filter_upt_below [OF assms(2)] .
    then have found: "?found = [0..<n]" by (simp only: dom)
    have "concat (map (\<lambda>y. out_lines y (disk w)) [0..<n]) = concat (map (expected a inputs n) [0..<n])"
      using finished_outputs [OF inv fin] by (intro arg_cong [of _ _ concat] map_cong) (simp_all add: out_lines_def)
    then have "mergeOutput (disk w) = Inr (sort (concat (map (expected a inputs n) [0..<n])))"
      unfolding mergeOutput_def Let_def found using ok(1) by simp
    moreover have "sort (concat (map (expected a inputs n) [0..<n])) = sort (lines_for ?red (all_kvs a inputs))"
      using bucketwise_lines [OF ok(1,3), of "all_kvs a inputs"]
      by (intro properties_for_sort) (simp_all only: sorted_sort mset_sort expected_fun)
    ultimately show ?thesis
      by (simp add: mkCorrectOutput_def mrsequential_def read_all_kvs [OF ok(4)] reduce_lines_eq [OF ok(2,3)])
  qed
  with r show ?thesis by blast
qed

section \<open>An undisturbed worker finishes the job\<close>

definition progress :: "string list \<Rightarrow> nat \<Rightarrow> phase \<Rightarrow> nat \<Rightarrow> Coordinator" where
  "progress inputs n ph i = \<lparr>files = inputs, nReduce = n,
     taskStates = replicate i taskStateDone @ replicate (length inputs + n - i) taskStateUnassigned, state = ph\<rparr>"

lemma scan_prefix:
  "scan_tasks j (replicate i taskStateDone @ taskStateUnassigned # ts) b = (Some (j + i), False)"
  by (induction i arbitrary: j) (simp_all add: Let_def)

lemma scan_done: "scan_tasks j (replicate i taskStateDone) b = (None, b)"
  by (induction i arbitrary: j) (simp_all add: Let_def)

lemma replicate_Unassigned:
  "i < m \<Longrightarrow> replicate (m - i) taskStateUnassigned = taskStateUnassigned # replicate (m - Suc i) taskStateUnassigned"
  by (simp add: Suc_diff_Suc [symmetric])

lemma GetTask_progress_map:
  assumes "i < length inputs"
  shows "GetTask (progress inputs n phaseMap i) = (set_task i taskStateExecuting (progress inputs n phaseMap i),
    GetTaskReply0\<lparr>FileName := inputs ! i, TaskID := int i, NReduce := n, TaskType := MapTask\<rparr>)"
proof -
  have "take (length inputs) (replicate i taskStateDone @ replicate (length inputs + n - i) taskStateUnassigned) =
      replicate i taskStateDone @ replicate (length inputs - i) taskStateUnassigned"
    using assms by (simp add: min_def)
  then show ?thesis
    using assms by (simp add: GetTask_def GetTask_map_def progress_def replicate_Unassigned scan_prefix)
qed

lemma GetTask_progress_reduce:
  assumes "y < n" and "ph \<in> {phaseMap, phaseReduce}"
  shows "GetTask (progress inputs n ph (length inputs + y)) =
    (set_task (length inputs + y) taskStateExecuting (progress inputs n phaseReduce (length inputs + y)),
     GetTaskReply0\<lparr>TaskType := ReduceTask, TaskID := int (length inputs + y), KeyHash := int y\<rparr>)"
  using assms
  by (auto simp: GetTask_def GetTask_map_def GetTask_reduce_def progress_def replicate_Unassigned scan_prefix scan_done)

lemma GetTask_progress_end:
  assumes "ph \<in> {phaseMap, phaseReduce}"
  shows "GetTask (progress inputs n ph (length inputs + n)) =
    (progress inputs n phaseFinished (length inputs + n), GetTaskReply0\<lparr>TaskType := DoneTask\<rparr>)"
  using assms
  by (auto simp: GetTask_def GetTask_map_def GetTask_reduce_def progress_def scan_done)

lemma progress_complete:
  assumes "i < length inputs + n"
  shows "CompleteTask \<lparr>ct_TaskType = t, ct_TaskID = int i\<rparr> (set_task i taskStateExecuting (progress inputs n ph i)) =
    Inr (progress inputs n ph (Suc i))"
proof -
  have "(replicate i taskStateDone @ replicate (length inputs + n - i) taskStateUnassigned)[i := taskStateDone] =
      replicate (Suc i) taskStateDone @ replicate (length inputs + n - Suc i) taskStateUnassigned"
    using assms by (simp add: list_update_append replicate_Unassigned replicate_app_Cons_same)
  then show ?thesis using assms by (simp add: CompleteTask_def go_nth_Inr set_task_def progress_def)
qed

lemma mr_run_append: "mr_run a (es @ es') w = bind_go (mr_run a es w) (mr_run a es')"
  by (induction es arbitrary: w) (auto simp: bind_go_def split: sum.splits)

lemma mr_run_more:
  "mr_run a (replicate k e) w = Inr w1 \<Longrightarrow> mr_run a (replicate m e) w1 = Inr w2 \<Longrightarrow> mr_run a (replicate (k + m) e) w = Inr w2"
  by (simp add: replicate_add mr_run_append)

text \<open>Worker 0 waits for its next task when the first \<open>i\<close> tasks are done.\<close>

definition ready :: "string list \<Rightarrow> nat \<Rightarrow> phase \<Rightarrow> nat \<Rightarrow> world \<Rightarrow> bool" where
  "ready inputs n ph i w \<longleftrightarrow> coord w = progress inputs n ph i \<and> workers w 0 = Idle"

lemma write_all:
  assumes "workers w 0 = Mapping x bs k" and "k \<le> length bs"
  shows "\<exists>w'. mr_run a (replicate (length bs - k) (Step 0)) w = Inr w' \<and> coord w' = coord w \<and>
    workers w' 0 = Mapping x bs (length bs)"
  using assms
proof (induction "length bs - k" arbitrary: k w)
  case (Suc m)
  let ?w = "set_worker 0 (Mapping x bs (k + 1)) (w\<lparr>disk := write_bucket x k (bs ! k) (disk w)\<rparr>)"
  have k: "k < length bs" "length bs - k = Suc (length bs - (k + 1))" using Suc.hyps(2) by auto
  have "mr_do a (Step 0) w = Inr ?w" using Suc.prems(1) k(1) by (simp add: mr_do_def worker_step_def)
  then show ?case
    using Suc.hyps(1) [of "k + 1" ?w] Suc.hyps(2) k by (simp add: set_worker_def)
qed simp

lemma map_round:
  assumes ok: "app_ok a inputs n" and i: "i < length inputs" and r: "ready inputs n phaseMap i w"
  shows "\<exists>w'. mr_run a (replicate (n + 2) (Step 0)) w = Inr w' \<and> ready inputs n phaseMap (Suc i) w'"
proof -
  obtain content where c: "input a (inputs ! i) = Some content" and n: "0 < n"
    using ok nth_mem [OF i] by (auto simp: app_ok_def)
  let ?bs = "map (\<lambda>y. bucket n y (mapf a (inputs ! i) content)) [0..<n]"
  let ?w1 = "set_worker 0 (Mapping i ?bs 0) (w\<lparr>coord := set_task i taskStateExecuting (progress inputs n phaseMap i)\<rparr>)"
  have s1: "mr_do a (Step 0) w = Inr ?w1"
    using r c n by (simp add: mr_do_def worker_step_def ready_def GetTask_progress_map [OF i] take_task_def
        GetTaskReply0_def bucketize_eq)
  obtain w2 where w2: "mr_run a (replicate n (Step 0)) ?w1 = Inr w2"
    "coord w2 = set_task i taskStateExecuting (progress inputs n phaseMap i)" "workers w2 0 = Mapping i ?bs n"
    using write_all [of ?w1 i ?bs 0 a] by (auto simp: set_worker_def)
  have s3: "mr_do a (Step 0) w2 = Inr (set_worker 0 Idle (w2\<lparr>coord := progress inputs n phaseMap (Suc i)\<rparr>))"
    using w2 i by (simp add: mr_do_def worker_step_def complete_def progress_complete)
  have "replicate (n + 2) (Step 0) = Step 0 # replicate n (Step 0) @ [Step 0]"
    by (simp add: replicate_append_same)
  then show ?thesis using s1 w2(1) s3 by (simp add: mr_run_append ready_def set_worker_def)
qed

lemma reduce_round:
  assumes y: "y < n" and r: "ready inputs n ph (length inputs + y) w" and ph: "ph \<in> {phaseMap, phaseReduce}"
  shows "\<exists>w'. mr_run a (replicate 3 (Step 0)) w = Inr w' \<and> ready inputs n phaseReduce (Suc (length inputs + y)) w'"
proof -
  let ?c = "set_task (length inputs + y) taskStateExecuting (progress inputs n phaseReduce (length inputs + y))"
  let ?w1 = "set_worker 0 (Reducing y (int (length inputs + y))) (w\<lparr>coord := ?c\<rparr>)"
  have s1: "mr_do a (Step 0) w = Inr ?w1"
    using r by (simp add: mr_do_def worker_step_def ready_def GetTask_progress_reduce [OF y ph] take_task_def GetTaskReply0_def)
  obtain w2 where s2: "mr_do a (Step 0) ?w1 = Inr w2" and w2: "coord w2 = ?c" "workers w2 0 = Reduced (int (length inputs + y))"
    by (simp add: mr_do_def worker_step_def set_worker_def)
  have s3: "mr_do a (Step 0) w2 = Inr (set_worker 0 Idle (w2\<lparr>coord := progress inputs n phaseReduce (Suc (length inputs + y))\<rparr>))"
    using w2 y progress_complete [of "length inputs + y" inputs n ReduceTask phaseReduce]
    by (simp add: mr_do_def worker_step_def complete_def)
  have "replicate 3 (Step 0) = [Step 0, Step 0, Step 0]" by (simp add: numeral_3_eq_3)
  then show ?thesis using s1 s2 s3 by (simp add: ready_def set_worker_def)
qed

lemma map_rounds:
  assumes ok: "app_ok a inputs n" and "i \<le> length inputs" and "ready inputs n phaseMap 0 w"
  shows "\<exists>w'. mr_run a (replicate (i * (n + 2)) (Step 0)) w = Inr w' \<and> ready inputs n phaseMap i w'"
  using assms(2)
proof (induction i)
  case (Suc i)
  then obtain w1 where w1: "mr_run a (replicate (i * (n + 2)) (Step 0)) w = Inr w1" "ready inputs n phaseMap i w1" by auto
  have "i < length inputs" using Suc.prems by simp
  then obtain w2 where w2: "mr_run a (replicate (n + 2) (Step 0)) w1 = Inr w2" "ready inputs n phaseMap (Suc i) w2"
    using map_round [OF ok _ w1(2)] by blast
  have "i * (n + 2) + (n + 2) = Suc i * (n + 2)" by simp
  then show ?case using mr_run_more [OF w1(1) w2(1)] w2(2) by metis
qed (use assms(3) in simp)

lemma reduce_rounds:
  assumes "0 < y" and "y \<le> n" and "ready inputs n phaseMap (length inputs) w"
  shows "\<exists>w'. mr_run a (replicate (y * 3) (Step 0)) w = Inr w' \<and> ready inputs n phaseReduce (length inputs + y) w'"
  using assms(1,2)
proof (induction y)
  case (Suc y)
  obtain w1 ph where w1: "mr_run a (replicate (y * 3) (Step 0)) w = Inr w1" "ready inputs n ph (length inputs + y) w1"
    "ph \<in> {phaseMap, phaseReduce}"
    using Suc assms(3) by (cases "y = 0") auto
  have "y < n" using Suc.prems by simp
  then obtain w2 where w2: "mr_run a (replicate 3 (Step 0)) w1 = Inr w2"
    "ready inputs n phaseReduce (Suc (length inputs + y)) w2"
    using reduce_round [OF _ w1(2,3)] by blast
  have "y * 3 + 3 = Suc y * 3" by simp
  then show ?case using mr_run_more [OF w1(1) w2(1)] w2(2) by (metis add_Suc_right)
qed simp

lemma single_worker_done:
  assumes "app_ok a inputs n"
  obtains w where "mr_run a (StartWorker 0 # replicate (length inputs * (n + 2) + n * 3 + 1) (Step 0)) (start_job inputs n) = Inr w"
    and "Done (coord w)"
proof -
  have n: "0 < n" using assms by (simp add: app_ok_def)
  let ?w0 = "set_worker 0 Idle (start_job inputs n)"
  have s0: "mr_do a (StartWorker 0) (start_job inputs n) = Inr ?w0"
    by (simp add: mr_do_def start_job_def)
  have r0: "ready inputs n phaseMap 0 ?w0"
    by (simp add: ready_def start_job_def set_worker_def progress_def MakeCoordinator_def)
  obtain w1 where w1: "mr_run a (replicate (length inputs * (n + 2)) (Step 0)) ?w0 = Inr w1"
    "ready inputs n phaseMap (length inputs) w1"
    using map_rounds [OF assms order_refl r0] by blast
  obtain w2 where w2: "mr_run a (replicate (n * 3) (Step 0)) w1 = Inr w2" "ready inputs n phaseReduce (length inputs + n) w2"
    using reduce_rounds [OF n order_refl w1(2)] by blast
  have "coord w2 = progress inputs n phaseReduce (length inputs + n)" "workers w2 0 = Idle"
    using w2(2) by (simp_all add: ready_def)
  then obtain w3 where w3: "mr_run a (replicate 1 (Step 0)) w2 = Inr w3" "coord w3 = progress inputs n phaseFinished (length inputs + n)"
    by (simp add: mr_do_def worker_step_def GetTask_progress_end set_worker_def)
  have "mr_run a (replicate (length inputs * (n + 2) + n * 3 + 1) (Step 0)) ?w0 = Inr w3"
    by (rule mr_run_more [OF mr_run_more [OF w1(1) w2(1)] w3(1)])
  then show thesis using that [of w3] s0 w3(2) by (simp add: Done_def progress_def)
qed

section \<open>Word count\<close>

lemma order_free_apps: "order_free wc_Reduce" "order_free indexer_Reduce"
proof -
  show "order_free wc_Reduce" by (auto simp: order_free_def wc_Reduce_def dest: mset_eq_length)
  have "indexer_Reduce k vs = indexer_Reduce k vs'" if "mset vs = mset vs'" for k vs vs'
  proof -
    have "sort vs = sort vs'" by (rule properties_for_sort) (simp_all add: that)
    then show ?thesis using mset_eq_length [OF that] by (simp add: indexer_Reduce_def)
  qed
  then show "order_free indexer_Reduce" unfolding order_free_def by blast
qed

definition wc_words :: "(char \<Rightarrow> bool) \<Rightarrow> (string \<rightharpoonup> string) \<Rightarrow> string list \<Rightarrow> string list" where
  "wc_words is_letter inp inputs = concat (map (\<lambda>f. FieldsFunc (\<lambda>r. \<not> is_letter r) (the (inp f))) inputs)"

lemma wc_kvs:
  assumes "mapf a = wc_Map is_letter"
  shows "all_kvs a inputs = map (\<lambda>w. \<lparr>Key = w, Value = ''1''\<rparr>) (wc_words is_letter (input a) inputs)"
proof -
  have "all_kvs a inputs = concat (map (\<lambda>f. wc_Map is_letter f (the (input a f))) (map ((!) inputs) [0..<length inputs]))"
    by (simp add: all_kvs_def kva_of_def [abs_def] assms comp_def)
  then show ?thesis by (simp add: map_nth wc_words_def wc_Map_def map_concat comp_def)
qed

lemma wc_lines:
  assumes "mapf a = wc_Map is_letter" and "ws = wc_words is_letter (input a) inputs"
  shows "lines_for wc_Reduce (all_kvs a inputs) =
    map (\<lambda>w. format_line (w, itoa (count_list ws w))) (sorted_list_of_set (set ws))"
proof -
  have "Key ` set (all_kvs a inputs) = set ws" by (auto simp: wc_kvs [OF assms(1)] assms(2) image_image)
  moreover have "length (values_of w (all_kvs a inputs)) = count_list ws w" for w
    unfolding wc_kvs [OF assms(1)] assms(2) [symmetric] values_of_def by (induction ws) auto
  ultimately show ?thesis by (simp add: lines_for_def result_of_def wc_Reduce_def comp_def)
qed

text \<open>A job for the witnesses: word count of two files with two reduce tasks.\<close>

definition demo_app :: app where
  "demo_app = \<lparr>input = [''f'' \<mapsto> ''a b'', ''g'' \<mapsto> ''b''], mapf = wc_Map (\<lambda>c. c \<noteq> CHR '' ''), reducef = wc_Reduce,
     sorter = sort_key Key, json_text = (\<lambda>_. [])\<rparr>"

lemma demo_app_ok: "app_ok demo_app [''f'', ''g''] 2"
  by (simp add: app_ok_def demo_app_def order_free_apps key_sorter_def)

text \<open>
  C4: A distributed job computes what the sequential program computes. Take any sequence of
  events: workers step in any interleaving, crash at any point and are replaced, calls
  and replies are lost, timers hand a task out again while its first worker is still at it. If
  the coordinator then reports that the job is done, sorting the lines of the result files
  (\<^verbatim>\<open>mergeOutput\<close>, ten reduce tasks as in \<^verbatim>\<open>main/mrcoordinator.go\<close> or fewer) gives exactly the sorted output of
  \<^verbatim>\<open>mrsequential\<close>; and no event ever makes the coordinator panic.
\<close>

theorem job_equals_sequential:
  assumes "app_ok a inputs n" and "n \<le> 10"
  shows "\<exists>w. mr_run a es (start_job inputs n) = Inr w \<and>
    (Done (coord w) \<longrightarrow> mergeOutput (disk w) = mkCorrectOutput a inputs)"
  by (rule job_result [OF assms])

theorem job_equals_sequential_witness:
  "\<exists>w. mr_run demo_app (StartWorker 0 # replicate 15 (Step 0)) (start_job [''f'', ''g''] 2) = Inr w \<and>
    Done (coord w) \<and> mergeOutput (disk w) = mkCorrectOutput demo_app [''f'', ''g'']"
proof -
  obtain w where w: "mr_run demo_app (StartWorker 0 # replicate 15 (Step 0)) (start_job [''f'', ''g''] 2) = Inr w"
    "Done (coord w)"
    by (rule single_worker_done [OF demo_app_ok]) simp
  with job_equals_sequential [OF demo_app_ok, of "StartWorker 0 # replicate 15 (Step 0)"] show ?thesis by auto
qed

text \<open>
  C14: An undisturbed worker finishes a word count. Whatever the (readable) input files and
  the separators of words, one worker needs \<^verbatim>\<open>nReduce + 2\<close> steps for each file, three for each reduce
  task and one to learn that it is over; then the coordinator reports the job done and the
  merged output has, for every distinct word, the line with the number of its occurrences.
\<close>

theorem word_count_finishes:
  assumes "mapf a = wc_Map is_letter" and "reducef a = wc_Reduce" and "app_ok a inputs n" and "n \<le> 10"
  shows "\<exists>w. mr_run a (StartWorker 0 # replicate (length inputs * (n + 2) + n * 3 + 1) (Step 0)) (start_job inputs n) = Inr w \<and>
    Done (coord w) \<and>
    mergeOutput (disk w) =
      Inr (sort (map (\<lambda>word. format_line (word, itoa (count_list (wc_words is_letter (input a) inputs) word)))
                     (sorted_list_of_set (set (wc_words is_letter (input a) inputs)))))"
proof -
  let ?es = "StartWorker 0 # replicate (length inputs * (n + 2) + n * 3 + 1) (Step 0)"
  obtain w where w: "mr_run a ?es (start_job inputs n) = Inr w" "Done (coord w)"
    using single_worker_done [OF assms(3)] .
  have ok: "key_sorter (sorter a)" "order_free (reducef a)" "\<forall>f \<in> set inputs. input a f \<noteq> None"
    using assms(3) by (auto simp: app_ok_def)
  have "mergeOutput (disk w) = mkCorrectOutput a inputs" using job_result [OF assms(3,4), of ?es] w by auto
  also have "\<dots> = Inr (sort (lines_for wc_Reduce (all_kvs a inputs)))"
    by (simp add: mkCorrectOutput_def mrsequential_def read_all_kvs [OF ok(3)] reduce_lines_eq [OF ok(1,2)] assms(2)
        reduce_lines_eq [OF ok(1) order_free_apps(1)])
  finally show ?thesis using w wc_lines [OF assms(1) refl, of inputs] by auto
qed

theorem word_count_finishes_witness:
  "\<exists>w. mr_run demo_app (StartWorker 0 # replicate 15 (Step 0)) (start_job [''f'', ''g''] 2) = Inr w \<and> Done (coord w) \<and>
    mergeOutput (disk w) = Inr [''a 1'' @ [char_of (10 :: nat)], ''b 2'' @ [char_of (10 :: nat)]]"
proof -
  have m: "mapf demo_app = wc_Map (\<lambda>c. c \<noteq> CHR '' '')" "reducef demo_app = wc_Reduce" by (simp_all add: demo_app_def)
  have ws: "wc_words (\<lambda>c. c \<noteq> CHR '' '') (input demo_app) [''f'', ''g''] = [''a'', ''b'', ''b'']"
    by (simp add: wc_words_def demo_app_def FieldsFunc_def)
  have "{''a'', ''b''} = set [''a'', ''b'']" by simp
  then have keys: "sorted_list_of_set {''a'', ''b''} = [''a'', ''b'']"
    by (simp only: sorted_list_of_set.idem_if_sorted_distinct) (simp add: sorted_list_of_set_sort_remdups)
  have digits: "itoa (Suc 0) = ''1''" "itoa (Suc (Suc 0)) = ''2''" by code_simp+
  show ?thesis
    using word_count_finishes [OF m demo_app_ok] by (simp add: ws keys format_line_def digits)
qed

section \<open>The crash tests\<close>

lemma order_free_crash_apps: "order_free (\<lambda>k vs. the (crash_Reduce rr k vs))" "order_free early_exit_Reduce"
proof -
  have sorted: "sort vs = sort vs'" if "mset vs = mset vs'" for vs vs' :: "string list"
    using that by (intro properties_for_sort) simp_all
  have "crash_Reduce rr k vs = crash_Reduce rr k vs'" if "mset vs = mset vs'" for k vs vs'
    using sorted [OF that] by (simp add: crash_Reduce_def)
  then show "order_free (\<lambda>k vs. the (crash_Reduce rr k vs))" unfolding order_free_def by metis
  show "order_free early_exit_Reduce"
    by (auto simp: order_free_def early_exit_Reduce_def dest: mset_eq_length)
qed

text \<open>A call that survives its draw computes what the application without crashes computes.\<close>

lemma crash_survives:
  assumes "330 \<le> rr"
  shows "crash_Map rr f c = nocrash_Map rr' f c" "crash_Reduce rr k vs = nocrash_Reduce rr' k vs"
  using assms by (simp_all add: crash_Map_def nocrash_Map_def crash_Reduce_def nocrash_Reduce_def
      crash_maybeCrash_def nocrash_maybeCrash_def)

text \<open>
  The comparison the crash test makes: workers run \<^verbatim>\<open>crash.go\<close> and may end at any point, the
  expected output comes from a sequential run of \<^verbatim>\<open>nocrash.go\<close>.
\<close>

definition crash_app :: "nat \<Rightarrow> app \<Rightarrow> app" where
  "crash_app rr a = a\<lparr>mapf := \<lambda>f c. the (crash_Map rr f c), reducef := \<lambda>k vs. the (crash_Reduce rr k vs)\<rparr>"

definition nocrash_app :: "nat \<Rightarrow> app \<Rightarrow> app" where
  "nocrash_app rr a = a\<lparr>mapf := \<lambda>f c. the (nocrash_Map rr f c), reducef := \<lambda>k vs. the (nocrash_Reduce rr k vs)\<rparr>"

theorem crash_job_equals_nocrash:
  assumes "330 \<le> rr" and "app_ok (crash_app rr a) inputs n" and "n \<le> 10"
  shows "\<exists>w. mr_run (crash_app rr a) es (start_job inputs n) = Inr w \<and>
    (Done (coord w) \<longrightarrow> mergeOutput (disk w) = mkCorrectOutput (nocrash_app rr' a) inputs)"
proof -
  have "crash_app rr a = nocrash_app rr' a"
    by (simp add: crash_app_def nocrash_app_def crash_survives [OF assms(1), where rr' = rr'])
  with job_result [OF assms(2,3), of es] show ?thesis by simp
qed

end
