(* ===== verification/Demux.thy ===== *)
theory Demux
  imports Prelude "HOL-Library.AList"
begin

text \<open>
  The multiplexing of calls over one connection, \<^verbatim>\<open>src/src/tester1/demux\<close>: a client tags
  its requests, the table \<^verbatim>\<open>callMap\<close> keeps the channel of each tag, a reader goroutine
  matches the replies of the server, and answers the remaining calls with an error when
  the connection breaks.

  The connection is a queue of messages in each direction (\<^verbatim>\<open>transport\<close> frames and decodes
  them); what the server computes is the parameter \<open>serve\<close>.  The steps of many concurrent
  calls of \<^verbatim>\<open>SendReceive\<close>, of the reader and of the server interleave.
\<close>

section \<open>The table of outstanding calls\<close>

type_synonym Ttag = "32 word"

record callMap =
  closed :: bool
  cm_calls :: "(Ttag \<times> nat) list" \<comment> \<open>tag and channel of the call\<close>

definition newCallMap :: callMap where
  "newCallMap = \<lparr>closed = False, cm_calls = []\<rparr>"

definition callMap_close :: "callMap \<Rightarrow> callMap" where
  "callMap_close cm = cm\<lparr>closed := True\<rparr>"

definition isClosed :: "callMap \<Rightarrow> bool" where
  "isClosed cm = closed cm"

definition callMap_put :: "Ttag \<Rightarrow> nat \<Rightarrow> callMap \<Rightarrow> callMap \<times> bool" where
  "callMap_put tag ch cm =
     (if closed cm then (cm, False)
      else (cm\<lparr>cm_calls := AList.update tag ch (cm_calls cm)\<rparr>, True))"

definition callMap_remove :: "Ttag \<Rightarrow> callMap \<Rightarrow> callMap \<times> nat option" where
  "callMap_remove tag cm = (case map_of (cm_calls cm) tag of
     Some ch \<Rightarrow> (cm\<lparr>cm_calls := AList.delete tag (cm_calls cm)\<rparr>, Some ch)
   | None \<Rightarrow> (cm, None))"

definition outstanding :: "callMap \<Rightarrow> Ttag list" where
  "outstanding cm = map fst (cm_calls cm)"

section \<open>Client and server\<close>

record 'b dmx_reply =
  dr_rep :: "'b option"
  dr_ok :: bool
  dr_err :: bool

text \<open>
  A call of \<^verbatim>\<open>SendReceive\<close>: it has its tag; its channel is in the table; its request is
  written (or the write failed) and it listens; the table refused it; it has its reply.
\<close>

datatype 'b send_state = Tagged | Queued | Written | Refused | Got "'b dmx_reply"

record 'b send_call =
  sr_tag :: Ttag
  sr_req :: 'b
  sr_state :: "'b send_state"

text \<open>The reader: in its loop; after \<^verbatim>\<open>break\<close>; answering the outstanding tags; finished.\<close>

datatype reader_pc = Reading | Broken | Draining "Ttag list" | Stopped

record ('b, 'o) demux =
  callmap :: callMap
  nextTag :: Ttag
  sends :: "'b send_call list"
  reader_at :: reader_pc
  c2s :: "(Ttag \<times> 'b) list"
  serving :: "(Ttag \<times> 'b) list"
  s2c :: "(Ttag \<times> 'b \<times> bool) list"
  srv_obj :: 'o

text \<open>
  The first tag goes to the \<^verbatim>\<open>InitMsg\<close>, which \<^verbatim>\<open>NewDemuxSrv\<close> reads before it starts its
  reader.
\<close>

definition NewDemux :: "'o \<Rightarrow> ('b, 'o) demux" where
  "NewDemux o0 = \<lparr>callmap = newCallMap, nextTag = 1, sends = [], reader_at = Reading,
                  c2s = [], serving = [], s2c = [], srv_obj = o0\<rparr>"

definition dmx_tag :: "('b, 'o) demux \<Rightarrow> Ttag \<times> ('b, 'o) demux" where
  "dmx_tag d = (nextTag d, d\<lparr>nextTag := nextTag d + 1\<rparr>)"

definition SendReceive_tag :: "'b \<Rightarrow> ('b, 'o) demux \<Rightarrow> ('b, 'o) demux" where
  "SendReceive_tag b d = (case dmx_tag d of (t, d) \<Rightarrow>
     d\<lparr>sends := sends d @ [\<lparr>sr_tag = t, sr_req = b, sr_state = Tagged\<rparr>]\<rparr>)"

definition set_send :: "nat \<Rightarrow> 'b send_state \<Rightarrow> ('b, 'o) demux \<Rightarrow> ('b, 'o) demux" where
  "set_send i st d = d\<lparr>sends := (sends d)[i := (sends d ! i)\<lparr>sr_state := st\<rparr>]\<rparr>"

definition SendReceive_put :: "nat \<Rightarrow> ('b, 'o) demux \<Rightarrow> ('b, 'o) demux" where
  "SendReceive_put i d =
     (if i < length (sends d) \<and> sr_state (sends d ! i) = Tagged
      then (case callMap_put (sr_tag (sends d ! i)) i (callmap d) of (cm, fine) \<Rightarrow>
              set_send i (if fine then Queued else Refused) (d\<lparr>callmap := cm\<rparr>))
      else d)"

text \<open>The flag says whether \<^verbatim>\<open>WriteCall\<close> succeeded; the code listens in both cases.\<close>

definition SendReceive_write :: "nat \<Rightarrow> bool \<Rightarrow> ('b, 'o) demux \<Rightarrow> ('b, 'o) demux" where
  "SendReceive_write i fine d =
     (if i < length (sends d) \<and> sr_state (sends d ! i) = Queued
      then set_send i Written
             (if fine then d\<lparr>c2s := c2s d @ [(sr_tag (sends d ! i), sr_req (sends d ! i))]\<rparr> else d)
      else d)"

text \<open>
  The reader hands a reply over on an unbuffered channel: it waits until the call listens,
  so that the step is taken when the call has written its request.
\<close>

definition listens :: "Ttag \<Rightarrow> ('b, 'o) demux \<Rightarrow> bool" where
  "listens t d = (case map_of (cm_calls (callmap d)) t of
     None \<Rightarrow> True | Some i \<Rightarrow> i < length (sends d) \<longrightarrow> sr_state (sends d ! i) = Written)"

definition dmx_reply_to :: "Ttag \<Rightarrow> 'b dmx_reply \<Rightarrow> ('b, 'o) demux \<Rightarrow> ('b, 'o) demux go" where
  "dmx_reply_to t r d = (case callMap_remove t (callmap d) of
     (cm, Some ch) \<Rightarrow> Inr (set_send ch (Got r) (d\<lparr>callmap := cm\<rparr>))
   | (_, None) \<Rightarrow> Inl (Fatal ''reply no matching req''))"

definition reader_read :: "('b, 'o) demux \<Rightarrow> ('b, 'o) demux go" where
  "reader_read d = (case (reader_at d, s2c d) of
     (Reading, (t, b, fine) # rest) \<Rightarrow>
       if listens t d
       then dmx_reply_to t \<lparr>dr_rep = Some b, dr_ok = fine, dr_err = False\<rparr> (d\<lparr>s2c := rest\<rparr>)
       else Inr d
   | _ \<Rightarrow> Inr d)"

definition reader_error :: "('b, 'o) demux \<Rightarrow> ('b, 'o) demux" where
  "reader_error d =
     (if reader_at d = Reading
      then d\<lparr>callmap := callMap_close (callmap d), reader_at := Broken\<rparr> else d)"

definition reader_outstanding :: "('b, 'o) demux \<Rightarrow> ('b, 'o) demux" where
  "reader_outstanding d =
     (if reader_at d = Broken then d\<lparr>reader_at := Draining (outstanding (callmap d))\<rparr> else d)"

text \<open>The order in which Go iterates over a map is arbitrary: any tag of the list may be next.\<close>

definition reader_drain :: "nat \<Rightarrow> ('b, 'o) demux \<Rightarrow> ('b, 'o) demux go" where
  "reader_drain k d = (case reader_at d of
     Draining [] \<Rightarrow> Inr (d\<lparr>reader_at := Stopped\<rparr>)
   | Draining ts \<Rightarrow>
       if k < length ts \<and> listens (ts ! k) d
       then dmx_reply_to (ts ! k) \<lparr>dr_rep = None, dr_ok = False, dr_err = True\<rparr>
              (d\<lparr>reader_at := Draining (take k ts @ drop (Suc k) ts)\<rparr>)
       else Inr d
   | _ \<Rightarrow> Inr d)"

definition DemuxClnt_Close :: "('b, 'o) demux \<Rightarrow> ('b, 'o) demux" where
  "DemuxClnt_Close d =
     (if isClosed (callmap d) then d else d\<lparr>callmap := callMap_close (callmap d)\<rparr>)"

text \<open>The server: its reader starts a goroutine per request, which serves and writes the reply.\<close>

definition dmxsrv_read :: "('b, 'o) demux \<Rightarrow> ('b, 'o) demux" where
  "dmxsrv_read d = (case c2s d of
     [] \<Rightarrow> d | m # rest \<Rightarrow> d\<lparr>c2s := rest, serving := serving d @ [m]\<rparr>)"

definition dmxsrv_serve ::
  "('b \<Rightarrow> 'o \<Rightarrow> 'o \<times> 'b \<times> bool) \<Rightarrow> nat \<Rightarrow> bool \<Rightarrow> ('b, 'o) demux \<Rightarrow> ('b, 'o) demux" where
  "dmxsrv_serve serve k fine d =
     (if k < length (serving d)
      then let (t, req) = serving d ! k; (o', b, ok) = serve req (srv_obj d)
        in d\<lparr>serving := take k (serving d) @ drop (Suc k) (serving d), srv_obj := o',
             s2c := (if fine then s2c d @ [(t, b, ok)] else s2c d)\<rparr>
      else d)"

datatype 'b dmx_event =
    TakeTag 'b | PutCall nat | WriteCall nat bool
  | SrvRead | SrvServe nat bool
  | CliRead | CliError | CliOutstanding | CliDrain nat | CliClose

fun dmx_step ::
  "('b \<Rightarrow> 'o \<Rightarrow> 'o \<times> 'b \<times> bool) \<Rightarrow> 'b dmx_event \<Rightarrow> ('b, 'o) demux \<Rightarrow> ('b, 'o) demux go" where
  "dmx_step serve (TakeTag b) d = Inr (SendReceive_tag b d)"
| "dmx_step serve (PutCall i) d = Inr (SendReceive_put i d)"
| "dmx_step serve (WriteCall i fine) d = Inr (SendReceive_write i fine d)"
| "dmx_step serve SrvRead d = Inr (dmxsrv_read d)"
| "dmx_step serve (SrvServe k fine) d = Inr (dmxsrv_serve serve k fine d)"
| "dmx_step serve CliRead d = reader_read d"
| "dmx_step serve CliError d = Inr (reader_error d)"
| "dmx_step serve CliOutstanding d = Inr (reader_outstanding d)"
| "dmx_step serve (CliDrain k) d = reader_drain k d"
| "dmx_step serve CliClose d = Inr (DemuxClnt_Close d)"

fun dmx_run ::
  "('b \<Rightarrow> 'o \<Rightarrow> 'o \<times> 'b \<times> bool) \<Rightarrow> 'b dmx_event list \<Rightarrow> ('b, 'o) demux \<Rightarrow> ('b, 'o) demux go" where
  "dmx_run serve [] d = Inr d"
| "dmx_run serve (e # es) d = bind_go (dmx_step serve e d) (dmx_run serve es)"

end
