(* ===== verification/DemuxRuns.thy ===== *)
theory DemuxRuns
  imports Demux
begin

text \<open>
  The matching of replies to calls over all interleavings of the demultiplexer: each call gets
  the reply to its own request, the reader never meets a reply without a call, and a broken
  connection leaves no call waiting.  The tags are 32 bits wide; the theorems bound the number
  of calls by the point where they would be used again.
\<close>

section \<open>Replies reach the calls they answer\<close>

text \<open>
  The tags are consecutive, and as long as they do not wrap around the call of a tag is found
  at the position the tag gives.
\<close>

definition tag_at :: "nat \<Rightarrow> Ttag" where
  "tag_at i = of_nat (Suc i)"

definition idx :: "Ttag \<Rightarrow> nat" where
  "idx t = unat t - 1"

definition valid_tag :: "('b, 'o) demux \<Rightarrow> Ttag \<Rightarrow> bool" where
  "valid_tag d t = (0 < unat t \<and> idx t < length (sends d))"

definition call_of :: "('b, 'o) demux \<Rightarrow> Ttag \<Rightarrow> 'b send_call" where
  "call_of d t = sends d ! idx t"

definition few_calls :: "('b, 'o) demux \<Rightarrow> bool" where
  "few_calls d = (length (sends d) < 2 ^ 32 - 1)"

definition tag_inv :: "('b, 'o) demux \<Rightarrow> bool" where
  "tag_inv d = (nextTag d = tag_at (length (sends d))
                \<and> (\<forall>i < length (sends d). sr_tag (sends d ! i) = tag_at i))"

lemma idx_tag_at: "i < 2 ^ 32 - 1 \<Longrightarrow> idx (tag_at i) = i \<and> 0 < unat (tag_at i)"
  by (simp add: idx_def tag_at_def unat_of_nat del: of_nat_Suc)

lemma idx_of_call:
  assumes "few_calls d" "tag_inv d" "i < length (sends d)"
  shows "idx (sr_tag (sends d ! i)) = i" "valid_tag d (sr_tag (sends d ! i))"
    "call_of d (sr_tag (sends d ! i)) = sends d ! i"
  using assms idx_tag_at [of i]
  by (auto simp: tag_inv_def few_calls_def valid_tag_def call_of_def)

lemma idx_inj:
  assumes "valid_tag d t" "valid_tag d u"
  shows "idx t = idx u \<longleftrightarrow> t = u"
proof
  assume "idx t = idx u"
  then have "unat t = unat u" using assms unfolding idx_def valid_tag_def by linarith
  then show "t = u" by (simp add: word_unat_eq_iff)
qed simp

fun waiting :: "'b send_state \<Rightarrow> bool" where
  "waiting Queued = True"
| "waiting Written = True"
| "waiting _ = False"

fun sent :: "reader_pc \<Rightarrow> 'b send_state \<Rightarrow> bool" where
  "sent pc Written = True"
| "sent pc (Got r) = (pc \<noteq> Reading)"
| "sent pc _ = False"

text \<open>The table holds exactly the calls without an answer.\<close>

definition table_of :: "('b, 'o) demux \<Rightarrow> (Ttag \<rightharpoonup> nat)" where
  "table_of d t = (if valid_tag d t \<and> waiting (sr_state (call_of d t)) then Some (idx t) else None)"

definition table_inv :: "('b, 'o) demux \<Rightarrow> bool" where
  "table_inv d = (distinct (map fst (cm_calls (callmap d)))
                  \<and> map_of (cm_calls (callmap d)) = table_of d)"

text \<open>A tag is on its way at most once, and only while its call listens or after the break.\<close>

definition flight :: "('b, 'o) demux \<Rightarrow> Ttag list" where
  "flight d = map fst (c2s d) @ map fst (serving d) @ map fst (s2c d)"

definition flight_inv :: "('b, 'o) demux \<Rightarrow> bool" where
  "flight_inv d = (distinct (flight d)
     \<and> (\<forall>t \<in> set (flight d). valid_tag d t \<and> sent (reader_at d) (sr_state (call_of d t))))"

text \<open>Requests are those of their calls, replies are answers to them.\<close>

definition answer_of :: "('b \<Rightarrow> 'o \<Rightarrow> 'o \<times> 'b \<times> bool) \<Rightarrow> 'b \<Rightarrow> 'b \<Rightarrow> bool \<Rightarrow> bool" where
  "answer_of serve req b ok = (\<exists>x. snd (serve req x) = (b, ok))"

fun answered_well :: "('b \<Rightarrow> 'o \<Rightarrow> 'o \<times> 'b \<times> bool) \<Rightarrow> 'b \<Rightarrow> 'b send_state \<Rightarrow> bool" where
  "answered_well serve req (Got r) =
     (\<not> dr_err r \<longrightarrow> (\<exists>b. dr_rep r = Some b \<and> answer_of serve req b (dr_ok r)))"
| "answered_well serve req _ = True"

definition content_inv :: "('b \<Rightarrow> 'o \<Rightarrow> 'o \<times> 'b \<times> bool) \<Rightarrow> ('b, 'o) demux \<Rightarrow> bool" where
  "content_inv serve d =
     ((\<forall>(t, req) \<in> set (c2s d @ serving d). sr_req (call_of d t) = req)
      \<and> (\<forall>(t, b, ok) \<in> set (s2c d). answer_of serve (sr_req (call_of d t)) b ok)
      \<and> (\<forall>c \<in> set (sends d). answered_well serve (sr_req c) (sr_state c)))"

lemma content_invI:
  assumes "\<And>t req. (t, req) \<in> set (c2s d) \<or> (t, req) \<in> set (serving d) \<Longrightarrow> sr_req (call_of d t) = req"
    and "\<And>t b ok. (t, b, ok) \<in> set (s2c d) \<Longrightarrow> answer_of serve (sr_req (call_of d t)) b ok"
    and "\<And>c. c \<in> set (sends d) \<Longrightarrow> answered_well serve (sr_req c) (sr_state c)"
  shows "content_inv serve d"
  using assms by (auto simp: content_inv_def)

lemma content_req:
  assumes "content_inv serve d" "(t, req) \<in> set (c2s d) \<or> (t, req) \<in> set (serving d)"
  shows "sr_req (call_of d t) = req"
proof -
  have "\<forall>m \<in> set (c2s d @ serving d). case m of (t, req) \<Rightarrow> sr_req (call_of d t) = req"
    using assms(1) unfolding content_inv_def by (rule conjunct1)
  from bspec [OF this, of "(t, req)"] assms(2) show ?thesis by auto
qed

lemma content_rep:
  "content_inv serve d \<Longrightarrow> (t, b, ok) \<in> set (s2c d)
   \<Longrightarrow> answer_of serve (sr_req (call_of d t)) b ok"
  unfolding content_inv_def by auto

lemma content_got:
  "content_inv serve d \<Longrightarrow> c \<in> set (sends d) \<Longrightarrow> answered_well serve (sr_req c) (sr_state c)"
  by (simp add: content_inv_def)

text \<open>Messages that stay on their way keep their contents while calls keep their requests.\<close>

lemma content_mono:
  assumes "content_inv serve d" and "flight_inv d"
    and same: "\<And>t. valid_tag d t \<Longrightarrow> sr_req (call_of d' t) = sr_req (call_of d t)"
    and "set (c2s d') \<union> set (serving d') \<subseteq> set (c2s d) \<union> set (serving d)"
    and "set (s2c d') \<subseteq> set (s2c d)"
    and "\<And>c. c \<in> set (sends d') \<Longrightarrow> answered_well serve (sr_req c) (sr_state c)"
  shows "content_inv serve d'"
proof (rule content_invI)
  have valid: "valid_tag d t" if "t \<in> set (flight d)" for t
    using assms(2) that by (simp add: flight_inv_def)
  show "sr_req (call_of d' t) = req"
    if "(t, req) \<in> set (c2s d') \<or> (t, req) \<in> set (serving d')" for t req
  proof -
    have m: "(t, req) \<in> set (c2s d) \<or> (t, req) \<in> set (serving d)"
      using that assms(4) by blast
    then have "t \<in> set (flight d)" by (force simp: flight_def)
    with m show ?thesis
      using same [OF valid] content_req [OF assms(1), of t req] by simp
  qed
  show "answer_of serve (sr_req (call_of d' t)) b ok" if "(t, b, ok) \<in> set (s2c d')" for t b ok
  proof -
    have m: "(t, b, ok) \<in> set (s2c d)" using that assms(5) by blast
    then have "t \<in> set (flight d)" by (force simp: flight_def)
    with m show ?thesis
      using same [OF valid] content_rep [OF assms(1), of t b ok] by simp
  qed
qed (rule assms(6))

definition reader_inv :: "('b, 'o) demux \<Rightarrow> bool" where
  "reader_inv d = ((reader_at d \<noteq> Reading \<longrightarrow> closed (callmap d))
     \<and> (\<forall>ts. reader_at d = Draining ts \<longrightarrow>
          distinct ts \<and> set ts = dom (map_of (cm_calls (callmap d))))
     \<and> (reader_at d = Stopped \<longrightarrow> cm_calls (callmap d) = []))"

definition dmx_inv :: "('b \<Rightarrow> 'o \<Rightarrow> 'o \<times> 'b \<times> bool) \<Rightarrow> ('b, 'o) demux \<Rightarrow> bool" where
  "dmx_inv serve d =
     (tag_inv d \<and> table_inv d \<and> flight_inv d \<and> content_inv serve d \<and> reader_inv d)"

lemma dmx_invE:
  assumes "dmx_inv serve d"
  obtains "tag_inv d" "table_inv d" "flight_inv d" "content_inv serve d" "reader_inv d"
  using assms by (simp add: dmx_inv_def)

lemma message_updates [simp]:
  "valid_tag (d\<lparr>c2s := a\<rparr>) = valid_tag d" "call_of (d\<lparr>c2s := a\<rparr>) = call_of d"
  "valid_tag (d\<lparr>serving := a\<rparr>) = valid_tag d" "call_of (d\<lparr>serving := a\<rparr>) = call_of d"
  "valid_tag (d\<lparr>s2c := b\<rparr>) = valid_tag d" "call_of (d\<lparr>s2c := b\<rparr>) = call_of d"
  "valid_tag (d\<lparr>srv_obj := c\<rparr>) = valid_tag d" "call_of (d\<lparr>srv_obj := c\<rparr>) = call_of d"
  "valid_tag (d\<lparr>callmap := cm\<rparr>) = valid_tag d" "call_of (d\<lparr>callmap := cm\<rparr>) = call_of d"
  "valid_tag (d\<lparr>reader_at := pc\<rparr>) = valid_tag d" "call_of (d\<lparr>reader_at := pc\<rparr>) = call_of d"
  by (auto simp: valid_tag_def call_of_def)

lemma table_updates [simp]:
  "table_of (d\<lparr>c2s := a\<rparr>) = table_of d" "table_of (d\<lparr>serving := a\<rparr>) = table_of d"
  "table_of (d\<lparr>s2c := b\<rparr>) = table_of d" "table_of (d\<lparr>srv_obj := c\<rparr>) = table_of d"
  "table_of (d\<lparr>callmap := cm\<rparr>) = table_of d" "table_of (d\<lparr>reader_at := pc\<rparr>) = table_of d"
  by (auto simp: table_of_def)

lemma NewDemux_inv: "dmx_inv serve (NewDemux o0)"
  by (simp add: dmx_inv_def tag_inv_def table_inv_def flight_inv_def content_inv_def
      reader_inv_def NewDemux_def newCallMap_def flight_def tag_at_def table_of_def valid_tag_def
      fun_eq_iff)

subsection \<open>A new call\<close>

lemma tag_step_inv:
  assumes "dmx_inv serve d" "few_calls (SendReceive_tag b d)"
  shows "dmx_inv serve (SendReceive_tag b d)"
proof -
  define d' where "d' = SendReceive_tag b d"
  have d': "d' = d\<lparr>nextTag := nextTag d + 1,
      sends := sends d @ [\<lparr>sr_tag = nextTag d, sr_req = b, sr_state = Tagged\<rparr>]\<rparr>"
    by (simp add: d'_def SendReceive_tag_def dmx_tag_def)
  from assms(1) have inv: "tag_inv d" "table_inv d" "flight_inv d" "content_inv serve d"
    "reader_inv d" by (auto elim: dmx_invE)
  have valid: "valid_tag d' t" "call_of d' t = call_of d t" if "valid_tag d t" for t
    using that by (auto simp: d' valid_tag_def call_of_def nth_append)
  have fl: "valid_tag d t" if "t \<in> set (flight d)" for t
    using inv(3) that by (auto simp: flight_inv_def)
  have "tag_inv d'"
    using inv(1) by (auto simp: d' tag_inv_def nth_append less_Suc_eq tag_at_def)
  moreover have "table_inv d'"
  proof -
    have "table_of d' = table_of d"
      using valid by (auto simp: fun_eq_iff table_of_def d' valid_tag_def call_of_def nth_append
          less_Suc_eq)
    with inv(2) show ?thesis by (simp add: table_inv_def d')
  qed
  moreover have "flight_inv d'"
    using inv(3) valid by (auto simp: flight_inv_def flight_def d')
  moreover have "content_inv serve d'"
    by (rule content_mono [OF inv(4,3)])
      (use valid content_got [OF inv(4)] in \<open>auto simp: d'\<close>)
  moreover have "reader_inv d'"
    using inv(5) by (simp add: reader_inv_def d')
  ultimately show ?thesis by (simp add: dmx_inv_def d'_def)
qed


subsection \<open>A call moves on\<close>

lemma set_send_fields [simp]:
  "callmap (set_send i st d) = callmap d" "nextTag (set_send i st d) = nextTag d"
  "length (sends (set_send i st d)) = length (sends d)"
  "reader_at (set_send i st d) = reader_at d" "c2s (set_send i st d) = c2s d"
  "serving (set_send i st d) = serving d" "s2c (set_send i st d) = s2c d"
  "flight (set_send i st d) = flight d" "valid_tag (set_send i st d) = valid_tag d"
  by (auto simp: set_send_def flight_def valid_tag_def)

lemma set_send_nth:
  "i < length (sends d) \<Longrightarrow> j < length (sends d) \<Longrightarrow> sends (set_send i st d) ! j =
     (if j = i then (sends d ! i)\<lparr>sr_state := st\<rparr> else sends d ! j)"
  by (simp add: set_send_def)

lemma set_send_call_of:
  "i < length (sends d) \<Longrightarrow> valid_tag d t \<Longrightarrow> call_of (set_send i st d) t =
     (if idx t = i then (call_of d t)\<lparr>sr_state := st\<rparr> else call_of d t)"
  by (auto simp: call_of_def valid_tag_def set_send_nth)

lemma set_send_tag_inv: "i < length (sends d) \<Longrightarrow> tag_inv (set_send i st d) = tag_inv d"
  by (auto simp: tag_inv_def set_send_nth)

lemma set_send_sends:
  "i < length (sends d) \<Longrightarrow> c \<in> set (sends (set_send i st d))
   \<Longrightarrow> c \<in> set (sends d) \<or> c = (sends d ! i)\<lparr>sr_state := st\<rparr>"
  unfolding set_send_def using set_update_subset_insert by fastforce

lemma set_send_content:
  assumes "content_inv serve d" "flight_inv d" "i < length (sends d)"
    and "answered_well serve (sr_req (sends d ! i)) st"
  shows "content_inv serve (set_send i st d)"
proof (rule content_mono [OF assms(1,2)])
  show "answered_well serve (sr_req c) (sr_state c)" if "c \<in> set (sends (set_send i st d))" for c
    using set_send_sends [OF assms(3) that] content_got [OF assms(1)] assms(4) by auto
qed (use assms(3) in \<open>auto simp: set_send_call_of\<close>)

lemma set_send_flight:
  assumes "flight_inv d" "i < length (sends d)"
    and "sent (reader_at d) (sr_state (sends d ! i)) \<Longrightarrow> sent (reader_at d) st"
  shows "flight_inv (set_send i st d)"
  unfolding flight_inv_def
proof (intro conjI ballI)
  fix t assume "t \<in> set (flight (set_send i st d))"
  with assms(1) have t: "valid_tag d t" "sent (reader_at d) (sr_state (call_of d t))"
    by (auto simp: flight_inv_def)
  then show "sent (reader_at (set_send i st d)) (sr_state (call_of (set_send i st d) t))"
    using assms(2,3) by (cases "idx t = i") (auto simp: set_send_call_of call_of_def [of d])
  show "valid_tag (set_send i st d) t" using t by simp
qed (use assms(1) in \<open>simp add: flight_inv_def\<close>)

lemma set_send_table:
  assumes "i < length (sends d)" "valid_tag d t" "idx t = i"
  shows "table_of (set_send i st d) = (table_of d)(t := if waiting st then Some i else None)"
proof
  fix u
  show "table_of (set_send i st d) u = ((table_of d)(t := if waiting st then Some i else None)) u"
    using assms idx_inj [OF assms(2), of u]
    by (cases "valid_tag d u") (auto simp: table_of_def set_send_call_of)
qed

lemma put_step_inv:
  assumes "dmx_inv serve d" "few_calls d"
  shows "dmx_inv serve (SendReceive_put i d)"
proof (cases "i < length (sends d) \<and> sr_state (sends d ! i) = Tagged")
  case True
  then have i: "i < length (sends d)" and st: "sr_state (sends d ! i) = Tagged" by auto
  from assms(1) have inv: "tag_inv d" "table_inv d" "flight_inv d" "content_inv serve d"
    "reader_inv d" by (auto elim: dmx_invE)
  define t where "t = sr_tag (sends d ! i)"
  note t = idx_of_call [OF assms(2) inv(1) i, folded t_def]
  define st' where "st' = (if closed (callmap d) then Refused else Queued :: 'a send_state)"
  define cm where "cm = (if closed (callmap d) then callmap d
    else (callmap d)\<lparr>cm_calls := AList.update t i (cm_calls (callmap d))\<rparr>)"
  have eq: "SendReceive_put i d = (set_send i st' d)\<lparr>callmap := cm\<rparr>"
    using i st by (simp add: SendReceive_put_def callMap_put_def t_def st'_def cm_def set_send_def)
  define e where "e = set_send i st' d"
  have "table_of d t = None" using t st by (simp add: table_of_def)
  then have tab: "map_of (cm_calls cm) = table_of e" "distinct (map fst (cm_calls cm))"
    using inv(2) set_send_table [OF i t(2,1), of st']
    by (auto simp: e_def st'_def cm_def table_inv_def update_conv' distinct_update fun_upd_idem)
  have e: "tag_inv e" "flight_inv e" "content_inv serve e"
    using inv i st by (auto simp: e_def set_send_tag_inv st'_def intro!: set_send_content set_send_flight)
  have "reader_inv (e\<lparr>callmap := cm\<rparr>)"
    using inv(5) by (auto simp: e_def reader_inv_def cm_def)
  with e tab show ?thesis
    by (simp add: eq e_def [symmetric] dmx_inv_def tag_inv_def table_inv_def flight_inv_def
        content_inv_def flight_def)
next
  case False
  with assms(1) show ?thesis by (auto simp: SendReceive_put_def)
qed

lemma write_step_inv:
  assumes "dmx_inv serve d" "few_calls d"
  shows "dmx_inv serve (SendReceive_write i fine d)"
proof (cases "i < length (sends d) \<and> sr_state (sends d ! i) = Queued")
  case True
  then have i: "i < length (sends d)" and st: "sr_state (sends d ! i) = Queued" by auto
  from assms(1) have inv: "tag_inv d" "table_inv d" "flight_inv d" "content_inv serve d"
    "reader_inv d" by (auto elim: dmx_invE)
  define t where "t = sr_tag (sends d ! i)"
  note t = idx_of_call [OF assms(2) inv(1) i, folded t_def]
  define e where "e = set_send i Written d"
  define q where "q = (if fine then [(t, sr_req (sends d ! i))] else [])"
  have eq: "SendReceive_write i fine d = e\<lparr>c2s := c2s d @ q\<rparr>"
    using i st by (simp add: SendReceive_write_def set_send_def e_def t_def q_def)
  have e: "tag_inv e" "flight_inv e" "content_inv serve e" "reader_inv e"
    using inv i st by (auto simp: e_def set_send_tag_inv reader_inv_def
        intro!: set_send_content set_send_flight)
  have "table_of d t = Some i" using t st by (simp add: table_of_def)
  then have tab: "table_inv e"
    using inv(2) set_send_table [OF i t(2,1), of Written]
    by (auto simp: e_def table_inv_def fun_upd_idem)
  have call: "call_of e t = (sends d ! i)\<lparr>sr_state := Written\<rparr>" "valid_tag e t"
    using t i by (auto simp: e_def set_send_call_of)
  have "t \<notin> set (flight d)"
    using inv(3) t st by (auto simp: flight_inv_def)
  moreover have "flight (e\<lparr>c2s := c2s d @ q\<rparr>) = map fst (c2s d) @ map fst q @ map fst (serving d)
      @ map fst (s2c d)"
    by (simp add: flight_def e_def)
  ultimately have "flight_inv (e\<lparr>c2s := c2s d @ q\<rparr>)"
    using e(2) call inv(3) by (auto simp: flight_inv_def e_def q_def flight_def)
  moreover have "content_inv serve (e\<lparr>c2s := c2s d @ q\<rparr>)"
  proof (rule content_invI)
    show "sr_req (call_of (e\<lparr>c2s := c2s d @ q\<rparr>) u) = req"
      if "(u, req) \<in> set (c2s (e\<lparr>c2s := c2s d @ q\<rparr>)) \<or> (u, req) \<in> set (serving (e\<lparr>c2s := c2s d @ q\<rparr>))"
      for u req
      using that content_req [OF e(3), of u req] call
      by (auto simp: q_def e_def split: if_splits)
  qed (use content_rep [OF e(3)] content_got [OF e(3)] in auto)
  ultimately show ?thesis
    using e tab by (simp add: eq dmx_inv_def tag_inv_def table_inv_def reader_inv_def)
next
  case False
  with assms(1) show ?thesis by (auto simp: SendReceive_write_def)
qed

subsection \<open>Messages travel\<close>

text \<open>Moving messages around keeps the invariant when every tag still occurs at most once.\<close>

lemma move_messages_inv:
  assumes "dmx_inv serve d" and "distinct (flight d')" "set (flight d') \<subseteq> set (flight d)"
    and "content_inv serve d'"
    and "sends d' = sends d" "nextTag d' = nextTag d" "callmap d' = callmap d"
    "reader_at d' = reader_at d"
  shows "dmx_inv serve d'"
proof -
  have "valid_tag d' = valid_tag d" "call_of d' = call_of d"
    using assms(5) by (auto simp: valid_tag_def call_of_def)
  moreover from this have "table_of d' = table_of d" by (auto simp: table_of_def)
  ultimately show ?thesis
    using assms unfolding dmx_inv_def tag_inv_def table_inv_def flight_inv_def reader_inv_def
    by auto
qed

lemma srv_read_inv: "dmx_inv serve d \<Longrightarrow> dmx_inv serve (dmxsrv_read d)"
proof (cases "c2s d")
  case (Cons m rest)
  assume inv: "dmx_inv serve d"
  then have c: "content_inv serve d" "flight_inv d" by (auto elim: dmx_invE)
  have eq: "dmxsrv_read d = d\<lparr>c2s := rest, serving := serving d @ [m]\<rparr>"
    by (simp add: dmxsrv_read_def Cons)
  have "content_inv serve (d\<lparr>c2s := rest, serving := serving d @ [m]\<rparr>)"
    by (rule content_mono [OF c]) (use content_got [OF c(1)] Cons in auto)
  with c(2) show ?thesis
    unfolding eq by (intro move_messages_inv [OF inv]) (auto simp: flight_inv_def flight_def Cons)
qed (simp add: dmxsrv_read_def)

lemma serve_inv:
  assumes inv: "dmx_inv serve d"
  shows "dmx_inv serve (dmxsrv_serve serve k fine d)"
proof (cases "k < length (serving d)")
  case True
  then obtain t req xs ys where split: "serving d = xs @ (t, req) # ys" and k: "k = length xs"
    by (metis id_take_nth_drop length_take min.absorb2 nat_less_le surj_pair)
  obtain o' b ok where s: "serve req (srv_obj d) = (o', b, ok)" by (cases "serve req (srv_obj d)") auto
  define out where "out = (if fine then [(t, b, ok)] else [])"
  define d' where "d' = d\<lparr>serving := xs @ ys, srv_obj := o', s2c := s2c d @ out\<rparr>"
  have eq: "dmxsrv_serve serve k fine d = d'"
    by (simp add: dmxsrv_serve_def split k s d'_def out_def nth_append)
  have c: "content_inv serve d" "flight_inv d" using inv by (auto elim: dmx_invE)
  have "answer_of serve (sr_req (call_of d t)) b ok"
    using content_req [OF c(1), of t req] s by (auto simp: split answer_of_def intro!: exI [of _ "srv_obj d"])
  then have "content_inv serve d'"
    using content_req [OF c(1)] content_rep [OF c(1)] content_got [OF c(1)]
    by (intro content_invI) (auto simp: d'_def out_def split split: if_splits)
  moreover have "distinct (flight d')" "set (flight d') \<subseteq> set (flight d)"
    using c(2) by (auto simp: flight_inv_def flight_def d'_def split out_def)
  ultimately show ?thesis
    unfolding eq by (intro move_messages_inv [OF inv]) (simp_all add: d'_def)
qed (use inv in \<open>simp add: dmxsrv_serve_def\<close>)

subsection \<open>The reader\<close>

lemma reply_inv:
  assumes inv: "tag_inv d" "table_inv d" "content_inv serve d"
    and call: "valid_tag d t" "sr_state (call_of d t) = Written"
    and fl: "flight_inv d" "t \<notin> set (flight d) \<or> reader_at d \<noteq> Reading"
    and good: "answered_well serve (sr_req (call_of d t)) (Got r)"
  shows "\<exists>d'. dmx_reply_to t r d = Inr d' \<and> tag_inv d' \<and> table_inv d' \<and> content_inv serve d'
              \<and> flight_inv d' \<and> reader_at d' = reader_at d
              \<and> closed (callmap d') = closed (callmap d)
              \<and> dom (map_of (cm_calls (callmap d'))) = dom (map_of (cm_calls (callmap d))) - {t}"
proof -
  define i where "i = idx t"
  define e where "e = set_send i (Got r) d"
  define cm where "cm = (callmap d)\<lparr>cm_calls := AList.delete t (cm_calls (callmap d))\<rparr>"
  have i: "i < length (sends d)" using call(1) by (simp add: valid_tag_def i_def)
  have "map_of (cm_calls (callmap d)) t = Some i"
    using inv(2) call by (simp add: table_inv_def table_of_def i_def)
  then have eq: "dmx_reply_to t r d = Inr (e\<lparr>callmap := cm\<rparr>)"
    by (simp add: dmx_reply_to_def callMap_remove_def e_def cm_def set_send_def)
  have tab: "map_of (cm_calls cm) = table_of e" "distinct (map fst (cm_calls cm))"
    using inv(2) set_send_table [OF i call(1), of "Got r"]
    by (auto simp: e_def cm_def table_inv_def i_def delete_conv' distinct_delete)
  have st: "sr_state (sends d ! i) = Written" "sr_req (sends d ! i) = sr_req (call_of d t)"
    using call by (auto simp: call_of_def i_def)
  have "tag_inv e" "content_inv serve e"
    using inv i good st by (auto simp: e_def set_send_tag_inv fl(1) intro!: set_send_content)
  moreover have "flight_inv e"
    unfolding flight_inv_def
  proof (intro conjI ballI)
    fix u assume u: "u \<in> set (flight e)"
    then have v: "valid_tag d u" "sent (reader_at d) (sr_state (call_of d u))"
      using fl(1) by (auto simp: flight_inv_def e_def)
    then show "valid_tag e u" by (simp add: e_def)
    show "sent (reader_at e) (sr_state (call_of e u))"
      using v u fl(2) idx_inj [OF v(1) call(1)] i
      by (cases "u = t") (auto simp: e_def set_send_call_of i_def)
  qed (use fl(1) in \<open>simp add: flight_inv_def e_def\<close>)
  moreover have "tag_inv (e\<lparr>callmap := cm\<rparr>) = tag_inv e"
    "content_inv serve (e\<lparr>callmap := cm\<rparr>) = content_inv serve e"
    "flight_inv (e\<lparr>callmap := cm\<rparr>) = flight_inv e" "table_inv (e\<lparr>callmap := cm\<rparr>)"
    using tab by (simp_all add: tag_inv_def content_inv_def flight_inv_def flight_def table_inv_def)
  moreover have "dom (map_of (cm_calls cm)) = dom (map_of (cm_calls (callmap d))) - {t}"
    "closed cm = closed (callmap d)" "reader_at e = reader_at d"
    by (simp_all add: cm_def delete_conv' e_def)
  ultimately show ?thesis
    by (intro exI [of _ "e\<lparr>callmap := cm\<rparr>"]) (simp add: eq)
qed

lemma reader_read_inv:
  assumes inv: "dmx_inv serve d"
  shows "\<exists>d'. reader_read d = Inr d' \<and> dmx_inv serve d'"
proof (cases "reader_at d = Reading \<and> s2c d \<noteq> []")
  case True
  then obtain t b fine rest where m: "s2c d = (t, b, fine) # rest"
    by (metis list.exhaust surj_pair)
  from inv have c: "tag_inv d" "table_inv d" "flight_inv d" "content_inv serve d" "reader_inv d"
    by (auto elim: dmx_invE)
  have call: "valid_tag d t" "sent Reading (sr_state (call_of d t))"
    using c(3) m True by (auto simp: flight_inv_def flight_def)
  then have st: "sr_state (call_of d t) = Written"
    by (cases "sr_state (call_of d t)") auto
  then have "listens t d"
    using c(2) call(1) by (auto simp: listens_def table_inv_def table_of_def call_of_def)
  then have eq: "reader_read d = dmx_reply_to t \<lparr>dr_rep = Some b, dr_ok = fine, dr_err = False\<rparr>
      (d\<lparr>s2c := rest\<rparr>)"
    using True by (simp add: reader_read_def m)
  have "content_inv serve (d\<lparr>s2c := rest\<rparr>)"
    by (rule content_mono [OF c(4,3)]) (use content_got [OF c(4)] m in auto)
  moreover have "flight_inv (d\<lparr>s2c := rest\<rparr>)" "t \<notin> set (flight (d\<lparr>s2c := rest\<rparr>))"
    using c(3) m by (auto simp: flight_inv_def flight_def)
  moreover have "tag_inv (d\<lparr>s2c := rest\<rparr>)" "table_inv (d\<lparr>s2c := rest\<rparr>)"
    using c(1,2) by (simp_all add: tag_inv_def table_inv_def)
  moreover have "answer_of serve (sr_req (call_of d t)) b fine"
    using content_rep [OF c(4)] m by simp
  ultimately obtain d' where "reader_read d = Inr d'" "tag_inv d'" "table_inv d'"
    "content_inv serve d'" "flight_inv d'" "reader_at d' = Reading"
    using reply_inv [of "d\<lparr>s2c := rest\<rparr>" serve t "\<lparr>dr_rep = Some b, dr_ok = fine, dr_err = False\<rparr>"]
      call(1) st True unfolding eq by auto
  then show ?thesis by (simp add: dmx_inv_def reader_inv_def)
next
  case False
  then have "reader_read d = Inr d"
    by (auto simp: reader_read_def split: reader_pc.splits list.splits)
  with inv show ?thesis by simp
qed

lemma sent_not_reading: "sent pc st \<Longrightarrow> pc' \<noteq> Reading \<Longrightarrow> sent pc' st"
  by (cases st) auto

lemma reader_moves_inv:
  assumes inv: "dmx_inv serve d" and pc: "reader_at d' \<noteq> Reading \<or> reader_at d' = reader_at d"
    and "reader_inv d'" and "cm_calls (callmap d') = cm_calls (callmap d)"
    and "sends d' = sends d" "nextTag d' = nextTag d" "c2s d' = c2s d" "serving d' = serving d"
    "s2c d' = s2c d"
  shows "dmx_inv serve d'"
proof -
  have same: "valid_tag d' = valid_tag d" "call_of d' = call_of d" "flight d' = flight d"
    using assms by (auto simp: valid_tag_def call_of_def flight_def)
  then have "table_of d' = table_of d" by (auto simp: table_of_def)
  moreover have "flight_inv d'"
    using inv pc sent_not_reading same unfolding dmx_inv_def flight_inv_def by metis
  ultimately show ?thesis
    using assms same by (simp add: dmx_inv_def tag_inv_def table_inv_def content_inv_def)
qed

lemma reader_error_inv:
  assumes "dmx_inv serve d"
  shows "dmx_inv serve (reader_error d)"
  by (rule reader_moves_inv [OF assms])
    (use assms in \<open>auto simp: reader_error_def reader_inv_def callMap_close_def dmx_inv_def\<close>)

lemma reader_outstanding_inv:
  assumes "dmx_inv serve d"
  shows "dmx_inv serve (reader_outstanding d)"
  by (rule reader_moves_inv [OF assms])
    (use assms in \<open>auto simp: reader_outstanding_def reader_inv_def outstanding_def dmx_inv_def
      table_inv_def dom_map_of_conv_image_fst [symmetric]\<close>)

lemma close_inv:
  assumes "dmx_inv serve d"
  shows "dmx_inv serve (DemuxClnt_Close d)"
  by (rule reader_moves_inv [OF assms])
    (use assms in \<open>auto simp: DemuxClnt_Close_def reader_inv_def callMap_close_def dmx_inv_def\<close>)

lemma drain_inv:
  assumes inv: "dmx_inv serve d"
  shows "\<exists>d'. reader_drain k d = Inr d' \<and> dmx_inv serve d'"
proof (cases "reader_at d")
  case (Draining ts)
  from inv have c: "tag_inv d" "table_inv d" "flight_inv d" "content_inv serve d" "reader_inv d"
    by (auto elim: dmx_invE)
  show ?thesis
  proof (cases ts)
    case Nil
    then have "cm_calls (callmap d) = []"
      using c(5) Draining by (simp add: reader_inv_def dom_map_of_conv_image_fst)
    then have "dmx_inv serve (d\<lparr>reader_at := Stopped\<rparr>)"
      using c(5) Draining by (intro reader_moves_inv [OF inv]) (auto simp: reader_inv_def)
    then show ?thesis
      using Nil Draining by (simp add: reader_drain_def)
  next
    case (Cons u us)
    show ?thesis
    proof (cases "k < length ts \<and> listens (ts ! k) d")
      case True
      then obtain xs t ys where split: "ts = xs @ t # ys" and k: "k = length xs"
        by (metis id_take_nth_drop length_take min.absorb2 nat_less_le)
      define d1 where "d1 = d\<lparr>reader_at := Draining (xs @ ys)\<rparr>"
      have eq: "reader_drain k d = dmx_reply_to t \<lparr>dr_rep = None, dr_ok = False, dr_err = True\<rparr> d1"
        using True Draining
        by (cases xs) (simp_all add: reader_drain_def split k d1_def nth_append)
      have ts: "distinct ts" "set ts = dom (map_of (cm_calls (callmap d)))" "closed (callmap d)"
        using c(5) Draining by (auto simp: reader_inv_def)
      then obtain i where i: "map_of (cm_calls (callmap d)) t = Some i"
        by (auto simp: split)
      then have call: "valid_tag d t" "i = idx t" "waiting (sr_state (call_of d t))"
        using c(2) by (auto simp: table_inv_def table_of_def split: if_splits)
      then have st: "sr_state (call_of d t) = Written"
        using True i by (simp add: split k nth_append listens_def call_of_def valid_tag_def)
      have "tag_inv d1" "table_inv d1" "flight_inv d1" "content_inv serve d1"
        using c Draining by (auto simp: d1_def tag_inv_def table_inv_def flight_inv_def flight_def
            content_inv_def intro: sent_not_reading)
      then obtain d' where d': "reader_drain k d = Inr d'" "tag_inv d'" "table_inv d'"
        "content_inv serve d'" "flight_inv d'" "reader_at d' = Draining (xs @ ys)"
        "closed (callmap d') = closed (callmap d)"
        "dom (map_of (cm_calls (callmap d'))) = dom (map_of (cm_calls (callmap d))) - {t}"
        using reply_inv [of d1 serve t "\<lparr>dr_rep = None, dr_ok = False, dr_err = True\<rparr>"] call(1) st
        unfolding eq by (auto simp: d1_def)
      moreover have "set (xs @ ys) = dom (map_of (cm_calls (callmap d'))) \<and> distinct (xs @ ys)"
        using ts(1) ts(2) [symmetric] d'(8) by (auto simp: split)
      ultimately show ?thesis
        using ts(3) by (simp add: dmx_inv_def reader_inv_def)
    next
      case False
      then have "reader_drain k d = Inr d"
        using Draining Cons by (auto simp: reader_drain_def split: if_splits)
      with inv show ?thesis by simp
    qed
  qed
qed (use inv in \<open>simp_all add: reader_drain_def\<close>)

subsection \<open>Runs\<close>

lemma dmx_step_inv:
  assumes "dmx_inv serve d" and "few_calls d"
    and "\<And>b. e = TakeTag b \<Longrightarrow> few_calls (SendReceive_tag b d)"
  shows "\<exists>d'. dmx_step serve e d = Inr d' \<and> dmx_inv serve d'"
  using assms by (cases e) (auto intro: tag_step_inv put_step_inv write_step_inv srv_read_inv
      serve_inv reader_read_inv reader_error_inv reader_outstanding_inv drain_inv close_inv)

definition starts :: "'b dmx_event list \<Rightarrow> nat" where
  "starts es = length (filter (\<lambda>e. case e of TakeTag _ \<Rightarrow> True | _ \<Rightarrow> False) es)"

lemma reply_to_length: "dmx_reply_to t r d = Inr d' \<Longrightarrow> length (sends d') = length (sends d)"
  by (auto simp: dmx_reply_to_def split: prod.splits option.splits)

lemma dmx_step_length:
  "dmx_step serve e d = Inr d' \<Longrightarrow>
   length (sends d') = (case e of TakeTag _ \<Rightarrow> Suc (length (sends d)) | _ \<Rightarrow> length (sends d))"
  by (cases e) (auto simp: SendReceive_tag_def dmx_tag_def SendReceive_put_def SendReceive_write_def
      dmxsrv_read_def dmxsrv_serve_def reader_read_def reader_error_def reader_outstanding_def
      reader_drain_def DemuxClnt_Close_def Let_def dest!: reply_to_length
      split: if_splits prod.splits list.splits reader_pc.splits)

lemma dmx_run_inv:
  assumes "dmx_inv serve d" and "length (sends d) + starts es < 2 ^ 32 - 1"
  shows "\<exists>d'. dmx_run serve es d = Inr d' \<and> dmx_inv serve d'
              \<and> length (sends d') = length (sends d) + starts es"
  using assms
proof (induction es arbitrary: d)
  case (Cons e es)
  have "few_calls d" "\<And>b. e = TakeTag b \<Longrightarrow> few_calls (SendReceive_tag b d)"
    using Cons.prems(2) by (auto simp: few_calls_def starts_def SendReceive_tag_def dmx_tag_def)
  with dmx_step_inv [OF Cons.prems(1)] obtain d1 where d1: "dmx_step serve e d = Inr d1"
    "dmx_inv serve d1" by blast
  have len: "length (sends d1) + starts es = length (sends d) + starts (e # es)"
    using dmx_step_length [OF d1(1)] by (cases e) (auto simp: starts_def)
  with Cons.IH [OF d1(2)] Cons.prems(2) d1(1) show ?case by simp
qed (simp add: starts_def)

text \<open>
  C21: As long as the tags do not wrap around, the reader never meets a reply without a call,
  and a call that returns without an error returns what the server computed for its own
  request, whatever the order of the replies.
\<close>

theorem SendReceive_gets_own_reply:
  assumes "starts es < 2 ^ 32 - 1"
  shows "\<exists>d. dmx_run serve es (NewDemux o0) = Inr d
             \<and> (\<forall>c r. c \<in> set (sends d) \<longrightarrow> sr_state c = Got r \<longrightarrow> \<not> dr_err r \<longrightarrow>
                  (\<exists>b x. dr_rep r = Some b \<and> snd (serve (sr_req c) x) = (b, dr_ok r)))"
proof -
  obtain d where d: "dmx_run serve es (NewDemux o0) = Inr d" "dmx_inv serve d"
    using dmx_run_inv [OF NewDemux_inv, of o0 es serve] assms by (auto simp: NewDemux_def)
  have "\<exists>b x. dr_rep r = Some b \<and> snd (serve (sr_req c) x) = (b, dr_ok r)"
    if "c \<in> set (sends d)" "sr_state c = Got r" "\<not> dr_err r" for c r
    using content_got [of serve d c] d(2) that by (auto simp: dmx_inv_def answer_of_def)
  with d(1) show ?thesis by blast
qed

text \<open>
  C25: When the reader has given up, no call is left waiting for a reply, and a call that
  registers later is refused: no \<^verbatim>\<open>SendReceive\<close> hangs on a broken connection.
\<close>

theorem broken_connection_releases_calls:
  assumes "starts es < 2 ^ 32 - 1" and "dmx_run serve es (NewDemux o0) = Inr d"
    and "reader_at d = Stopped" and "i < length (sends d)"
  shows "(case sr_state (sends d ! i) of
            Tagged \<Rightarrow> sr_state (sends (SendReceive_put i d) ! i) = Refused
          | Refused \<Rightarrow> True | Got r \<Rightarrow> True | _ \<Rightarrow> False)"
proof -
  have run: "length (sends d) = starts es" and inv: "dmx_inv serve d"
    using dmx_run_inv [OF NewDemux_inv, of o0 es serve] assms(1,2) by (auto simp: NewDemux_def)
  then have "cm_calls (callmap d) = []" "closed (callmap d)"
    using assms(3) by (auto simp: dmx_inv_def reader_inv_def)
  moreover have "few_calls d" "tag_inv d" "table_of d = Map.empty"
    using run calculation(1) inv assms(1) by (auto simp: few_calls_def dmx_inv_def table_inv_def)
  moreover have "\<not> waiting (sr_state (sends d ! i))"
    using idx_of_call [OF calculation(3,4) assms(4)] fun_cong [OF calculation(5), of "sr_tag (sends d ! i)"]
    by (auto simp: table_of_def split: if_splits)
  ultimately show ?thesis
    using assms(4) by (auto simp: SendReceive_put_def callMap_put_def set_send_def
        split: send_state.splits)
qed

text \<open>Two calls whose replies come back in the other order, and a connection that breaks.\<close>

definition demo_serve :: "nat \<Rightarrow> nat \<Rightarrow> nat \<times> nat \<times> bool" where
  "demo_serve req n = (n + 1, req + 100, True)"

definition demo_calls :: "nat dmx_event list" where
  "demo_calls = [TakeTag 7, TakeTag 8, PutCall 0, PutCall 1, WriteCall 0 True, WriteCall 1 True,
                 SrvRead, SrvRead, SrvServe 1 True, SrvServe 0 True, CliRead, CliRead]"

lemmas demux_defs = SendReceive_tag_def dmx_tag_def SendReceive_put_def SendReceive_write_def
  set_send_def callMap_put_def callMap_remove_def newCallMap_def NewDemux_def dmxsrv_read_def
  dmxsrv_serve_def reader_read_def reader_error_def reader_outstanding_def reader_drain_def
  callMap_close_def outstanding_def dmx_reply_to_def listens_def

definition demo_got :: "nat \<Rightarrow> nat dmx_reply" where
  "demo_got b = \<lparr>dr_rep = Some b, dr_ok = True, dr_err = False\<rparr>"

theorem SendReceive_gets_own_reply_witness:
  "\<exists>d. dmx_run demo_serve demo_calls (NewDemux 0) = Inr d
       \<and> map sr_state (sends d) = [Got (demo_got 107), Got (demo_got 108)]
       \<and> (\<exists>b x. dr_rep (demo_got 107) = Some b \<and> snd (demo_serve 7 x) = (b, True))"
proof -
  have "starts demo_calls < 2 ^ 32 - 1" by (simp add: starts_def demo_calls_def)
  from SendReceive_gets_own_reply [OF this, of demo_serve 0] obtain d where
    d: "dmx_run demo_serve demo_calls (NewDemux 0) = Inr d"
    and got: "\<And>c r. c \<in> set (sends d) \<Longrightarrow> sr_state c = Got r \<Longrightarrow> \<not> dr_err r \<Longrightarrow>
           \<exists>b x. dr_rep r = Some b \<and> snd (demo_serve (sr_req c) x) = (b, dr_ok r)"
    by blast
  have "sends d = [\<lparr>sr_tag = 1, sr_req = 7, sr_state = Got (demo_got 107)\<rparr>,
                   \<lparr>sr_tag = 2, sr_req = 8, sr_state = Got (demo_got 108)\<rparr>]"
    using d by (simp add: demo_calls_def demux_defs demo_serve_def demo_got_def Let_def) auto
  with d got [of "\<lparr>sr_tag = 1, sr_req = 7, sr_state = Got (demo_got 107)\<rparr>" "demo_got 107"]
  show ?thesis by (simp add: demo_got_def)
qed

definition demo_break :: "nat dmx_event list" where
  "demo_break = [TakeTag 7, TakeTag 8, PutCall 0, WriteCall 0 True, CliError, CliOutstanding,
                 CliDrain 0, CliDrain 0]"

theorem broken_connection_releases_calls_witness:
  "\<exists>d. dmx_run demo_serve demo_break (NewDemux 0) = Inr d \<and> reader_at d = Stopped
       \<and> sr_state (sends d ! 1) = Tagged \<and> sr_state (sends (SendReceive_put 1 d) ! 1) = Refused"
proof -
  have few: "starts demo_break < 2 ^ 32 - 1" by (simp add: starts_def demo_break_def)
  obtain d where run: "dmx_run demo_serve demo_break (NewDemux 0) = Inr d"
    and d: "reader_at d = Stopped" "length (sends d) = 2" "sr_state (sends d ! 1) = Tagged"
    by (simp add: demo_break_def demux_defs)
  from broken_connection_releases_calls [OF few run d(1), of 1] run d show ?thesis by auto
qed

end
