(* ===== verification/LabGob.thy ===== *)
theory LabGob
  imports Prelude
begin

text \<open>
  The encoder wrapper \<^verbatim>\<open>src/src/labgob/labgob.go\<close>: before a value is encoded or decoded
  the wrapper walks over its type and counts the struct fields whose name does not start
  with an upper-case letter, each type once; before decoding it also walks over the
  target and counts the leaves that are not zero.  The wire format itself belongs to
  \<^verbatim>\<open>encoding/gob\<close> and is a parameter; \<^verbatim>\<open>unicode.IsUpper\<close> is the parameter \<open>is_upper\<close>.
\<close>

section \<open>Types\<close>

text \<open>
  Go types may refer to themselves, so that a type is a name and an environment gives its
  kind; a name without an entry (\<^verbatim>\<open>int\<close>, \<^verbatim>\<open>string\<close>, an interface) has no parts the
  walk looks at.
\<close>

type_synonym tname = string

datatype go_kind =
    Struct "(string \<times> tname) list"
  | Slice tname
  | Array tname
  | Ptr tname
  | MapOf tname tname \<comment> \<open>key and element type\<close>
  | OtherKind

type_synonym tenv = "(tname \<times> go_kind) list"

definition kind_of :: "tenv \<Rightarrow> tname \<Rightarrow> go_kind" where
  "kind_of E t = (case map_of E t of None \<Rightarrow> OtherKind | Some k \<Rightarrow> k)"

section \<open>The check of a type\<close>

record gob_state =
  errorCount :: int
  checked :: "tname set"

text \<open>
  What \<^verbatim>\<open>checkType\<close> still has to do, in the order in which its recursion does it: look at
  the name of a field, or check a type.
\<close>

datatype check_item = FieldName string | CheckType tname

fun parts :: "go_kind \<Rightarrow> check_item list" where
  "parts (Struct fs) = concat (map (\<lambda>(f, t). [FieldName f, CheckType t]) fs)"
| "parts (Slice t) = [CheckType t]"
| "parts (Array t) = [CheckType t]"
| "parts (Ptr t) = [CheckType t]"
| "parts (MapOf k e) = [CheckType e, CheckType k]"
| "parts OtherKind = []"

definition capitalized :: "(char \<Rightarrow> bool) \<Rightarrow> string \<Rightarrow> bool" where
  "capitalized is_upper f = (case f of [] \<Rightarrow> False | c # _ \<Rightarrow> is_upper c)"

text \<open>
  The walk returns on cyclic types too: a type with parts is in the environment, and it is
  expanded only once.
\<close>

lemma parts_unknown: "t \<notin> fst ` set E \<Longrightarrow> parts (kind_of E t) = []"
  using map_of_eq_None_iff [of E t] by (simp add: kind_of_def)

function checkType_work ::
  "(char \<Rightarrow> bool) \<Rightarrow> tenv \<Rightarrow> check_item list \<Rightarrow> gob_state \<Rightarrow> gob_state" where
  "checkType_work is_upper E [] s = s"
| "checkType_work is_upper E (FieldName f # ws) s =
     checkType_work is_upper E ws
       (if capitalized is_upper f then s else s\<lparr>errorCount := errorCount s + 1\<rparr>)"
| "checkType_work is_upper E (CheckType t # ws) s =
     (if t \<in> checked s then checkType_work is_upper E ws s
      else checkType_work is_upper E (parts (kind_of E t) @ ws)
             (s\<lparr>checked := insert t (checked s)\<rparr>))"
  by pat_completeness auto

termination
proof (relation "measures [\<lambda>(_, E, _, s). card (fst ` set E - checked s),
                           \<lambda>(_, _, ws, _). length ws]", goal_cases)
  case (4 is_upper E t ws s)
  show ?case
  proof (cases "t \<in> fst ` set E")
    case True
    then have "fst ` set E - insert t (checked s) \<subset> fst ` set E - checked s"
      using 4 by auto
    then have "card (fst ` set E - insert t (checked s)) < card (fst ` set E - checked s)"
      by (intro psubset_card_mono) auto
    then show ?thesis by simp
  next
    case False
    then have "fst ` set E - insert t (checked s) = fst ` set E - checked s" by auto
    with False show ?thesis by (simp add: parts_unknown)
  qed
qed auto

definition checkType :: "(char \<Rightarrow> bool) \<Rightarrow> tenv \<Rightarrow> tname \<Rightarrow> gob_state \<Rightarrow> gob_state" where
  "checkType is_upper E t s = checkType_work is_upper E [CheckType t] s"

section \<open>The check of a target\<close>

text \<open>
  A value the decoder writes to: a struct with its fields, a pointer (nil or not), a leaf
  of a basic kind that is its zero value or not, and the kinds the check ignores.
\<close>

datatype go_value =
    StructV "(string \<times> go_value) list"
  | PtrV "go_value option"
  | BasicV bool \<comment> \<open>equal to the zero value of its type\<close>
  | OtherV

fun checkDefault1 :: "go_value \<Rightarrow> nat \<Rightarrow> gob_state \<Rightarrow> gob_state" where
  "checkDefault1 (StructV fs) depth s =
     (if depth > 3 then s else fold (\<lambda>(_, v) s. checkDefault1 v (depth + 1) s) fs s)"
| "checkDefault1 (PtrV None) depth s = s"
| "checkDefault1 (PtrV (Some v)) depth s =
     (if depth > 3 then s else checkDefault1 v (depth + 1) s)"
| "checkDefault1 (BasicV zero) depth s =
     (if depth > 3 \<or> zero then s else s\<lparr>errorCount := errorCount s + 1\<rparr>)"
| "checkDefault1 OtherV depth s = s"

definition checkDefault :: "go_value option \<Rightarrow> gob_state \<Rightarrow> gob_state" where
  "checkDefault v s = (case v of None \<Rightarrow> s | Some v \<Rightarrow> checkDefault1 v 1 s)"

section \<open>Encoders and decoders\<close>

text \<open>
  \<open>gob_enc\<close> and \<open>gob_dec\<close> stand for \<^verbatim>\<open>gob.Encoder.Encode\<close> and \<^verbatim>\<open>gob.Decoder.Decode\<close>.  A
  value passed as an interface is given by its type and its contents.
\<close>

definition LabEncoder_Encode ::
  "(char \<Rightarrow> bool) \<Rightarrow> tenv \<Rightarrow> ('v \<Rightarrow> 'r) \<Rightarrow> tname \<Rightarrow> 'v \<Rightarrow> gob_state \<Rightarrow> gob_state \<times> 'r" where
  "LabEncoder_Encode is_upper E gob_enc t v s = (checkType is_upper E t s, gob_enc v)"

definition LabDecoder_Decode ::
  "(char \<Rightarrow> bool) \<Rightarrow> tenv \<Rightarrow> (tname \<Rightarrow> 'b \<Rightarrow> 'r) \<Rightarrow> tname \<Rightarrow> go_value option \<Rightarrow> 'b
   \<Rightarrow> gob_state \<Rightarrow> gob_state \<times> 'r" where
  "LabDecoder_Decode is_upper E gob_dec t target b s =
     (checkDefault target (checkType is_upper E t s), gob_dec t b)"

section \<open>What the checks find\<close>

definition type_edge :: "tenv \<Rightarrow> tname \<Rightarrow> tname \<Rightarrow> bool" where
  "type_edge E t u = (CheckType u \<in> set (parts (kind_of E t)))"

definition lower_items :: "(char \<Rightarrow> bool) \<Rightarrow> check_item list \<Rightarrow> nat" where
  "lower_items is_upper ws =
     length (filter (\<lambda>w. case w of FieldName f \<Rightarrow> \<not> capitalized is_upper f
                                 | CheckType _ \<Rightarrow> False) ws)"

definition lower_fields :: "(char \<Rightarrow> bool) \<Rightarrow> tenv \<Rightarrow> tname \<Rightarrow> nat" where
  "lower_fields is_upper E t = lower_items is_upper (parts (kind_of E t))"

lemma lower_items_simps [simp]:
  "lower_items is_upper [] = 0"
  "lower_items is_upper (FieldName f # ws) =
     (if capitalized is_upper f then 0 else 1) + lower_items is_upper ws"
  "lower_items is_upper (CheckType t # ws) = lower_items is_upper ws"
  "lower_items is_upper (vs @ ws) = lower_items is_upper vs + lower_items is_upper ws"
  by (simp_all add: lower_items_def)

text \<open>
  The walk adds exactly the types reachable from the work list, and keeps the balance
  between the errors counted, the field names still to be looked at and the types
  already marked.
\<close>

lemma work_checked_grows: "checked s \<subseteq> checked (checkType_work is_upper E ws s)"
  by (induction is_upper E ws s rule: checkType_work.induct) auto

lemma work_checked_reachable:
  assumes "\<And>u. CheckType u \<in> set ws \<Longrightarrow> (type_edge E)\<^sup>*\<^sup>* t u"
    and "\<And>u. u \<in> checked s \<Longrightarrow> (type_edge E)\<^sup>*\<^sup>* t u"
    and "u \<in> checked (checkType_work is_upper E ws s)"
  shows "(type_edge E)\<^sup>*\<^sup>* t u"
  using assms
proof (induction is_upper E ws s rule: checkType_work.induct)
  case (3 is_upper E v ws s)
  show ?case
  proof (cases "v \<in> checked s")
    case True
    with 3 show ?thesis by auto
  next
    case False
    have v: "(type_edge E)\<^sup>*\<^sup>* t v" using "3.prems"(1) by simp
    have "(type_edge E)\<^sup>*\<^sup>* t w" if "CheckType w \<in> set (parts (kind_of E v))" for w
      using that v by (auto simp: type_edge_def intro: rtranclp.rtrancl_into_rtrancl)
    then show ?thesis
      using "3.IH"(2) [OF False] "3.prems" v False by auto
  qed
qed (auto split: if_splits)

lemma work_checks_items:
  "CheckType y \<in> set ws \<Longrightarrow> y \<in> checked (checkType_work is_upper E ws s)"
proof (induction is_upper E ws s rule: checkType_work.induct)
  case (3 is_upper E t ws s)
  then show ?case
    using work_checked_grows [of s is_upper E ws]
      work_checked_grows [of "s\<lparr>checked := insert t (checked s)\<rparr>" is_upper E
        "parts (kind_of E t) @ ws"]
    by (cases "t \<in> checked s") auto
qed auto

definition closed_upto :: "tenv \<Rightarrow> check_item list \<Rightarrow> tname set \<Rightarrow> bool" where
  "closed_upto E ws C = (\<forall>x\<in>C. \<forall>y. type_edge E x y \<longrightarrow> y \<in> C \<or> CheckType y \<in> set ws)"

lemma work_closed:
  "closed_upto E ws (checked s) \<Longrightarrow> closed_upto E [] (checked (checkType_work is_upper E ws s))"
proof (induction is_upper E ws s rule: checkType_work.induct)
  case (3 is_upper E t ws s)
  show ?case
  proof (cases "t \<in> checked s")
    case True
    then have "closed_upto E ws (checked s)"
      using "3.prems" by (auto simp: closed_upto_def)
    then show ?thesis using "3.IH"(1) True by simp
  next
    case False
    have "closed_upto E (parts (kind_of E t) @ ws) (insert t (checked s))"
      using "3.prems" by (auto simp: closed_upto_def type_edge_def)
    then show ?thesis using "3.IH"(2) False by simp
  qed
qed (auto simp: closed_upto_def)

lemma work_balance:
  assumes "finite (checked s)"
    and "errorCount s + int (lower_items is_upper ws)
         = e + int (\<Sum>t\<in>checked s. lower_fields is_upper E t)"
  shows "errorCount (checkType_work is_upper E ws s)
         = e + int (\<Sum>t\<in>checked (checkType_work is_upper E ws s). lower_fields is_upper E t)"
  using assms
proof (induction is_upper E ws s rule: checkType_work.induct)
  case (3 is_upper E t ws s)
  show ?case
  proof (cases "t \<in> checked s")
    case True
    with 3 show ?thesis by simp
  next
    case False
    with "3.prems" have "errorCount s + int (lower_items is_upper (parts (kind_of E t) @ ws))
        = e + int (\<Sum>u\<in>insert t (checked s). lower_fields is_upper E u)"
      by (simp add: lower_fields_def)
    with False "3.prems" "3.IH"(2) show ?thesis by simp
  qed
next
  case (2 is_upper E f ws s)
  then show ?case by (cases "capitalized is_upper f") simp_all
qed simp

lemma checked_checkType:
  assumes "checked s = {}"
  shows "checked (checkType is_upper E t s) = {u. (type_edge E)\<^sup>*\<^sup>* t u}"
proof
  show "checked (checkType is_upper E t s) \<subseteq> {u. (type_edge E)\<^sup>*\<^sup>* t u}"
    using work_checked_reachable [of "[CheckType t]" E t s] assms
    by (auto simp: checkType_def)
  have closed: "closed_upto E [] (checked (checkType is_upper E t s))"
    unfolding checkType_def by (rule work_closed) (simp add: closed_upto_def assms)
  have "u \<in> checked (checkType is_upper E t s)" if "(type_edge E)\<^sup>*\<^sup>* t u" for u
    using that
  proof (induction rule: rtranclp_induct)
    case base
    then show ?case unfolding checkType_def by (rule work_checks_items) simp
  next
    case (step y z)
    with closed show ?case by (auto simp: closed_upto_def)
  qed
  then show "{u. (type_edge E)\<^sup>*\<^sup>* t u} \<subseteq> checked (checkType is_upper E t s)" by blast
qed

text \<open>
  C27: \<^verbatim>\<open>checkType\<close> returns on every type, cyclic ones included, and counts each field with
  a lower-case name of each type that is reachable from it exactly once.
\<close>

theorem checkType_counts_lowercase_fields:
  assumes "checked s = {}"
  shows "errorCount (checkType is_upper E t s)
         = errorCount s + int (\<Sum>u | (type_edge E)\<^sup>*\<^sup>* t u. lower_fields is_upper E u)"
proof -
  have "errorCount (checkType is_upper E t s)
        = errorCount s
          + int (\<Sum>u\<in>checked (checkType is_upper E t s). lower_fields is_upper E u)"
    unfolding checkType_def by (rule work_balance) (simp_all add: assms)
  then show ?thesis by (simp add: checked_checkType assms)
qed

text \<open>A linked node with one field in lower case: the cycle is walked once.\<close>

definition demo_types :: tenv where
  "demo_types = [(''Node'', Struct [(''Val'', ''int''), (''next'', ''*Node'')]),
                 (''*Node'', Ptr ''Node'')]"

theorem checkType_counts_lowercase_fields_witness:
  "errorCount (checkType (\<lambda>c. c \<in> set ''ABCDEFGHIJKLMNOPQRSTUVWXYZ'') demo_types ''*Node''
     \<lparr>errorCount = 0, checked = {}\<rparr>) = 1
   \<and> 0 + int (\<Sum>u | (type_edge demo_types)\<^sup>*\<^sup>* ''*Node'' u.
              lower_fields (\<lambda>c. c \<in> set ''ABCDEFGHIJKLMNOPQRSTUVWXYZ'') demo_types u) = 1"
proof -
  have "errorCount (checkType (\<lambda>c. c \<in> set ''ABCDEFGHIJKLMNOPQRSTUVWXYZ'') demo_types ''*Node''
          \<lparr>errorCount = 0, checked = {}\<rparr>) = 1"
    by (simp add: checkType_def demo_types_def kind_of_def capitalized_def)
  with checkType_counts_lowercase_fields [of "\<lparr>errorCount = 0, checked = {}\<rparr>"
      "\<lambda>c. c \<in> set ''ABCDEFGHIJKLMNOPQRSTUVWXYZ''" demo_types "''*Node''"]
  show ?thesis by simp
qed

text \<open>
  The check before decoding counts the leaves that are not zero within three levels: a
  leaf below is not looked at.
\<close>

fun nonzero_leaves :: "nat \<Rightarrow> go_value \<Rightarrow> nat" where
  "nonzero_leaves 0 v = 0"
| "nonzero_leaves (Suc d) (StructV fs) = sum_list (map (\<lambda>p. nonzero_leaves d (snd p)) fs)"
| "nonzero_leaves (Suc d) (PtrV None) = 0"
| "nonzero_leaves (Suc d) (PtrV (Some v)) = nonzero_leaves d v"
| "nonzero_leaves (Suc d) (BasicV zero) = (if zero then 0 else 1)"
| "nonzero_leaves (Suc d) OtherV = 0"

lemma checkDefault1_deep [simp]: "3 < depth \<Longrightarrow> checkDefault1 v depth s = s"
  by (cases "(v, depth, s)" rule: checkDefault1.cases) auto

lemma fold_errorCount:
  assumes "\<And>p s. p \<in> set fs \<Longrightarrow> errorCount (f p s) = errorCount s + int (g p)"
  shows "errorCount (fold f fs s) = errorCount s + int (sum_list (map g fs))"
  using assms by (induction fs arbitrary: s) auto

lemma checkDefault1_counts:
  "depth + d = 4 \<Longrightarrow>
   errorCount (checkDefault1 v depth s) = errorCount s + int (nonzero_leaves d v)"
proof (induction d v arbitrary: depth s rule: nonzero_leaves.induct)
  case (2 d fs)
  then show ?case
    using fold_errorCount [of fs "\<lambda>(_, v) s. checkDefault1 v (depth + 1) s"
        "\<lambda>p. nonzero_leaves d (snd p)" s]
    by (auto simp: case_prod_unfold)
qed auto

lemma checkDefault_counts:
  "errorCount (checkDefault (Some v) s) = errorCount s + int (nonzero_leaves 3 v)"
  by (simp add: checkDefault_def checkDefault1_counts [where d = 3])

end
