(* ===== verification/LabRpc.thy ===== *)
theory LabRpc
  imports LabGob
begin

text \<open>
  The simulated network of \<^verbatim>\<open>src/src/labrpc/labrpc.go\<close>, over which every component of the
  repository talks: client ends, servers with their services, and the goroutine
  \<^verbatim>\<open>processReq\<close> that loses, delays, executes and answers a request.

  The goroutines of one request are a program counter \<open>pc\<close> for \<^verbatim>\<open>processReq\<close> and a state
  \<open>exec\<close> for the handler goroutine it starts; the events of \<open>net_event\<close> interleave the
  requests, the administration of the network and the results of \<^verbatim>\<open>rand\<close>.  A sleep ends at
  any time, so that every order of messages is a run.  A handler runs in one step; a
  handler that never returns is an \<open>Exec\<close> event that never comes.
\<close>

section \<open>Messages and codecs\<close>

type_synonym rpc_bytes = "8 word list"

record reqMsg =
  rq_endname :: string
  svcMeth :: string
  rq_args :: rpc_bytes

record replyMsg =
  rep_ok :: bool
  rep_reply :: rpc_bytes

abbreviation noReply :: replyMsg where
  "noReply \<equiv> \<lparr>rep_ok = False, rep_reply = []\<rparr>"

text \<open>
  \<^verbatim>\<open>encoding/gob\<close> as the code sees it: encoding gives the bytes written and whether it
  succeeded, decoding into a variable of a type succeeds or fails, and a new variable of a
  type has its zero value.
\<close>

record 'v codec =
  gob_enc :: "'v \<Rightarrow> rpc_bytes \<times> bool"
  gob_dec :: "tname \<Rightarrow> rpc_bytes \<Rightarrow> 'v option"
  zero_of :: "tname \<Rightarrow> 'v"

definition Marshall :: "'v codec \<Rightarrow> 'v \<Rightarrow> rpc_bytes go" where
  "Marshall C v = (case gob_enc C v of (b, fine) \<Rightarrow>
     if fine then Inr b else Inl (Fatal ''Marshall fatal: encode arg err''))"

definition Unmarshall :: "'v codec \<Rightarrow> tname \<Rightarrow> rpc_bytes \<Rightarrow> 'v go" where
  "Unmarshall C t b = (case gob_dec C t b of
     None \<Rightarrow> Inl (Fatal ''Unmarshall fatal: decode reply err'') | Some v \<Rightarrow> Inr v)"

section \<open>Services and servers\<close>

text \<open>
  A method as \<^verbatim>\<open>reflect\<close> shows it: parameter types (the receiver first), number of results,
  and what calling it does to the objects of the program, given its argument and the zero
  value of its reply.
\<close>

record ('v, 'o) rmethod =
  mname :: string
  PkgPath :: string
  ins :: "tname list"
  NumOut :: nat
  func :: "'v \<Rightarrow> 'v \<Rightarrow> 'o \<Rightarrow> 'o \<times> 'v"

record ('v, 'o) Service =
  svc_name :: string
  methods :: "string \<rightharpoonup> ('v, 'o) rmethod"

definition is_Ptr :: "tenv \<Rightarrow> tname \<Rightarrow> bool" where
  "is_Ptr E t = (case kind_of E t of Ptr _ \<Rightarrow> True | _ \<Rightarrow> False)"

definition type_Elem :: "tenv \<Rightarrow> tname \<Rightarrow> tname go" where
  "type_Elem E t = (case kind_of E t of
       Ptr u \<Rightarrow> Inr u | Slice u \<Rightarrow> Inr u | Array u \<Rightarrow> Inr u | MapOf _ u \<Rightarrow> Inr u
     | _ \<Rightarrow> Inl (Panic ''reflect: Elem of invalid type''))"

definition suitable :: "tenv \<Rightarrow> ('v, 'o) rmethod \<Rightarrow> bool go" where
  "suitable E m =
     (if PkgPath m \<noteq> [] \<or> length (ins m) \<noteq> 3 then Inr False
      else bind_go (go_nth (ins m) 2) (\<lambda>t. Inr (is_Ptr E t \<and> NumOut m = 0)))"

fun addMethods ::
  "tenv \<Rightarrow> ('v, 'o) rmethod list \<Rightarrow> (string \<rightharpoonup> ('v, 'o) rmethod)
   \<Rightarrow> (string \<rightharpoonup> ('v, 'o) rmethod) go" where
  "addMethods E [] ms = Inr ms"
| "addMethods E (m # rest) ms = bind_go (suitable E m) (\<lambda>fits.
     addMethods E rest (if fits then ms(mname m \<mapsto> m) else ms))"

definition MakeService ::
  "tenv \<Rightarrow> string \<Rightarrow> ('v, 'o) rmethod list \<Rightarrow> ('v, 'o) Service go" where
  "MakeService E tyname ms = bind_go (addMethods E ms Map.empty)
     (\<lambda>t. Inr \<lparr>svc_name = tyname, methods = t\<rparr>)"

definition Service_dispatch ::
  "tenv \<Rightarrow> 'v codec \<Rightarrow> ('v, 'o) Service \<Rightarrow> string \<Rightarrow> reqMsg \<Rightarrow> 'o \<Rightarrow> ('o \<times> replyMsg) go" where
  "Service_dispatch E C svc methname req objs =
     (case methods svc methname of
        Some m \<Rightarrow>
          bind_go (go_nth (ins m) 1) (\<lambda>argType.
          bind_go (Unmarshall C argType (rq_args req)) (\<lambda>arg.
          bind_go (go_nth (ins m) 2) (\<lambda>replyType.
          bind_go (type_Elem E replyType) (\<lambda>elemType.
            let (objs', rep) = func m arg (zero_of C elemType) objs;
                (b, _) = gob_enc C rep \<comment> \<open>the error of the encoder is dropped\<close>
            in Inr (objs', \<lparr>rep_ok = True, rep_reply = b\<rparr>)))))
      | None \<Rightarrow> Inl (Fatal ''labrpc.Service.dispatch(): unknown method''))"

record ('v, 'o) Server =
  services :: "string \<rightharpoonup> ('v, 'o) Service"
  srv_count :: int
  dispatchf :: "(string \<Rightarrow> rpc_bytes \<Rightarrow> 'o \<Rightarrow> 'o \<times> rpc_bytes \<times> bool) option"

definition MakeServer :: "('v, 'o) Server" where
  "MakeServer = \<lparr>services = Map.empty, srv_count = 0, dispatchf = None\<rparr>"

definition SetDispatch ::
  "(string \<Rightarrow> rpc_bytes \<Rightarrow> 'o \<Rightarrow> 'o \<times> rpc_bytes \<times> bool) \<Rightarrow> ('v, 'o) Server \<Rightarrow> ('v, 'o) Server" where
  "SetDispatch f rs = rs\<lparr>dispatchf := Some f\<rparr>"

definition AddService :: "('v, 'o) Service \<Rightarrow> ('v, 'o) Server \<Rightarrow> ('v, 'o) Server" where
  "AddService svc rs = rs\<lparr>services := (services rs)(svc_name svc \<mapsto> svc)\<rparr>"

text \<open>\<^verbatim>\<open>strings.LastIndex\<close> for one character, \<open>-1\<close> when it does not occur.\<close>

fun LastIndex :: "char \<Rightarrow> string \<Rightarrow> int" where
  "LastIndex c [] = -1"
| "LastIndex c (x # xs) =
     (let k = LastIndex c xs in if k \<ge> 0 then k + 1 else if x = c then 0 else -1)"

definition Server_dispatch ::
  "tenv \<Rightarrow> 'v codec \<Rightarrow> ('v, 'o) Server \<Rightarrow> reqMsg \<Rightarrow> 'o \<Rightarrow> (('v, 'o) Server \<times> 'o \<times> replyMsg) go" where
  "Server_dispatch E C rs req objs =
     (let rs = rs\<lparr>srv_count := srv_count rs + 1\<rparr>;
          dot = LastIndex (CHR ''.'') (svcMeth req)
      in bind_go (go_upto (svcMeth req) dot) (\<lambda>serviceName.
         bind_go (go_from (svcMeth req) (dot + 1)) (\<lambda>methodName.
           case dispatchf rs of
             Some f \<Rightarrow> (case f (svcMeth req) (rq_args req) objs of
                 (objs', b, fine) \<Rightarrow> Inr (rs, objs', \<lparr>rep_ok = fine, rep_reply = b\<rparr>))
           | None \<Rightarrow> (case services rs serviceName of
                 Some svc \<Rightarrow> bind_go (Service_dispatch E C svc methodName req objs)
                   (\<lambda>(objs', r). Inr (rs, objs', r))
               | None \<Rightarrow> Inl (Fatal ''labrpc.Server.dispatch(): unknown service'')))))"

definition Server_Dispatch ::
  "tenv \<Rightarrow> 'v codec \<Rightarrow> ('v, 'o) Server \<Rightarrow> string \<Rightarrow> string \<Rightarrow> rpc_bytes \<Rightarrow> 'o
   \<Rightarrow> (('v, 'o) Server \<times> 'o \<times> rpc_bytes \<times> bool) go" where
  "Server_Dispatch E C rs meth clnt args objs =
     bind_go (Server_dispatch E C rs \<lparr>rq_endname = clnt, svcMeth = meth, rq_args = args\<rparr> objs)
       (\<lambda>(rs', objs', rep). Inr (rs', objs', rep_reply rep, rep_ok rep))"

section \<open>The network\<close>

text \<open>
  A read of a Go map at a missing key gives the zero value, and nothing iterates over these
  maps; the pointer to a server is its address in the heap of servers.
\<close>

type_synonym Fcall = "string \<Rightarrow> string \<Rightarrow> rpc_bytes \<Rightarrow> rpc_bytes \<times> bool"

record ClientEnd =
  ce_name :: string
  callf :: "Fcall option"

definition SetCall :: "Fcall \<Rightarrow> ClientEnd \<Rightarrow> ClientEnd" where
  "SetCall f e = e\<lparr>callf := Some f\<rparr>"

record Network =
  reliable :: bool
  longDelays :: bool
  longReordering :: bool
  ends :: "string \<rightharpoonup> ClientEnd"
  enabled :: "string \<Rightarrow> bool"
  servers :: "string \<Rightarrow> nat option"
  connections :: "string \<Rightarrow> string option"
  net_done :: bool
  count :: "32 word"
  nbytes :: "64 word"

definition MakeNetwork :: Network where
  "MakeNetwork = \<lparr>reliable = True, longDelays = False, longReordering = False,
     ends = Map.empty, enabled = (\<lambda>_. False), servers = (\<lambda>_. None),
     connections = (\<lambda>_. None), net_done = False, count = 0, nbytes = 0\<rparr>"

definition Cleanup :: "Network \<Rightarrow> Network go" where
  "Cleanup rn = (if net_done rn then Inl (Panic ''close of closed channel'')
                 else Inr (rn\<lparr>net_done := True\<rparr>))"

definition Reliable :: "bool \<Rightarrow> Network \<Rightarrow> Network" where
  "Reliable yes rn = rn\<lparr>reliable := yes\<rparr>"

definition IsReliable :: "Network \<Rightarrow> bool" where
  "IsReliable rn = reliable rn"

definition LongReordering :: "bool \<Rightarrow> Network \<Rightarrow> Network" where
  "LongReordering yes rn = rn\<lparr>longReordering := yes\<rparr>"

definition LongDelays :: "bool \<Rightarrow> Network \<Rightarrow> Network" where
  "LongDelays yes rn = rn\<lparr>longDelays := yes\<rparr>"

definition IsLongDelays :: "Network \<Rightarrow> bool" where
  "IsLongDelays rn = longDelays rn"

definition readEndnameInfo ::
  "Network \<Rightarrow> string \<Rightarrow> bool \<times> string option \<times> nat option \<times> bool \<times> bool" where
  "readEndnameInfo rn e =
     (let servername = connections rn e;
          server = (case servername of None \<Rightarrow> None | Some n \<Rightarrow> servers rn n)
      in (enabled rn e, servername, server, reliable rn, longReordering rn))"

definition isServerDead :: "Network \<Rightarrow> string \<Rightarrow> string \<Rightarrow> nat \<Rightarrow> bool" where
  "isServerDead rn e servername server =
     (\<not> enabled rn e \<or> servers rn servername \<noteq> Some server)"

definition MakeEnd :: "string \<Rightarrow> Network \<Rightarrow> (Network \<times> ClientEnd) go" where
  "MakeEnd e rn =
     (if ends rn e \<noteq> None then Inl (Fatal ''MakeEnd: already exists'')
      else let ce = \<lparr>ce_name = e, callf = None\<rparr>
        in Inr (rn\<lparr>ends := (ends rn)(e \<mapsto> ce), enabled := (enabled rn)(e := False),
                   connections := (connections rn)(e := None)\<rparr>, ce))"

definition LookupEnd :: "string \<Rightarrow> Network \<Rightarrow> ClientEnd go" where
  "LookupEnd e rn = (case ends rn e of
     None \<Rightarrow> Inl (Fatal ''MakeEnd: doesn't exists'') | Some ce \<Rightarrow> Inr ce)"

definition DeleteEnd :: "string \<Rightarrow> Network \<Rightarrow> Network go" where
  "DeleteEnd e rn =
     (if ends rn e = None then Inl (Fatal ''MakeEnd: doesn't exists'')
      else Inr (rn\<lparr>ends := (ends rn)(e := None), enabled := (enabled rn)(e := False),
                   connections := (connections rn)(e := None)\<rparr>))"

definition AddServer :: "string \<Rightarrow> nat \<Rightarrow> Network \<Rightarrow> Network" where
  "AddServer n a rn = rn\<lparr>servers := (servers rn)(n := Some a)\<rparr>"

definition DeleteServer :: "string \<Rightarrow> Network \<Rightarrow> Network" where
  "DeleteServer n rn = rn\<lparr>servers := (servers rn)(n := None)\<rparr>"

definition Connect :: "string \<Rightarrow> string \<Rightarrow> Network \<Rightarrow> Network" where
  "Connect e n rn = rn\<lparr>connections := (connections rn)(e := Some n)\<rparr>"

definition Enable :: "string \<Rightarrow> bool \<Rightarrow> Network \<Rightarrow> Network" where
  "Enable e b rn = rn\<lparr>enabled := (enabled rn)(e := b)\<rparr>"

definition Server_GetCount :: "('v, 'o) Server \<Rightarrow> int" where
  "Server_GetCount rs = srv_count rs"

text \<open>\<^verbatim>\<open>GetCount\<close> follows the pointer of the server without a check.\<close>

definition Network_GetCount :: "('v, 'o) Server list \<Rightarrow> string \<Rightarrow> Network \<Rightarrow> int go" where
  "Network_GetCount heap n rn = (case servers rn n of
     None \<Rightarrow> Inl (Panic ''nil pointer dereference'')
   | Some a \<Rightarrow> bind_go (go_nth heap (int a)) (\<lambda>rs. Inr (Server_GetCount rs)))"

definition GetTotalCount :: "Network \<Rightarrow> int" where
  "GetTotalCount rn = sint (count rn)"

definition GetTotalBytes :: "Network \<Rightarrow> int" where
  "GetTotalBytes rn = sint (nbytes rn)"

section \<open>One request\<close>

definition SHORTDELAY :: nat where "SHORTDELAY = 27"
definition LONGDELAY :: nat where "LONGDELAY = 7000"
definition MAXDELAY :: nat where "MAXDELAY = LONGDELAY + 100"

text \<open>
  Where \<^verbatim>\<open>processReq\<close> stands: it has the request; it sleeps, having read the server name,
  the pointer to the server and the two flags; it waits for the handler; it has left that
  loop, with or without a reply; a timer will send a message on the reply channel; the
  caller has the message.
\<close>

datatype rpc_pc =
    Accepted
  | Sleeping string nat bool bool nat
  | Waiting string nat bool bool
  | Checking string nat bool bool "replyMsg option"
  | AfterFunc nat replyMsg bool \<comment> \<open>delay, message, whether its bytes are counted\<close>
  | Answered replyMsg

datatype rpc_exec = NotStarted | Running nat | Returned nat replyMsg | Taken nat replyMsg

record net_call =
  c_req :: reqMsg
  c_pc :: rpc_pc
  c_exec :: rpc_exec

text \<open>The stages of \<^verbatim>\<open>processReq\<close>; the numbers \<open>r\<close> are the results of \<^verbatim>\<open>rand.Int()\<close>.\<close>

definition processReq_begin :: "Network \<Rightarrow> nat \<Rightarrow> net_call \<Rightarrow> net_call" where
  "processReq_begin rn r c =
     (case readEndnameInfo rn (rq_endname (c_req c)) of
        (True, Some n, Some a, rel, reorder) \<Rightarrow>
          c\<lparr>c_pc := Sleeping n a rel reorder (if rel then 0 else r mod SHORTDELAY)\<rparr>
      | _ \<Rightarrow> c\<lparr>c_pc := AfterFunc (if IsLongDelays rn then r mod LONGDELAY else r mod 100)
                         noReply False\<rparr>)"

definition processReq_deliver :: "nat \<Rightarrow> net_call \<Rightarrow> net_call" where
  "processReq_deliver r c = (case c_pc c of
     Sleeping n a rel reorder _ \<Rightarrow>
       if \<not> rel \<and> r mod 1000 < 100 then c\<lparr>c_pc := Answered noReply\<rparr>
       else c\<lparr>c_pc := Waiting n a rel reorder, c_exec := Running a\<rparr>
   | _ \<Rightarrow> c)"

definition processReq_receive :: "net_call \<Rightarrow> net_call" where
  "processReq_receive c = (case (c_pc c, c_exec c) of
     (Waiting n a rel reorder, Returned b r) \<Rightarrow>
       c\<lparr>c_pc := Checking n a rel reorder (Some r), c_exec := Taken b r\<rparr>
   | _ \<Rightarrow> c)"

definition processReq_timeout :: "Network \<Rightarrow> net_call \<Rightarrow> net_call" where
  "processReq_timeout rn c = (case c_pc c of
     Waiting n a rel reorder \<Rightarrow>
       if isServerDead rn (rq_endname (c_req c)) n a
       then c\<lparr>c_pc := Checking n a rel reorder None\<rparr> else c
   | _ \<Rightarrow> c)"

definition addBytes :: "rpc_bytes \<Rightarrow> Network \<Rightarrow> Network" where
  "addBytes b rn = rn\<lparr>nbytes := nbytes rn + of_nat (length b)\<rparr>"

definition processReq_finish ::
  "Network \<Rightarrow> nat \<Rightarrow> nat \<Rightarrow> nat \<Rightarrow> nat \<Rightarrow> net_call \<Rightarrow> Network \<times> net_call" where
  "processReq_finish rn r1 r2 r3 r4 c = (case c_pc c of
     Checking n a rel reorder rep \<Rightarrow>
       (let serverDead = isServerDead rn (rq_endname (c_req c)) n a in
        case rep of
          None \<Rightarrow> (rn, c\<lparr>c_pc := Answered noReply\<rparr>)
        | Some reply \<Rightarrow>
            if serverDead then (rn, c\<lparr>c_pc := Answered noReply\<rparr>)
            else if \<not> rel \<and> r1 mod 1000 < 100 then (rn, c\<lparr>c_pc := Answered noReply\<rparr>)
            else if reorder \<and> r2 mod 900 < 600
            then (rn, c\<lparr>c_pc := AfterFunc (200 + r3 mod (1 + r4 mod 2000)) reply True\<rparr>)
            else (addBytes (rep_reply reply) rn, c\<lparr>c_pc := Answered reply\<rparr>))
   | _ \<Rightarrow> (rn, c))"

definition processReq_fire :: "Network \<Rightarrow> net_call \<Rightarrow> Network \<times> net_call" where
  "processReq_fire rn c = (case c_pc c of
     AfterFunc _ m counted \<Rightarrow>
       ((if counted then addBytes (rep_reply m) rn else rn), c\<lparr>c_pc := Answered m\<rparr>)
   | _ \<Rightarrow> (rn, c))"

section \<open>The running network\<close>

text \<open>
  The network, the heap of servers, the objects behind the services, the requests by the
  order in which the network goroutine received them, whether that goroutine still
  listens, and, as a history, the handlers that ran with the server and the reply of each.
\<close>

record ('v, 'o) rpc_sys =
  net :: Network
  srv_heap :: "('v, 'o) Server list"
  objs :: 'o
  calls :: "net_call list"
  listening :: bool
  ran :: "(nat \<times> nat \<times> replyMsg) list"

datatype ('v, 'o) net_event =
    Send reqMsg
  | Begin nat nat
  | Deliver nat nat
  | Exec nat
  | Receive nat
  | Timeout nat
  | Finish nat nat nat nat nat
  | Fire nat
  | NewServer "('v, 'o) Server"
  | EvAddServer string nat
  | EvDeleteServer string
  | EvMakeEnd string
  | EvDeleteEnd string
  | EvConnect string string
  | EvEnable string bool
  | EvReliable bool
  | EvLongReordering bool
  | EvLongDelays bool
  | EvCleanup
  | StopListening

definition acceptReq :: "reqMsg \<Rightarrow> ('v, 'o) rpc_sys \<Rightarrow> ('v, 'o) rpc_sys" where
  "acceptReq req s =
     (if listening s
      then s\<lparr>net := addBytes (rq_args req) ((net s)\<lparr>count := count (net s) + 1\<rparr>),
             calls := calls s @ [\<lparr>c_req = req, c_pc = Accepted, c_exec = NotStarted\<rparr>]\<rparr>
      else s)"

definition on_call ::
  "nat \<Rightarrow> (Network \<Rightarrow> net_call \<Rightarrow> Network \<times> net_call) \<Rightarrow> ('v, 'o) rpc_sys \<Rightarrow> ('v, 'o) rpc_sys" where
  "on_call i f s =
     (if i < length (calls s)
      then (case f (net s) (calls s ! i) of (rn, c) \<Rightarrow>
              s\<lparr>net := rn, calls := (calls s)[i := c]\<rparr>)
      else s)"

text \<open>The handler goroutine of request \<open>i\<close> runs \<^verbatim>\<open>server.dispatch\<close> and offers the result.\<close>

definition exec_handler ::
  "tenv \<Rightarrow> 'v codec \<Rightarrow> nat \<Rightarrow> ('v, 'o) rpc_sys \<Rightarrow> ('v, 'o) rpc_sys go" where
  "exec_handler E C i s =
     (if i < length (calls s) then
        (case c_exec (calls s ! i) of
           Running a \<Rightarrow>
             bind_go (go_nth (srv_heap s) (int a)) (\<lambda>rs.
             bind_go (Server_dispatch E C rs (c_req (calls s ! i)) (objs s)) (\<lambda>(rs', o', r).
               Inr (s\<lparr>srv_heap := (srv_heap s)[a := rs'], objs := o',
                      calls := (calls s)[i := (calls s ! i)\<lparr>c_exec := Returned a r\<rparr>],
                      ran := ran s @ [(i, a, r)]\<rparr>)))
         | _ \<Rightarrow> Inr s)
      else Inr s)"

definition on_net ::
  "(Network \<Rightarrow> Network) \<Rightarrow> ('v, 'o) rpc_sys \<Rightarrow> ('v, 'o) rpc_sys" where
  "on_net f s = s\<lparr>net := f (net s)\<rparr>"

fun net_step ::
  "tenv \<Rightarrow> 'v codec \<Rightarrow> ('v, 'o) net_event \<Rightarrow> ('v, 'o) rpc_sys \<Rightarrow> ('v, 'o) rpc_sys go" where
  "net_step E C (Send req) s = Inr (acceptReq req s)"
| "net_step E C (Begin i r) s =
     Inr (on_call i (\<lambda>rn c. (rn, if c_pc c = Accepted then processReq_begin rn r c else c)) s)"
| "net_step E C (Deliver i r) s = Inr (on_call i (\<lambda>rn c. (rn, processReq_deliver r c)) s)"
| "net_step E C (Exec i) s = exec_handler E C i s"
| "net_step E C (Receive i) s = Inr (on_call i (\<lambda>rn c. (rn, processReq_receive c)) s)"
| "net_step E C (Timeout i) s = Inr (on_call i (\<lambda>rn c. (rn, processReq_timeout rn c)) s)"
| "net_step E C (Finish i r1 r2 r3 r4) s =
     Inr (on_call i (\<lambda>rn. processReq_finish rn r1 r2 r3 r4) s)"
| "net_step E C (Fire i) s = Inr (on_call i processReq_fire s)"
| "net_step E C (NewServer rs) s = Inr (s\<lparr>srv_heap := srv_heap s @ [rs]\<rparr>)"
| "net_step E C (EvAddServer n a) s =
     Inr (if a < length (srv_heap s) then on_net (AddServer n a) s else s)"
| "net_step E C (EvDeleteServer n) s = Inr (on_net (DeleteServer n) s)"
| "net_step E C (EvMakeEnd e) s =
     bind_go (MakeEnd e (net s)) (\<lambda>(rn, _). Inr (s\<lparr>net := rn\<rparr>))"
| "net_step E C (EvDeleteEnd e) s = bind_go (DeleteEnd e (net s)) (\<lambda>rn. Inr (s\<lparr>net := rn\<rparr>))"
| "net_step E C (EvConnect e n) s = Inr (on_net (Connect e n) s)"
| "net_step E C (EvEnable e b) s = Inr (on_net (Enable e b) s)"
| "net_step E C (EvReliable b) s = Inr (on_net (Reliable b) s)"
| "net_step E C (EvLongReordering b) s = Inr (on_net (LongReordering b) s)"
| "net_step E C (EvLongDelays b) s = Inr (on_net (LongDelays b) s)"
| "net_step E C EvCleanup s = bind_go (Cleanup (net s)) (\<lambda>rn. Inr (s\<lparr>net := rn\<rparr>))"
| "net_step E C StopListening s =
     Inr (if net_done (net s) then s\<lparr>listening := False\<rparr> else s)"

fun net_run ::
  "tenv \<Rightarrow> 'v codec \<Rightarrow> ('v, 'o) net_event list \<Rightarrow> ('v, 'o) rpc_sys \<Rightarrow> ('v, 'o) rpc_sys go" where
  "net_run E C [] s = Inr s"
| "net_run E C (e # es) s = bind_go (net_step E C e s) (net_run E C es)"

definition net_init :: "'o \<Rightarrow> ('v, 'o) rpc_sys" where
  "net_init o0 = \<lparr>net = MakeNetwork, srv_heap = [], objs = o0, calls = [],
                  listening = True, ran = []\<rparr>"

text \<open>
  \<^verbatim>\<open>ClientEnd.Call\<close>: the request it sends, and what it makes of the message on its reply
  channel: the contents of the reply variable and the result.  \<^verbatim>\<open>Forward\<close> passes the bytes
  on.  When \<^verbatim>\<open>SetCall\<close> installed a function, it is called instead of the network.
\<close>

definition Call_request :: "'v codec \<Rightarrow> ClientEnd \<Rightarrow> string \<Rightarrow> 'v \<Rightarrow> reqMsg go" where
  "Call_request C e meth args = bind_go (Marshall C args)
     (\<lambda>b. Inr \<lparr>rq_endname = ce_name e, svcMeth = meth, rq_args = b\<rparr>)"

definition Call_return :: "'v codec \<Rightarrow> tname \<Rightarrow> 'v \<Rightarrow> replyMsg \<Rightarrow> ('v \<times> bool) go" where
  "Call_return C t reply rep =
     (if rep_ok rep then bind_go (Unmarshall C t (rep_reply rep)) (\<lambda>v. Inr (v, True))
      else Inr (reply, False))"

definition Call_callf ::
  "'v codec \<Rightarrow> ClientEnd \<Rightarrow> string \<Rightarrow> 'v \<Rightarrow> tname \<Rightarrow> 'v \<Rightarrow> ('v \<times> bool) go option" where
  "Call_callf C e meth args t reply = (case callf e of
     None \<Rightarrow> None
   | Some f \<Rightarrow> Some (bind_go (Marshall C args) (\<lambda>b.
       case f (ce_name e) meth b of (rep, fine) \<Rightarrow>
         if \<not> fine then Inr (reply, False)
         else bind_go (Unmarshall C t rep) (\<lambda>v. Inr (v, True)))))"

definition Forward_request :: "ClientEnd \<Rightarrow> string \<Rightarrow> rpc_bytes \<Rightarrow> reqMsg" where
  "Forward_request e meth args = \<lparr>rq_endname = ce_name e, svcMeth = meth, rq_args = args\<rparr>"

definition Forward_return :: "replyMsg \<Rightarrow> rpc_bytes \<times> bool" where
  "Forward_return rep = (rep_reply rep, rep_ok rep)"

end
