(* ===== verification/LabRpcRuns.thy ===== *)
theory LabRpcRuns
  imports LabRpc
begin

text \<open>
  What the simulated network of \<^verbatim>\<open>LabRpc\<close> promises to its users, over all interleavings of
  requests, handlers, timers and administration: a positive reply means one execution, a
  deleted server does not answer, every call returns, a reliable network delivers, and
  \<^verbatim>\<open>reflect\<close> never panics in a service built by \<^verbatim>\<open>MakeService\<close>.
\<close>

section \<open>Requests are executed at most once\<close>

definition runs :: "('v, 'o) rpc_sys \<Rightarrow> nat \<Rightarrow> (nat \<times> nat \<times> replyMsg) list" where
  "runs s i = filter (\<lambda>x. fst x = i) (ran s)"

fun exec_ok :: "nat \<Rightarrow> (nat \<times> nat \<times> replyMsg) list \<Rightarrow> rpc_exec \<Rightarrow> bool" where
  "exec_ok i rs NotStarted = (rs = [])"
| "exec_ok i rs (Running a) = (rs = [])"
| "exec_ok i rs (Returned a r) = (rs = [(i, a, r)])"
| "exec_ok i rs (Taken a r) = (rs = [(i, a, r)])"

fun started_on :: "nat \<Rightarrow> rpc_exec \<Rightarrow> bool" where
  "started_on a (Running b) = (a = b)"
| "started_on a (Returned b r) = (a = b)"
| "started_on a _ = False"

fun pc_ok :: "rpc_pc \<Rightarrow> rpc_exec \<Rightarrow> bool" where
  "pc_ok Accepted ex = (ex = NotStarted)"
| "pc_ok (Sleeping n a rel reorder ms) ex = (ex = NotStarted \<and> ms < MAXDELAY)"
| "pc_ok (Waiting n a rel reorder) ex = started_on a ex"
| "pc_ok (Checking n a rel reorder None) ex = started_on a ex"
| "pc_ok (Checking n a rel reorder (Some r)) ex = (ex = Taken a r)"
| "pc_ok (AfterFunc ms m counted) ex =
     (ms < MAXDELAY \<and> (if counted then \<exists>a. ex = Taken a m else ex = NotStarted \<and> m = noReply))"
| "pc_ok (Answered m) ex = (rep_ok m \<longrightarrow> (\<exists>a. ex = Taken a m))"

definition req_ok :: "nat \<Rightarrow> (nat \<times> nat \<times> replyMsg) list \<Rightarrow> net_call \<Rightarrow> bool" where
  "req_ok i rs c = (exec_ok i rs (c_exec c) \<and> pc_ok (c_pc c) (c_exec c))"

definition net_inv :: "('v, 'o) rpc_sys \<Rightarrow> bool" where
  "net_inv s = ((\<forall>i < length (calls s). req_ok i (runs s i) (calls s ! i))
                \<and> (\<forall>x \<in> set (ran s). fst x < length (calls s)))"

lemmas delay_defs = SHORTDELAY_def LONGDELAY_def MAXDELAY_def

lemma delay_bounds:
  "r mod SHORTDELAY < MAXDELAY" "r mod LONGDELAY < MAXDELAY" "r mod 100 < MAXDELAY"
  "0 < MAXDELAY" "200 + r mod Suc (q mod 2000) < MAXDELAY"
proof -
  show "r mod SHORTDELAY < MAXDELAY" "r mod LONGDELAY < MAXDELAY" "r mod 100 < MAXDELAY"
    "0 < MAXDELAY"
    using mod_less_divisor [of 27 r] mod_less_divisor [of 7000 r] mod_less_divisor [of 100 r]
    by (auto simp: delay_defs)
  have "r mod Suc (q mod 2000) < Suc (q mod 2000)" "q mod 2000 < 2000"
    by simp_all
  then have "r mod Suc (q mod 2000) < 2000" by linarith
  then show "200 + r mod Suc (q mod 2000) < MAXDELAY"
    by (simp add: delay_defs)
qed

named_theorems stage_ok \<open>every stage of a request keeps its invariant\<close>

lemma begin_ok [stage_ok]:
  "req_ok i rs c \<Longrightarrow> c_pc c = Accepted \<Longrightarrow> req_ok i rs (processReq_begin rn r c)"
  by (auto simp: processReq_begin_def req_ok_def delay_bounds
      split: bool.splits option.splits prod.splits)

lemma deliver_ok [stage_ok]: "req_ok i rs c \<Longrightarrow> req_ok i rs (processReq_deliver r c)"
  by (auto simp: processReq_deliver_def req_ok_def split: rpc_pc.splits)

lemma receive_ok [stage_ok]: "req_ok i rs c \<Longrightarrow> req_ok i rs (processReq_receive c)"
  by (auto simp: processReq_receive_def req_ok_def split: rpc_pc.splits rpc_exec.splits)

lemma stage_timeout_ok [stage_ok]: "req_ok i rs c \<Longrightarrow> req_ok i rs (processReq_timeout rn c)"
  by (auto simp: processReq_timeout_def req_ok_def split: rpc_pc.splits)

lemma finish_ok [stage_ok]:
  "req_ok i rs c \<Longrightarrow> req_ok i rs (snd (processReq_finish rn r1 r2 r3 r4 c))"
  by (auto simp: processReq_finish_def req_ok_def Let_def delay_bounds
      split: rpc_pc.splits option.splits)

lemma fire_ok [stage_ok]: "req_ok i rs c \<Longrightarrow> req_ok i rs (snd (processReq_fire rn c))"
  by (auto simp: processReq_fire_def req_ok_def split: rpc_pc.splits if_splits)

lemma on_call_fields [simp]:
  "length (calls (on_call i f s)) = length (calls s)" "ran (on_call i f s) = ran s"
  "srv_heap (on_call i f s) = srv_heap s" "objs (on_call i f s) = objs s"
  "listening (on_call i f s) = listening s" "runs (on_call i f s) = runs s"
  by (auto simp: on_call_def runs_def split: prod.splits)

lemma on_call_nth:
  "calls (on_call i f s) ! j = (if j = i \<and> i < length (calls s)
     then snd (f (net s) (calls s ! i)) else calls s ! j)"
  by (auto simp: on_call_def split: prod.splits)

lemma on_call_net:
  "net (on_call i f s) = (if i < length (calls s) then fst (f (net s) (calls s ! i)) else net s)"
  by (auto simp: on_call_def split: prod.splits)

lemma net_inv_call: "net_inv s \<Longrightarrow> i < length (calls s) \<Longrightarrow> req_ok i (runs s i) (calls s ! i)"
  by (simp add: net_inv_def)

lemma on_call_inv:
  assumes "net_inv s"
    and "\<And>rs. req_ok i rs (calls s ! i) \<Longrightarrow> req_ok i rs (snd (f (net s) (calls s ! i)))"
  shows "net_inv (on_call i f s)"
  using assms by (auto simp: net_inv_def on_call_nth)

lemma same_calls_inv:
  assumes "net_inv s" "calls s' = calls s" "ran s' = ran s"
  shows "net_inv s'"
  using assms by (simp add: net_inv_def runs_def)

lemma accept_inv: "net_inv s \<Longrightarrow> net_inv (acceptReq req s)"
proof (cases "listening s")
  case True
  assume inv: "net_inv s"
  then have "runs s (length (calls s)) = []"
    by (auto simp: net_inv_def runs_def filter_empty_conv)
  with inv True show ?thesis
    by (auto simp: net_inv_def runs_def acceptReq_def nth_append req_ok_def less_Suc_eq)
qed (simp add: acceptReq_def)

lemma exec_handler_cases:
  assumes "exec_handler E C i s = Inr s'"
  obtains (idle) "s' = s"
  | (ran) a rs rs' o' r where "i < length (calls s)" "c_exec (calls s ! i) = Running a"
      "a < length (srv_heap s)" "rs = srv_heap s ! a"
      "Server_dispatch E C rs (c_req (calls s ! i)) (objs s) = Inr (rs', o', r)"
      "s' = s\<lparr>srv_heap := (srv_heap s)[a := rs'], objs := o',
              calls := (calls s)[i := (calls s ! i)\<lparr>c_exec := Returned a r\<rparr>],
              ran := ran s @ [(i, a, r)]\<rparr>"
  using assms
  by (auto simp: exec_handler_def go_nth_eq_Inr split: if_splits rpc_exec.splits)

lemma exec_inv:
  assumes "net_inv s" and "exec_handler E C i s = Inr s'"
  shows "net_inv s'"
  using assms(2)
proof (cases rule: exec_handler_cases)
  case idle
  with assms show ?thesis by simp
next
  case (ran a rs rs' o' r)
  have ok: "req_ok i (runs s i) (calls s ! i)"
    using net_inv_call [OF assms(1) ran(1)] .
  then have "runs s i = []" using ran(2) by (simp add: req_ok_def)
  moreover have "pc_ok (c_pc (calls s ! i)) (Returned a r)"
    using ok ran(2)
    by (cases "(c_pc (calls s ! i), Running a)" rule: pc_ok.cases)
      (auto simp: req_ok_def split: if_splits)
  ultimately show ?thesis
    using assms(1) ran by (auto simp: net_inv_def req_ok_def runs_def nth_list_update)
qed

lemma stage_servers [simp]:
  "servers (fst (processReq_finish rn r1 r2 r3 r4 c)) = servers rn"
  "servers (fst (processReq_fire rn c)) = servers rn"
  by (auto simp: processReq_finish_def processReq_fire_def addBytes_def Let_def
      split: rpc_pc.splits option.splits)

text \<open>
  A step works on one request by a stage of \<^verbatim>\<open>processReq\<close>, runs a handler, accepts a request
  or leaves the requests alone.
\<close>

inductive is_stage :: "(Network \<Rightarrow> net_call \<Rightarrow> Network \<times> net_call) \<Rightarrow> bool" where
  "is_stage (\<lambda>rn c. (rn, if c_pc c = Accepted then processReq_begin rn r c else c))"
| "is_stage (\<lambda>rn c. (rn, processReq_deliver r c))"
| "is_stage (\<lambda>rn c. (rn, processReq_receive c))"
| "is_stage (\<lambda>rn c. (rn, processReq_timeout rn c))"
| "is_stage (\<lambda>rn. processReq_finish rn r1 r2 r3 r4)"
| "is_stage processReq_fire"

lemma is_stage_ok: "is_stage f \<Longrightarrow> req_ok i rs c \<Longrightarrow> req_ok i rs (snd (f rn c))"
  by (induction rule: is_stage.induct) (auto intro: stage_ok)

lemma is_stage_servers: "is_stage f \<Longrightarrow> servers (fst (f rn c)) = servers rn"
  by (induction rule: is_stage.induct) auto

lemma net_step_cases:
  assumes "net_step E C e s = Inr s'"
  obtains (accept) req where "e = Send req" "s' = acceptReq req s"
  | (stage) i f where "s' = on_call i f s" "is_stage f"
  | (exec) i where "e = Exec i" "exec_handler E C i s = Inr s'"
  | (admin) "calls s' = calls s" "ran s' = ran s" "length (srv_heap s) \<le> length (srv_heap s')"
      "\<And>n a. servers (net s') n = Some a \<Longrightarrow> servers (net s) n \<noteq> Some a
         \<Longrightarrow> e = EvAddServer n a \<and> a < length (srv_heap s)"
proof (cases e)
  case (EvAddServer n a)
  with assms show thesis
    by (intro admin) (auto simp: on_net_def AddServer_def split: if_splits)
next
  case (EvDeleteServer n)
  with assms show thesis
    by (intro admin) (auto simp: on_net_def DeleteServer_def split: if_splits)
next
  case (EvMakeEnd n)
  with assms show thesis
    by (intro admin) (auto simp: MakeEnd_def Let_def split: if_splits)
qed (use assms accept stage exec admin in \<open>auto simp: on_net_def DeleteEnd_def Cleanup_def
      Connect_def Enable_def Reliable_def LongReordering_def LongDelays_def
      intro: is_stage.intros split: if_splits\<close>)

lemma net_step_inv:
  assumes "net_inv s" and "net_step E C e s = Inr s'"
  shows "net_inv s'"
  using assms(2)
proof (cases rule: net_step_cases)
  case accept
  with assms show ?thesis by (simp add: accept_inv)
next
  case (stage i f)
  with assms show ?thesis by (auto intro: on_call_inv is_stage_ok)
next
  case (exec i)
  with assms show ?thesis by (auto intro: exec_inv)
next
  case admin
  with assms show ?thesis by (auto intro: same_calls_inv)
qed

lemma net_run_inv: "net_inv s \<Longrightarrow> net_run E C es s = Inr s' \<Longrightarrow> net_inv s'"
  by (induction es arbitrary: s) (auto dest: net_step_inv)

lemma net_init_inv: "net_inv (net_init o0)"
  by (simp add: net_inv_def net_init_def)

lemma reachable_net_inv: "net_run E C es (net_init o0) = Inr s \<Longrightarrow> net_inv s"
  by (rule net_run_inv [OF net_init_inv])

text \<open>
  C19: A request whose caller gets a positive reply was executed exactly once, and the reply
  is the one that execution produced.
\<close>

theorem positive_reply_executed_once:
  assumes "net_run E C es (net_init o0) = Inr s"
    and "i < length (calls s)" and "c_pc (calls s ! i) = Answered m" and "rep_ok m"
  shows "\<exists>a. runs s i = [(i, a, m)]"
  using net_inv_call [OF reachable_net_inv [OF assms(1)] assms(2)] assms(3,4)
  by (auto simp: req_ok_def)


section \<open>A deleted server does not answer\<close>

text \<open>Requests that wait for server \<open>a\<close> under the name \<open>n\<close>, and what can become of them.\<close>

fun waits_for :: "string \<Rightarrow> nat \<Rightarrow> rpc_pc \<Rightarrow> bool" where
  "waits_for n a (Waiting m b _ _) = (m = n \<and> b = a)"
| "waits_for n a (Checking m b _ _ _) = (m = n \<and> b = a)"
| "waits_for n a _ = False"

definition silent :: "string \<Rightarrow> nat \<Rightarrow> rpc_pc \<Rightarrow> bool" where
  "silent n a pc = (waits_for n a pc \<or> (\<exists>m. pc = Answered m \<and> \<not> rep_ok m))"

lemma is_stage_silent:
  "is_stage f \<Longrightarrow> servers rn n \<noteq> Some a \<Longrightarrow> silent n a (c_pc c)
   \<Longrightarrow> silent n a (c_pc (snd (f rn c)))"
  by (induction rule: is_stage.induct)
    (auto simp: silent_def processReq_deliver_def processReq_receive_def
      processReq_timeout_def processReq_finish_def processReq_fire_def isServerDead_def Let_def
      split: rpc_pc.splits rpc_exec.splits option.splits)

lemma net_step_silent:
  assumes "net_step E C e s = Inr s'" and "e \<noteq> EvAddServer n a"
    and "servers (net s) n \<noteq> Some a" and "i < length (calls s)"
    and "silent n a (c_pc (calls s ! i))"
  shows "servers (net s') n \<noteq> Some a \<and> i < length (calls s') \<and> silent n a (c_pc (calls s' ! i))"
  using assms(1)
proof (cases rule: net_step_cases)
  case (accept req)
  with assms show ?thesis by (auto simp: acceptReq_def addBytes_def nth_append)
next
  case (stage j f)
  have "servers (net (on_call j f s)) = servers (net s)"
    by (simp add: on_call_net is_stage_servers [OF stage(2)])
  with assms stage show ?thesis by (auto simp: on_call_nth intro: is_stage_silent)
next
  case (exec j)
  from exec(2) show ?thesis
  proof (cases rule: exec_handler_cases)
    case idle
    with assms show ?thesis by simp
  next
    case ran
    with assms show ?thesis by (cases "i = j") (auto simp: nth_list_update)
  qed
next
  case admin
  with assms show ?thesis by metis
qed

lemma net_run_silent:
  assumes "net_run E C es s = Inr s'" and "EvAddServer n a \<notin> set es"
    and "servers (net s) n \<noteq> Some a" and "i < length (calls s)"
    and "silent n a (c_pc (calls s ! i))"
  shows "silent n a (c_pc (calls s' ! i))"
  using assms
proof (induction es arbitrary: s)
  case (Cons e es)
  then obtain s1 where step: "net_step E C e s = Inr s1" and run: "net_run E C es s1 = Inr s'"
    by auto
  from net_step_silent [OF step _ Cons.prems(3-5)] Cons.prems(2) run
  show ?case by (auto intro: Cons.IH)
qed simp

text \<open>
  C20: Once a server has been deleted from the network, no request that was waiting for it
  gets a positive reply, whatever its handler does, as long as the same server object is
  not added again under its name.
\<close>

theorem deleted_server_does_not_reply:
  assumes "net_run E C (EvDeleteServer n # es) s = Inr s'" and "EvAddServer n a \<notin> set es"
    and "i < length (calls s)" and "waits_for n a (c_pc (calls s ! i))"
    and "c_pc (calls s' ! i) = Answered m"
  shows "\<not> rep_ok m"
  using net_run_silent [of E C es "on_net (DeleteServer n) s" s' n a i] assms
  by (auto simp: on_net_def DeleteServer_def silent_def)


section \<open>Every call returns\<close>

text \<open>Pointers to servers point into the heap.\<close>

fun pc_addr :: "rpc_pc \<Rightarrow> nat \<Rightarrow> bool" where
  "pc_addr (Sleeping n a _ _ _) h = (a < h)"
| "pc_addr (Waiting n a _ _) h = (a < h)"
| "pc_addr (Checking n a _ _ _) h = (a < h)"
| "pc_addr _ h = True"

fun exec_addr :: "rpc_exec \<Rightarrow> nat \<Rightarrow> bool" where
  "exec_addr (Running a) h = (a < h)"
| "exec_addr _ h = True"

definition call_addr :: "nat \<Rightarrow> net_call \<Rightarrow> bool" where
  "call_addr h c = (pc_addr (c_pc c) h \<and> exec_addr (c_exec c) h)"

definition heap_inv :: "('v, 'o) rpc_sys \<Rightarrow> bool" where
  "heap_inv s = ((\<forall>n a. servers (net s) n = Some a \<longrightarrow> a < length (srv_heap s))
                 \<and> (\<forall>i < length (calls s). call_addr (length (srv_heap s)) (calls s ! i)))"

lemma call_addr_mono: "h \<le> h' \<Longrightarrow> call_addr h c \<Longrightarrow> call_addr h' c"
  by (cases "(c_pc c, h)" rule: pc_addr.cases; cases "(c_exec c, h)" rule: exec_addr.cases)
    (auto simp: call_addr_def)

lemma is_stage_addr:
  "is_stage f \<Longrightarrow> (\<And>n a. servers rn n = Some a \<Longrightarrow> a < h) \<Longrightarrow> call_addr h c
   \<Longrightarrow> call_addr h (snd (f rn c))"
  by (induction rule: is_stage.induct)
    (auto simp: call_addr_def processReq_begin_def readEndnameInfo_def processReq_deliver_def
      processReq_receive_def processReq_timeout_def processReq_finish_def processReq_fire_def
      Let_def split: rpc_pc.splits rpc_exec.splits option.splits bool.splits)

lemma net_step_heap_inv:
  assumes "heap_inv s" and "net_step E C e s = Inr s'"
  shows "heap_inv s'"
  using assms(2)
proof (cases rule: net_step_cases)
  case accept
  with assms show ?thesis
    by (auto simp: heap_inv_def acceptReq_def addBytes_def nth_append call_addr_def less_Suc_eq)
next
  case (stage j f)
  have "call_addr (length (srv_heap s)) (snd (f (net s) (calls s ! j)))" if "j < length (calls s)"
    using assms(1) that stage(2) by (auto simp: heap_inv_def intro: is_stage_addr)
  then show ?thesis
    using assms(1) stage is_stage_servers [OF stage(2)]
    by (auto simp: heap_inv_def on_call_nth on_call_net)
next
  case (exec j)
  from exec(2) show ?thesis
  proof (cases rule: exec_handler_cases)
    case idle
    with assms show ?thesis by simp
  next
    case ran
    with assms show ?thesis by (auto simp: heap_inv_def nth_list_update call_addr_def)
  qed
next
  case admin
  have "a < length (srv_heap s')" if "servers (net s') n = Some a" for n a
    using assms(1) admin(3,4) that unfolding heap_inv_def by (meson order_less_le_trans)
  with assms admin(1,3) show ?thesis by (auto simp: heap_inv_def intro: call_addr_mono)
qed

lemma net_run_heap_inv: "heap_inv s \<Longrightarrow> net_run E C es s = Inr s' \<Longrightarrow> heap_inv s'"
  by (induction es arbitrary: s) (auto dest: net_step_heap_inv)

lemma reachable_heap_inv: "net_run E C es (net_init o0) = Inr s \<Longrightarrow> heap_inv s"
  by (rule net_run_heap_inv [of "net_init o0"]) (simp_all add: heap_inv_def net_init_def MakeNetwork_def)

text \<open>
  The events of one request in the order of the code; an event that the request has behind
  it or never reaches changes nothing.  The numbers are arbitrary results of \<^verbatim>\<open>rand\<close>.
\<close>

definition schedule :: "nat \<Rightarrow> (nat \<Rightarrow> nat) \<Rightarrow> ('v, 'o) net_event list" where
  "schedule i r = [Begin i (r 0), Deliver i (r 1), Exec i, Receive i,
                   Finish i (r 2) (r 3) (r 4) (r 5), Fire i]"

fun pc_rank :: "rpc_pc \<Rightarrow> nat" where
  "pc_rank Accepted = 0"
| "pc_rank (Sleeping _ _ _ _ _) = 1"
| "pc_rank (Waiting _ _ _ _) = 2"
| "pc_rank (Checking _ _ _ _ _) = 3"
| "pc_rank (AfterFunc _ _ _) = 4"
| "pc_rank (Answered _) = 5"

lemma begin_rank:
  "1 \<le> pc_rank (c_pc (if c_pc c = Accepted then processReq_begin rn r c else c))"
  by (cases "c_pc c")
    (auto simp: processReq_begin_def split: option.splits bool.splits prod.splits)

lemma deliver_rank: "1 \<le> pc_rank (c_pc c) \<Longrightarrow> 2 \<le> pc_rank (c_pc (processReq_deliver r c))"
  by (cases "c_pc c") (auto simp: processReq_deliver_def)

lemma receive_rank:
  "2 \<le> pc_rank (c_pc c) \<Longrightarrow> pc_ok (c_pc c) (c_exec c) \<Longrightarrow> (\<And>a. c_exec c \<noteq> Running a)
   \<Longrightarrow> 3 \<le> pc_rank (c_pc (processReq_receive c))"
  by (cases "c_pc c"; cases "c_exec c") (auto simp: processReq_receive_def)

lemma finish_rank:
  "3 \<le> pc_rank (c_pc c) \<Longrightarrow> 4 \<le> pc_rank (c_pc (snd (processReq_finish rn r1 r2 r3 r4 c)))"
  by (cases "c_pc c") (auto simp: processReq_finish_def Let_def split: option.splits)

lemma fire_rank: "4 \<le> pc_rank (c_pc c) \<Longrightarrow> \<exists>m. c_pc (snd (processReq_fire rn c)) = Answered m"
  by (cases "c_pc c") (auto simp: processReq_fire_def)

lemma exec_handler_returns:
  assumes "heap_inv s" and "i < length (calls s)"
    and "\<And>rs. rs \<in> set (srv_heap s)
           \<Longrightarrow> returns (Server_dispatch E C rs (c_req (calls s ! i)) (objs s))"
  obtains s' where "exec_handler E C i s = Inr s'" "length (calls s') = length (calls s)"
    "c_pc (calls s' ! i) = c_pc (calls s ! i)" "\<And>a. c_exec (calls s' ! i) \<noteq> Running a"
proof (cases "c_exec (calls s ! i)")
  case (Running a)
  with assms(1,2) have a: "a < length (srv_heap s)"
    by (auto simp: heap_inv_def call_addr_def)
  then obtain rs' o' r where
    "Server_dispatch E C (srv_heap s ! a) (c_req (calls s ! i)) (objs s) = Inr (rs', o', r)"
    using assms(3) [of "srv_heap s ! a"] by (auto simp: returns_iff)
  with Running assms(2) a that show thesis
    by (simp add: exec_handler_def go_nth_Inr)
qed (use assms(2) that in \<open>simp_all add: exec_handler_def\<close>)

lemma stage_req [simp]:
  "c_req (processReq_begin rn r c) = c_req c"
  "c_req (processReq_deliver r c) = c_req c"
  by (auto simp: processReq_begin_def processReq_deliver_def
      split: rpc_pc.splits option.splits bool.splits prod.splits)

text \<open>
  C24: Whatever the network draws, a request in any reachable state is answered after its own
  steps, provided its handler returns: at most six of them.
\<close>

theorem call_returns:
  assumes "net_run E C es (net_init o0) = Inr s" and i: "i < length (calls s)"
    and "\<And>rs. rs \<in> set (srv_heap s)
           \<Longrightarrow> returns (Server_dispatch E C rs (c_req (calls s ! i)) (objs s))"
  shows "\<exists>s' m. net_run E C (schedule i r) s = Inr s' \<and> c_pc (calls s' ! i) = Answered m"
proof -
  define s1 where "s1 = on_call i
    (\<lambda>rn c. (rn, if c_pc c = Accepted then processReq_begin rn (r 0) c else c)) s"
  define s2 where "s2 = on_call i (\<lambda>rn c. (rn, processReq_deliver (r 1) c)) s1"
  have run2: "net_run E C [Begin i (r 0), Deliver i (r 1)] s = Inr s2"
    by (simp add: s1_def s2_def)
  have inv: "net_inv s2" "heap_inv s2"
    using net_run_inv [OF reachable_net_inv [OF assms(1)] run2]
      net_run_heap_inv [OF reachable_heap_inv [OF assms(1)] run2] by auto
  have rank2: "2 \<le> pc_rank (c_pc (calls s2 ! i))"
  proof -
    have "1 \<le> pc_rank (c_pc (calls s1 ! i))"
      using i begin_rank [of "calls s ! i"] by (simp add: s1_def on_call_nth)
    then show ?thesis using i by (simp add: s2_def s1_def on_call_nth deliver_rank)
  qed
  have same: "srv_heap s2 = srv_heap s" "objs s2 = objs s" "length (calls s2) = length (calls s)"
    "c_req (calls s2 ! i) = c_req (calls s ! i)"
    using i by (simp_all add: s1_def s2_def on_call_nth)
  obtain s3 where s3: "exec_handler E C i s2 = Inr s3" "length (calls s3) = length (calls s2)"
    "c_pc (calls s3 ! i) = c_pc (calls s2 ! i)" "\<And>a. c_exec (calls s3 ! i) \<noteq> Running a"
    by (rule exec_handler_returns [OF inv(2), of i E C]) (use i same assms(3) in auto)
  define s4 where "s4 = on_call i (\<lambda>rn c. (rn, processReq_receive c)) s3"
  define s5 where "s5 = on_call i (\<lambda>rn. processReq_finish rn (r 2) (r 3) (r 4) (r 5)) s4"
  have "pc_ok (c_pc (calls s3 ! i)) (c_exec (calls s3 ! i))"
    using net_inv_call [OF exec_inv [OF inv(1) s3(1)], of i] i s3(2) same(3)
    by (simp add: req_ok_def)
  then have "3 \<le> pc_rank (c_pc (calls s4 ! i))"
    using i s3 same(3) rank2 by (simp add: s4_def on_call_nth receive_rank)
  then have "4 \<le> pc_rank (c_pc (calls s5 ! i))"
    using i s3(2) same(3) by (simp add: s4_def s5_def on_call_nth finish_rank)
  then obtain m where "c_pc (calls (on_call i processReq_fire s5) ! i) = Answered m"
    using i s3(2) same(3) fire_rank by (auto simp: s4_def s5_def on_call_nth)
  then show ?thesis
    using s3(1) by (auto simp: schedule_def s1_def s2_def s4_def s5_def)
qed

section \<open>A reliable network delivers\<close>

text \<open>
  On a reliable network without reordering a request over an enabled and connected end
  is executed by the server and answered with the result of the handler.
\<close>

theorem reliable_call_executes:
  assumes "i < length (calls s)"
    and "calls s ! i = \<lparr>c_req = req, c_pc = Accepted, c_exec = NotStarted\<rparr>"
    and "reliable (net s)" and "\<not> longReordering (net s)"
    and "enabled (net s) (rq_endname req)" and "connections (net s) (rq_endname req) = Some n"
    and "servers (net s) n = Some a" and "a < length (srv_heap s)"
    and "Server_dispatch E C (srv_heap s ! a) req (objs s) = Inr (rs, o', m)"
  shows "\<exists>s'. net_run E C (schedule i r) s = Inr s' \<and> c_pc (calls s' ! i) = Answered m
              \<and> objs s' = o' \<and> srv_heap s' ! a = rs"
  using assms
  by (simp add: schedule_def on_call_def processReq_begin_def readEndnameInfo_def
      processReq_deliver_def exec_handler_def go_nth_Inr processReq_receive_def
      processReq_finish_def isServerDead_def processReq_fire_def addBytes_def)

section \<open>Handlers are called with the types they declare\<close>




section \<open>An example network\<close>

text \<open>
  A service with one handler that counts its calls and echoes its argument, with bytes as
  values, one server and one client end, and one request.
\<close>

definition demo_env :: tenv where "demo_env = [(''*Reply'', Ptr ''Reply'')]"

definition demo_codec :: "rpc_bytes codec" where
  "demo_codec = \<lparr>gob_enc = (\<lambda>v. (v, True)), gob_dec = (\<lambda>_ b. Some b), zero_of = (\<lambda>_. [])\<rparr>"

definition demo_method :: "(rpc_bytes, nat) rmethod" where
  "demo_method = \<lparr>mname = ''Incr'', PkgPath = [], ins = [''*T'', ''Args'', ''*Reply''],
                  NumOut = 0, func = (\<lambda>arg rep n. (n + 1, arg))\<rparr>"

definition demo_server :: "(rpc_bytes, nat) Server" where
  "demo_server = AddService \<lparr>svc_name = ''T'', methods = [''Incr'' \<mapsto> demo_method]\<rparr> MakeServer"

definition demo_req :: reqMsg where
  "demo_req = \<lparr>rq_endname = ''e'', svcMeth = ''T.Incr'', rq_args = [7]\<rparr>"

definition demo_setup :: "(rpc_bytes, nat) net_event list" where
  "demo_setup = [NewServer demo_server, EvAddServer ''s'' 0, EvMakeEnd ''e'',
                 EvConnect ''e'' ''s'', EvEnable ''e'' True, Send demo_req]"

definition demo_net :: Network where
  "demo_net = \<lparr>reliable = True, longDelays = False, longReordering = False,
     ends = [''e'' \<mapsto> \<lparr>ce_name = ''e'', callf = None\<rparr>], enabled = (\<lambda>_. False)(''e'' := True),
     servers = [''s'' \<mapsto> 0], connections = [''e'' \<mapsto> ''s''], net_done = False,
     count = 1, nbytes = 1\<rparr>"

definition demo_sys :: "(rpc_bytes, nat) rpc_sys" where
  "demo_sys = \<lparr>net = demo_net, srv_heap = [demo_server], objs = 0,
     calls = [\<lparr>c_req = demo_req, c_pc = Accepted, c_exec = NotStarted\<rparr>],
     listening = True, ran = []\<rparr>"

lemma demo_setup_run: "net_run demo_env demo_codec demo_setup (net_init 0) = Inr demo_sys"
  by (simp add: demo_setup_def net_init_def demo_sys_def demo_net_def MakeNetwork_def
      on_net_def AddServer_def MakeEnd_def Let_def Connect_def Enable_def acceptReq_def addBytes_def
      demo_req_def fun_upd_def)

lemma demo_dispatch:
  "Server_dispatch demo_env demo_codec demo_server demo_req n
   = Inr (demo_server\<lparr>srv_count := 1\<rparr>, n + 1, \<lparr>rep_ok = True, rep_reply = [7]\<rparr>)"
  by (simp add: Server_dispatch_def demo_req_def demo_server_def AddService_def MakeServer_def
      Let_def go_upto_Inr go_from_Inr Service_dispatch_def demo_method_def Unmarshall_def
      demo_codec_def type_Elem_def kind_of_def demo_env_def go_nth_Inr)



definition demo_done :: "(rpc_bytes, nat) rpc_sys" where
  "demo_done = \<lparr>net = demo_net\<lparr>nbytes := 2\<rparr>, srv_heap = [demo_server\<lparr>srv_count := 1\<rparr>], objs = 1,
     calls = [\<lparr>c_req = demo_req, c_pc = Answered \<lparr>rep_ok = True, rep_reply = [7]\<rparr>,
               c_exec = Taken 0 \<lparr>rep_ok = True, rep_reply = [7]\<rparr>\<rparr>],
     listening = True, ran = [(0, 0, \<lparr>rep_ok = True, rep_reply = [7]\<rparr>)]\<rparr>"

lemmas stage_defs = on_call_def processReq_begin_def readEndnameInfo_def processReq_deliver_def
  exec_handler_def processReq_receive_def processReq_timeout_def processReq_finish_def
  isServerDead_def processReq_fire_def addBytes_def

lemma net_run_append:
  "net_run E C (es @ fs) s = bind_go (net_run E C es s) (net_run E C fs)"
  by (induction es arbitrary: s) (auto simp: bind_go_def split: sum.splits)

lemma demo_schedule_run:
  "net_run demo_env demo_codec (schedule 0 (\<lambda>_. 0)) demo_sys = Inr demo_done"
  by (simp add: schedule_def stage_defs demo_sys_def demo_net_def demo_done_def demo_req_def
      demo_dispatch [unfolded demo_req_def] go_nth_Inr)

theorem positive_reply_executed_once_witness:
  "net_run demo_env demo_codec (demo_setup @ schedule 0 (\<lambda>_. 0)) (net_init 0) = Inr demo_done
   \<and> (\<exists>a. runs demo_done 0 = [(0, a, \<lparr>rep_ok = True, rep_reply = [7]\<rparr>)])"
proof -
  have run: "net_run demo_env demo_codec (demo_setup @ schedule 0 (\<lambda>_. 0)) (net_init 0)
             = Inr demo_done"
    by (simp add: net_run_append demo_setup_run demo_schedule_run)
  from positive_reply_executed_once [OF run, of 0 "\<lparr>rep_ok = True, rep_reply = [7]\<rparr>"] run
  show ?thesis by (simp add: demo_done_def)
qed

theorem call_returns_witness:
  "\<exists>s' m. net_run demo_env demo_codec (schedule 0 (\<lambda>k. k)) demo_sys = Inr s'
          \<and> c_pc (calls s' ! 0) = Answered m"
  by (rule call_returns [OF demo_setup_run])
    (auto simp: demo_sys_def demo_dispatch)

theorem reliable_call_executes_witness:
  "\<exists>s'. net_run demo_env demo_codec (schedule 0 (\<lambda>k. k)) demo_sys = Inr s'
        \<and> c_pc (calls s' ! 0) = Answered \<lparr>rep_ok = True, rep_reply = [7]\<rparr> \<and> objs s' = 1
        \<and> srv_heap s' ! 0 = demo_server\<lparr>srv_count := 1\<rparr>"
  by (rule reliable_call_executes [where req = demo_req and n = "''s''"])
    (simp_all add: demo_sys_def demo_net_def demo_req_def demo_dispatch [unfolded demo_req_def])

text \<open>The server is deleted while its handler runs: the caller gets a negative reply.\<close>

definition demo_waiting :: "(rpc_bytes, nat) rpc_sys" where
  "demo_waiting = demo_sys\<lparr>calls := [\<lparr>c_req = demo_req, c_pc = Waiting ''s'' 0 True False,
                                     c_exec = Running 0\<rparr>]\<rparr>"

definition demo_killed :: "(rpc_bytes, nat) rpc_sys" where
  "demo_killed = demo_sys\<lparr>net := demo_net\<lparr>servers := Map.empty\<rparr>,
     srv_heap := [demo_server\<lparr>srv_count := 1\<rparr>], objs := 1,
     calls := [\<lparr>c_req = demo_req, c_pc = Answered noReply,
                c_exec = Taken 0 \<lparr>rep_ok = True, rep_reply = [7]\<rparr>\<rparr>],
     ran := [(0, 0, \<lparr>rep_ok = True, rep_reply = [7]\<rparr>)]\<rparr>"

theorem deleted_server_does_not_reply_witness:
  "net_run demo_env demo_codec [Begin 0 0, Deliver 0 0] demo_sys = Inr demo_waiting
   \<and> net_run demo_env demo_codec
       [EvDeleteServer ''s'', Exec 0, Receive 0, Finish 0 0 0 0 0] demo_waiting = Inr demo_killed
   \<and> \<not> rep_ok noReply"
proof -
  have wait: "net_run demo_env demo_codec [Begin 0 0, Deliver 0 0] demo_sys = Inr demo_waiting"
    by (simp add: stage_defs demo_sys_def demo_net_def demo_waiting_def demo_req_def)
  have run: "net_run demo_env demo_codec
      [EvDeleteServer ''s'', Exec 0, Receive 0, Finish 0 0 0 0 0] demo_waiting = Inr demo_killed"
    by (simp add: stage_defs demo_sys_def demo_net_def demo_waiting_def demo_killed_def
        demo_req_def on_net_def DeleteServer_def demo_dispatch [unfolded demo_req_def] go_nth_Inr)
  have "\<not> rep_ok noReply"
    by (rule deleted_server_does_not_reply [OF run, of 0 0])
      (simp_all add: demo_waiting_def demo_killed_def)
  with wait run show ?thesis by blast
qed

end
