(* ===== verification/SockRpc.thy ===== *)
theory SockRpc
  imports LabRpcRuns
begin

text \<open>
  Calls between processes (\<^verbatim>\<open>src/src/tester1/sockrpc\<close>, and the forwarding of
  \<^verbatim>\<open>src/src/tester1/daemonsrv.go\<close>, \<^verbatim>\<open>daemonclnt.go\<close> and \<^verbatim>\<open>testsrv.go\<close>): a request is wrapped with
  the name of its method, sent through the demultiplexer, and dispatched by a \<^verbatim>\<open>labrpc\<close>
  server on the other side.  What the demultiplexer does with a request is a function
  \<open>send\<close>: an error of the connection, or the reply and its success.
\<close>

section \<open>Client and server of a socket\<close>

record RPCArgs =
  ra_Method :: string
  ra_Args :: rpc_bytes

type_synonym 'o sender = "rpc_bytes \<Rightarrow> 'o \<Rightarrow> ('o \<times> (rpc_bytes \<times> bool) option) go"

definition SockName :: "string \<Rightarrow> string" where
  "SockName endName = ''/tmp/6.5840-'' @ endName"

definition RPCClnt_RPC ::
  "RPCArgs codec \<Rightarrow> 'o sender \<Rightarrow> string \<Rightarrow> rpc_bytes \<Rightarrow> 'o \<Rightarrow> ('o \<times> rpc_bytes \<times> bool) go" where
  "RPCClnt_RPC CA send meth args ob =
     bind_go (Marshall CA \<lparr>ra_Method = meth, ra_Args = args\<rparr>) (\<lambda>b.
     bind_go (send b ob) (\<lambda>(ob', r). case r of
         None \<Rightarrow> Inr (ob', [], False) | Some (rep, fine) \<Rightarrow> Inr (ob', rep, fine)))"

text \<open>The reply variable keeps its value if the call fails.\<close>

definition RPCMarshall ::
  "RPCArgs codec \<Rightarrow> 'v codec \<Rightarrow> 'o sender \<Rightarrow> string \<Rightarrow> 'v \<Rightarrow> tname \<Rightarrow> 'v \<Rightarrow> 'o \<Rightarrow> ('o \<times> 'v \<times> bool) go" where
  "RPCMarshall CA C send meth args replyType reply ob =
     bind_go (Marshall C args) (\<lambda>a.
     bind_go (RPCClnt_RPC CA send meth a ob) (\<lambda>(ob', rep, fine).
       if \<not> fine then Inr (ob', reply, fine)
       else bind_go (Unmarshall C replyType rep) (\<lambda>v. Inr (ob', v, fine))))"


text \<open>\<^verbatim>\<open>dial\<close>: at most a hundred attempts; the list tells which of them fail.\<close>

definition MAXRETRY :: nat where
  "MAXRETRY = 100"

fun dial_loop :: "nat \<Rightarrow> bool list \<Rightarrow> nat option" where
  "dial_loop i [] = None"
| "dial_loop i (connects # rest) = (if connects then Some i else dial_loop (i + 1) rest)"

definition dial :: "(nat \<Rightarrow> bool) \<Rightarrow> nat option" where
  "dial connects = dial_loop 0 (map connects [0..<MAXRETRY])"

section \<open>Forwarding\<close>

record ForwardArgs =
  fa_Method :: string
  fa_End :: string
  fa_Args :: rpc_bytes

text \<open>
  \<^verbatim>\<open>DaemonSrv.forward\<close> hands the call of a server process to the tester; \<^verbatim>\<open>TesterRPC.Forward\<close>
  looks up the end and enters the request into the network, and answers with what the
  network returns.
\<close>

definition DaemonSrv_forward ::
  "(ForwardArgs \<Rightarrow> 'o \<Rightarrow> ('o \<times> (rpc_bytes \<times> bool) \<times> bool) go) \<Rightarrow> string \<Rightarrow> string \<Rightarrow> rpc_bytes \<Rightarrow> 'o
   \<Rightarrow> ('o \<times> rpc_bytes \<times> bool) go" where
  "DaemonSrv_forward call end meth b ob =
     bind_go (call \<lparr>fa_Method = meth, fa_End = end, fa_Args = b\<rparr> ob) (\<lambda>(ob', (rep, fine), arrived).
       if \<not> arrived then Inr (ob', [], arrived) else Inr (ob', rep, fine))"

definition TesterRPC_Forward :: "Network \<Rightarrow> ForwardArgs \<Rightarrow> reqMsg go" where
  "TesterRPC_Forward nw args =
     bind_go (LookupEnd (fa_End args) nw) (\<lambda>e. Inr (Forward_request e (fa_Method args) (fa_Args args)))"

section \<open>A call over a socket\<close>



text \<open>A codec that works on a value: it is encoded, and decoded into a variable of its type.\<close>

definition carries :: "'v codec \<Rightarrow> tname \<Rightarrow> 'v \<Rightarrow> bool" where
  "carries C t v = (snd (gob_enc C v) \<and> gob_dec C t (fst (gob_enc C v)) = Some v)"

lemma carries_roundtrip:
  "carries C t v \<Longrightarrow> \<exists>b. Marshall C v = Inr b \<and> gob_enc C v = (b, True) \<and> Unmarshall C t b = Inr v"
  by (cases "gob_enc C v") (simp add: carries_def Marshall_def Unmarshall_def)



text \<open>If the connection is broken, the call reports failure and leaves the reply alone.\<close>

lemma broken_socket_call:
  assumes "carries CA ''RPCArgs'' \<lparr>ra_Method = meth, ra_Args = fst (gob_enc C args)\<rparr>" "carries C argType args"
    and "\<And>b. send b ob = Inr (ob', None)"
  shows "RPCMarshall CA C send meth args replyType reply ob = Inr (ob', reply, False)"
  using carries_roundtrip [OF assms(1)] carries_roundtrip [OF assms(2)] assms(3)
  by (auto simp: RPCMarshall_def RPCClnt_RPC_def)

text \<open>\<^verbatim>\<open>dial\<close> gives up exactly if all its attempts fail.\<close>

lemma dial_loop_None: "dial_loop i xs = None \<longleftrightarrow> True \<notin> set xs"
  by (induction i xs rule: dial_loop.induct) auto

lemma dial_gives_up: "dial connects = None \<longleftrightarrow> (\<forall>k < MAXRETRY. \<not> connects k)"
  by (auto simp: dial_def dial_loop_None image_iff)

section \<open>An instance\<close>




end
