(* ===== verification/TestNet.thy ===== *)
theory TestNet
  imports LabRpc Persistence
begin

text \<open>
  How a test builds its world on the simulated network: groups of servers
  (\<^verbatim>\<open>src/src/tester1/group.go\<close>, \<^verbatim>\<open>src/src/tester1/srv.go\<close>), the control calls to the process
  of a server (\<^verbatim>\<open>daemonclnt.go\<close>, \<^verbatim>\<open>daemonsrv.go\<close>) and the ends of the clerks
  (\<^verbatim>\<open>src/src/tester1/clnts.go\<close>).

  The network is threaded through the operations.  The names drawn by \<^verbatim>\<open>Randstring\<close> are
  inputs.  A process is the persister it runs on; whether it starts is an input too.
\<close>

section \<open>The process of a server\<close>

type_synonym Tgid = int

definition ServerName :: "Tgid \<Rightarrow> int \<Rightarrow> string" where
  "ServerName gid i = ''server-'' @ Itoa gid @ ''-'' @ Itoa i"

record ('r, 's) InitArgs =
  ia_Raftstate :: "'r list"
  ia_Snapshot :: "'s list"

definition DaemonSrv_Init :: "('r, 's) InitArgs \<Rightarrow> ('r, 's) Persister" where
  "DaemonSrv_Init args = Save (ia_Raftstate args) (ia_Snapshot args) MakePersister"

definition DaemonClnt_init :: "('r, 's) Persister \<Rightarrow> ('r, 's) Persister" where
  "DaemonClnt_init persister =
     DaemonSrv_Init \<lparr>ia_Raftstate = ReadRaftState persister, ia_Snapshot = ReadSnapshot persister\<rparr>"

definition DaemonSrv_CheckpointPersister :: "('r, 's) Persister \<Rightarrow> 'r list \<times> 's list" where
  "DaemonSrv_CheckpointPersister persister =
     (let p = Checkpoint persister in (ReadRaftState p, ReadSnapshot p))"

definition checkpointPersister :: "('r, 's) Persister \<Rightarrow> ('r, 's) Persister" where
  "checkpointPersister persister =
     (case DaemonSrv_CheckpointPersister persister of (r, s) \<Rightarrow> Save r s MakePersister)"

definition DaemonSrv_StateSize ::
  "('r list \<Rightarrow> int) \<Rightarrow> ('s list \<Rightarrow> int) \<Rightarrow> ('r, 's) Persister \<Rightarrow> int \<times> int" where
  "DaemonSrv_StateSize nr ns persister = (RaftStateSize nr persister, SnapshotSize ns persister)"

section \<open>One server of a group\<close>

text \<open>\<open>dc\<close> is the running process, absent before the first start and after a shutdown.\<close>

record ('r, 's) tester_Server =
  saved :: "('r, 's) Persister option"
  endNames :: "string list"
  clntEnds :: "ClientEnd list"
  dc :: "('r, 's) Persister option"

definition make_one_end ::
  "(nat \<Rightarrow> string) \<Rightarrow> Tgid \<Rightarrow> nat \<Rightarrow> Network \<times> ClientEnd list \<Rightarrow> (Network \<times> ClientEnd list) go" where
  "make_one_end rand gid j st = bind_go (MakeEnd (rand j) (fst st)) (\<lambda>(nw, ce).
     Inr (Connect (rand j) (ServerName gid (int j)) nw, snd st @ [ce]))"

definition makeServer ::
  "(nat \<Rightarrow> string) \<Rightarrow> Tgid \<Rightarrow> nat \<Rightarrow> Network \<Rightarrow> (Network \<times> ('r, 's) tester_Server) go" where
  "makeServer rand gid nsrv nw =
     bind_go (fold_go (make_one_end rand gid) [0..<nsrv] (nw, [])) (\<lambda>(nw, ces).
       Inr (nw, \<lparr>saved = None, endNames = map rand [0..<nsrv], clntEnds = ces, dc = None\<rparr>))"

definition Server_startServer ::
  "(nat \<Rightarrow> string) \<Rightarrow> Tgid \<Rightarrow> ('r, 's) tester_Server \<Rightarrow> Network
   \<Rightarrow> (Network \<times> ('r, 's) tester_Server) go" where
  "Server_startServer rand gid s nw =
     bind_go (makeServer rand gid (length (endNames s)) nw) (\<lambda>(nw, srv).
       Inr (nw, srv\<lparr>saved := (case saved s of None \<Rightarrow> Some MakePersister | Some p \<Rightarrow> Some p)\<rparr>))"

definition Server_shutdownServer :: "('r, 's) tester_Server \<Rightarrow> ('r, 's) tester_Server" where
  "Server_shutdownServer s = (case dc s of
       None \<Rightarrow> s | Some process \<Rightarrow> s\<lparr>saved := Some (checkpointPersister process), dc := None\<rparr>)"

definition Server_raftSize ::
  "('r list \<Rightarrow> int) \<Rightarrow> ('s list \<Rightarrow> int) \<Rightarrow> ('r, 's) tester_Server \<Rightarrow> int go" where
  "Server_raftSize nr ns s = (case dc s of
       Some process \<Rightarrow> Inr (fst (DaemonSrv_StateSize nr ns process))
     | None \<Rightarrow> (case saved s of
           None \<Rightarrow> Inl (Panic ''nil pointer dereference'') | Some p \<Rightarrow> Inr (RaftStateSize nr p)))"

definition Server_snapshotSize ::
  "('r list \<Rightarrow> int) \<Rightarrow> ('s list \<Rightarrow> int) \<Rightarrow> ('r, 's) tester_Server \<Rightarrow> int go" where
  "Server_snapshotSize nr ns s = (case dc s of
       Some process \<Rightarrow> Inr (snd (DaemonSrv_StateSize nr ns process))
     | None \<Rightarrow> (case saved s of
           None \<Rightarrow> Inl (Panic ''nil pointer dereference'') | Some p \<Rightarrow> Inr (SnapshotSize ns p)))"

section \<open>A group of servers\<close>

record ('r, 's) ServerGrp =
  srvs :: "('r, 's) tester_Server list"
  servernames :: "string list"
  grp_gid :: Tgid
  connected :: "bool list"

definition make_one_server ::
  "(nat \<Rightarrow> nat \<Rightarrow> string) \<Rightarrow> Tgid \<Rightarrow> nat \<Rightarrow> nat \<Rightarrow> Network \<times> ('r, 's) tester_Server list
   \<Rightarrow> (Network \<times> ('r, 's) tester_Server list) go" where
  "make_one_server rand gid n i st =
     bind_go (makeServer (rand i) gid n (fst st)) (\<lambda>(nw, s). Inr (nw, snd st @ [s]))"

definition makeSrvGrp ::
  "(nat \<Rightarrow> nat \<Rightarrow> string) \<Rightarrow> Tgid \<Rightarrow> nat \<Rightarrow> Network \<Rightarrow> (Network \<times> ('r, 's) ServerGrp) go" where
  "makeSrvGrp rand gid n nw =
     bind_go (fold_go (make_one_server rand gid n) [0..<n] (nw, [])) (\<lambda>(nw, ss).
       Inr (nw, \<lparr>srvs = ss, servernames = map (\<lambda>i. ServerName gid (int i)) [0..<n],
                  grp_gid = gid, connected = replicate n False\<rparr>))"

definition grp_all :: "('r, 's) ServerGrp \<Rightarrow> int list" where
  "grp_all sg = map int [0..<length (srvs sg)]"

definition SrvName :: "int \<Rightarrow> ('r, 's) ServerGrp \<Rightarrow> string go" where
  "SrvName i sg = go_nth (servernames sg) i"

definition SrvNamesTo :: "int list \<Rightarrow> ('r, 's) ServerGrp \<Rightarrow> string list go" where
  "SrvNamesTo to sg = fold_go (\<lambda>i ns. bind_go (SrvName i sg) (\<lambda>n. Inr (ns @ [n]))) to []"

definition IsConnected :: "int \<Rightarrow> ('r, 's) ServerGrp \<Rightarrow> bool go" where
  "IsConnected i sg = go_nth (connected sg) i"

text \<open>
  The ends of a server come from \<^verbatim>\<open>makeServer\<close>, so the tests of \<^verbatim>\<open>endNames\<close> for nil in
  \<^verbatim>\<open>disconnect\<close> succeed.
\<close>

definition Server_connect ::
  "('r, 's) ServerGrp \<Rightarrow> int list \<Rightarrow> ('r, 's) tester_Server \<Rightarrow> Network \<Rightarrow> Network go" where
  "Server_connect sg to s =
     fold_go (\<lambda>j nw. bind_go (IsConnected j sg) (\<lambda>c.
       if c then bind_go (go_nth (endNames s) j) (\<lambda>e. Inr (Enable e True nw)) else Inr nw)) to"

definition Server_disconnect ::
  "int list \<Rightarrow> ('r, 's) tester_Server \<Rightarrow> Network \<Rightarrow> Network go" where
  "Server_disconnect frm s =
     fold_go (\<lambda>j nw. bind_go (go_nth (endNames s) j) (\<lambda>e. Inr (Enable e False nw))) frm"

type_synonym ('r, 's) grp_state = "Network \<times> ('r, 's) ServerGrp"

definition grp_connect :: "int \<Rightarrow> int list \<Rightarrow> ('r, 's) grp_state \<Rightarrow> ('r, 's) grp_state go" where
  "grp_connect i to st =
     bind_go (go_update (connected (snd st)) i True) (\<lambda>cs.
     let sg = (snd st)\<lparr>connected := cs\<rparr> in
     bind_go (go_nth (srvs sg) i) (\<lambda>s.
     bind_go (Server_connect sg to s (fst st)) (\<lambda>nw.
     bind_go (fold_go (\<lambda>j nw. bind_go (IsConnected j sg) (\<lambda>c.
         if c then bind_go (go_nth (srvs sg) j) (\<lambda>t. bind_go (go_nth (endNames t) i) (\<lambda>e.
                Inr (Enable e True nw)))
         else Inr nw)) to nw) (\<lambda>nw. Inr (nw, sg)))))"

definition grp_disconnect :: "int \<Rightarrow> int list \<Rightarrow> ('r, 's) grp_state \<Rightarrow> ('r, 's) grp_state go" where
  "grp_disconnect i frm st =
     bind_go (go_update (connected (snd st)) i False) (\<lambda>cs.
     let sg = (snd st)\<lparr>connected := cs\<rparr> in
     bind_go (go_nth (srvs sg) i) (\<lambda>s.
     bind_go (Server_disconnect frm s (fst st)) (\<lambda>nw.
     bind_go (fold_go (\<lambda>j nw. bind_go (go_nth (srvs sg) j) (\<lambda>t.
         bind_go (go_nth (endNames t) i) (\<lambda>e. Inr (Enable e False nw)))) frm nw) (\<lambda>nw.
       Inr (nw, sg)))))"

definition ConnectOne :: "int \<Rightarrow> ('r, 's) grp_state \<Rightarrow> ('r, 's) grp_state go" where
  "ConnectOne i st = grp_connect i (grp_all (snd st)) st"

definition grp_ConnectAll :: "('r, 's) grp_state \<Rightarrow> ('r, 's) grp_state go" where
  "grp_ConnectAll st = fold_go ConnectOne (grp_all (snd st)) st"

definition grp_DisconnectAll :: "int \<Rightarrow> ('r, 's) grp_state \<Rightarrow> ('r, 's) grp_state go" where
  "grp_DisconnectAll i st = grp_disconnect i (grp_all (snd st)) st"

text \<open>
  Starting a server: \<open>a\<close> is the address of the \<^verbatim>\<open>labrpc.Server\<close> made for it, whose dispatch
  function forwards to the process.  If the process does not start, the server keeps its
  new ends and the saved state, and is not on the network.
\<close>

definition StartServer ::
  "(nat \<Rightarrow> string) \<Rightarrow> bool \<Rightarrow> nat \<Rightarrow> int \<Rightarrow> ('r, 's) grp_state \<Rightarrow> ('r, 's) grp_state go" where
  "StartServer rand starts a i st =
     bind_go (go_nth (srvs (snd st)) i) (\<lambda>s.
     bind_go (Server_startServer rand (grp_gid (snd st)) s (fst st)) (\<lambda>(nw, srv).
     let put = (\<lambda>srv. (snd st)\<lparr>srvs := (srvs (snd st))[nat i := srv]\<rparr>) in
     if starts
     then (case saved srv of
         None \<Rightarrow> Inl (Panic ''nil pointer dereference'')
       | Some p \<Rightarrow> Inr (AddServer (ServerName (grp_gid (snd st)) i) a nw,
                      put (srv\<lparr>dc := Some (DaemonClnt_init p)\<rparr>)))
     else Inr (nw, put srv)))"

definition ShutdownServer :: "int \<Rightarrow> ('r, 's) grp_state \<Rightarrow> ('r, 's) grp_state go" where
  "ShutdownServer i st =
     bind_go (grp_disconnect i (grp_all (snd st)) st) (\<lambda>(nw, sg).
     bind_go (go_nth (srvs sg) i) (\<lambda>s.
       Inr (DeleteServer (ServerName (grp_gid sg) i) nw,
            sg\<lparr>srvs := (srvs sg)[nat i := Server_shutdownServer s]\<rparr>)))"

definition grp_Kill :: "int list \<Rightarrow> ('r, 's) grp_state \<Rightarrow> ('r, 's) grp_state go" where
  "grp_Kill ss = fold_go ShutdownServer ss"

definition grp_Shutdown :: "('r, 's) grp_state \<Rightarrow> ('r, 's) grp_state go" where
  "grp_Shutdown st = grp_Kill (grp_all (snd st)) st"

text \<open>The largest state of a server of the group; the sizes are not negative.\<close>

definition grp_RaftSize ::
  "('r list \<Rightarrow> int) \<Rightarrow> ('s list \<Rightarrow> int) \<Rightarrow> ('r, 's) ServerGrp \<Rightarrow> int go" where
  "grp_RaftSize nr ns sg =
     fold_go (\<lambda>s m. bind_go (Server_raftSize nr ns s) (\<lambda>n. Inr (if n > m then n else m))) (srvs sg) 0"

definition grp_SnapshotSize ::
  "('r list \<Rightarrow> int) \<Rightarrow> ('s list \<Rightarrow> int) \<Rightarrow> ('r, 's) ServerGrp \<Rightarrow> int go" where
  "grp_SnapshotSize nr ns sg =
     fold_go (\<lambda>s m. bind_go (Server_snapshotSize nr ns s) (\<lambda>n. Inr (if n > m then n else m))) (srvs sg) 0"

subsection \<open>Partitions\<close>

text \<open>The loop of \<^verbatim>\<open>MakePartition\<close> and the assignment of the leader to the last place.\<close>

definition place :: "int \<Rightarrow> int \<Rightarrow> int list \<times> int list \<times> int \<Rightarrow> (int list \<times> int list \<times> int) go" where
  "place l i st = (case st of (p1, p2, j) \<Rightarrow>
     if i = l then Inr st
     else if j < int (length p1)
     then bind_go (go_update p1 j i) (\<lambda>p1. Inr (p1, p2, j + 1))
     else bind_go (go_update p2 (j - int (length p1)) i) (\<lambda>p2. Inr (p1, p2, j + 1)))"

definition MakePartition :: "int \<Rightarrow> ('r, 's) ServerGrp \<Rightarrow> (int list \<times> int list) go" where
  "MakePartition l sg =
     (let n = length (srvs sg) in
      bind_go (fold_go (place l) (map int [0..<n]) (replicate (n div 2 + 1) 0, replicate (n div 2) 0, 0))
        (\<lambda>(p1, p2, j). bind_go (go_update p2 (int (length p2) - 1) l) (\<lambda>p2. Inr (p1, p2))))"

definition regroup :: "int list \<Rightarrow> int list \<Rightarrow> int \<Rightarrow> ('r, 's) grp_state \<Rightarrow> ('r, 's) grp_state go" where
  "regroup own other i st = bind_go (grp_disconnect i other st) (grp_connect i own)"

definition Partition :: "int list \<Rightarrow> int list \<Rightarrow> ('r, 's) grp_state \<Rightarrow> ('r, 's) grp_state go" where
  "Partition p1 p2 st = bind_go (fold_go (regroup p1 p2) p1 st) (fold_go (regroup p2 p1) p2)"

section \<open>The ends of a clerk\<close>

text \<open>
  The map from servers to ends, in the order in which Go visits it; the end itself is in
  the network under its name.  \<open>cl_srvs\<close> is \<open>None\<close> for a nil slice: every server is allowed.
\<close>

record Clnt =
  cl_ends :: "(string \<times> string) list"
  cl_srvs :: "string list option"

definition makeClntTo :: "string list option \<Rightarrow> Clnt" where
  "makeClntTo ss = \<lparr>cl_ends = [], cl_srvs = ss\<rparr>"

definition allowedL :: "string \<Rightarrow> Clnt \<Rightarrow> bool" where
  "allowedL server clnt = (case cl_srvs clnt of None \<Rightarrow> True | Some ss \<Rightarrow> server \<in> set ss)"

type_synonym clnt_state = "Network \<times> Clnt"

definition Clnt_makeEnd :: "string \<Rightarrow> string \<Rightarrow> clnt_state \<Rightarrow> (clnt_state \<times> string) go" where
  "Clnt_makeEnd rand server st = (case st of (nw, clnt) \<Rightarrow>
     (case map_of (cl_ends clnt) server of
        Some e \<Rightarrow> Inr (st, e)
      | None \<Rightarrow> bind_go (MakeEnd rand nw) (\<lambda>(nw, ce).
          Inr ((Enable rand (allowedL server clnt) (Connect rand server nw),
                clnt\<lparr>cl_ends := cl_ends clnt @ [(server, rand)]\<rparr>), rand))))"

fun enable_ends :: "bool \<Rightarrow> string list \<Rightarrow> Network \<Rightarrow> Network" where
  "enable_ends b [] nw = nw"
| "enable_ends b (e # es) nw = enable_ends b es (Enable e b nw)"

definition Clnt_ConnectAll :: "clnt_state \<Rightarrow> clnt_state" where
  "Clnt_ConnectAll st = (case st of (nw, clnt) \<Rightarrow>
     (enable_ends True (map snd (cl_ends clnt)) nw, clnt\<lparr>cl_srvs := None\<rparr>))"

definition Clnt_ConnectTo :: "string list \<Rightarrow> clnt_state \<Rightarrow> clnt_state" where
  "Clnt_ConnectTo ss st = (case st of (nw, clnt) \<Rightarrow>
     let clnt = clnt\<lparr>cl_srvs := Some ss\<rparr> in
     (enable_ends True (map snd (filter (\<lambda>(srv, e). allowedL srv clnt) (cl_ends clnt))) nw, clnt))"

definition Clnt_Disconnect :: "string \<Rightarrow> clnt_state \<Rightarrow> clnt_state" where
  "Clnt_Disconnect srv st = (case st of (nw, clnt) \<Rightarrow>
     (enable_ends False (map snd (filter (\<lambda>(s, e). s = srv) (cl_ends clnt))) nw, clnt))"

definition Clnt_DisconnectAll :: "clnt_state \<Rightarrow> clnt_state" where
  "Clnt_DisconnectAll st = (case st of (nw, clnt) \<Rightarrow>
     (enable_ends False (map snd (cl_ends clnt)) nw, clnt\<lparr>cl_srvs := Some []\<rparr>))"

definition Clnt_remove :: "Clnt \<Rightarrow> Network \<Rightarrow> Network go" where
  "Clnt_remove clnt nw = fold_go DeleteEnd (map snd (cl_ends clnt)) nw"

text \<open>
  All clerks of a test: clients are addressed by their place in a heap, and \<open>clerks\<close> is the
  set of addresses in the order in which Go visits it, \<open>None\<close> after the cleanup.
\<close>

record Clnts =
  clnt_heap :: "Clnt list"
  clerks :: "nat list option"

definition makeClnts :: Clnts where
  "makeClnts = \<lparr>clnt_heap = [], clerks = Some []\<rparr>"

definition Clnts_makeEnd :: "string \<Rightarrow> string \<Rightarrow> Network \<Rightarrow> (Network \<times> ClientEnd) go" where
  "Clnts_makeEnd rand servername nw = bind_go (MakeEnd rand nw) (\<lambda>(nw, ce).
     Inr (Enable rand True (Connect rand servername nw), ce))"

definition MakeClientTo :: "string list option \<Rightarrow> Clnts \<Rightarrow> (Clnts \<times> nat) go" where
  "MakeClientTo ss cs =
     (let a = length (clnt_heap cs); cs = cs\<lparr>clnt_heap := clnt_heap cs @ [makeClntTo ss]\<rparr> in
      case clerks cs of
        None \<Rightarrow> Inl (Panic ''assignment to entry in nil map'')
      | Some as \<Rightarrow> Inr (cs\<lparr>clerks := Some (as @ [a])\<rparr>, a))"

definition Clnts_cleanup :: "Network \<times> Clnts \<Rightarrow> (Network \<times> Clnts) go" where
  "Clnts_cleanup st = (case st of (nw, cs) \<Rightarrow>
     bind_go (fold_go (\<lambda>a nw. bind_go (go_nth (clnt_heap cs) (int a)) (\<lambda>c. Clnt_remove c nw))
                (case clerks cs of None \<Rightarrow> [] | Some as \<Rightarrow> as) nw) (\<lambda>nw.
       Inr (nw, cs\<lparr>clerks := None\<rparr>)))"

definition DeleteClient :: "nat \<Rightarrow> Network \<times> Clnts \<Rightarrow> (Network \<times> Clnts) go" where
  "DeleteClient a st = (case st of (nw, cs) \<Rightarrow>
     (case clerks cs of
        None \<Rightarrow> Inr st
      | Some as \<Rightarrow>
          if a \<in> set as
          then bind_go (go_nth (clnt_heap cs) (int a)) (\<lambda>c. bind_go (Clnt_remove c nw) (\<lambda>nw.
                 Inr (nw, cs\<lparr>clerks := Some (removeAll a as)\<rparr>)))
          else Inr st))"

end
