(* ===== verification/TestNetRuns.thy ===== *)
theory TestNetRuns
  imports TestNet
begin

text \<open>
  What the operations of \<^verbatim>\<open>TestNet\<close> achieve: \<^verbatim>\<open>Partition\<close> separates two sets of servers and
  leaves each connected, \<^verbatim>\<open>MakePartition\<close> puts the leader into the minority, the state a
  server has saved survives shutdowns and restarts, and a clerk reaches the servers it is
  allowed to reach.
\<close>

section \<open>The links of a group\<close>

definition in_grp :: "('r, 's) ServerGrp \<Rightarrow> int \<Rightarrow> bool" where
  "in_grp sg i = (0 \<le> i \<and> i < int (length (srvs sg)))"

text \<open>The name of the end through which server \<open>i\<close> calls server \<open>j\<close>.\<close>

definition link :: "('r, 's) ServerGrp \<Rightarrow> int \<Rightarrow> int \<Rightarrow> string" where
  "link sg i j = endNames (srvs sg ! nat i) ! nat j"

definition links :: "('r, 's) ServerGrp \<Rightarrow> int \<Rightarrow> int set \<Rightarrow> string set" where
  "links sg i J = link sg i ` J \<union> (\<lambda>j. link sg j i) ` J"

definition set_links :: "bool \<Rightarrow> string set \<Rightarrow> Network \<Rightarrow> Network" where
  "set_links b E nw = nw\<lparr>enabled := \<lambda>e. if e \<in> E then b else enabled nw e\<rparr>"

definition grp_wf :: "('r, 's) grp_state \<Rightarrow> bool" where
  "grp_wf st = (case st of (nw, sg) \<Rightarrow>
     length (connected sg) = length (srvs sg)
     \<and> servernames sg = map (ServerName (grp_gid sg)) (grp_all sg)
     \<and> (\<forall>s \<in> set (srvs sg). length (endNames s) = length (srvs sg))
     \<and> (\<forall>i. in_grp sg i \<longrightarrow> (\<forall>j. in_grp sg j \<longrightarrow>
          ends nw (link sg i j) \<noteq> None
          \<and> connections nw (link sg i j) = Some (ServerName (grp_gid sg) j)))
     \<and> (\<forall>i. in_grp sg i \<longrightarrow> (\<forall>j. in_grp sg j \<longrightarrow> (\<forall>i'. in_grp sg i' \<longrightarrow> (\<forall>j'. in_grp sg j' \<longrightarrow>
          link sg i j = link sg i' j' \<longrightarrow> i = i' \<and> j = j')))))"

lemma set_links_union: "set_links b E (set_links b F nw) = set_links b (E \<union> F) nw"
  by (auto simp: set_links_def fun_eq_iff)

lemma set_links_fields [simp]:
  "ends (set_links b E nw) = ends nw" "connections (set_links b E nw) = connections nw"
  "servers (set_links b E nw) = servers nw"
  "enabled (set_links b E nw) e = (if e \<in> E then b else enabled nw e)"
  by (simp_all add: set_links_def)

lemma fold_enable:
  assumes "\<And>j nw. j \<in> set js \<Longrightarrow> body j nw = Inr (if C j then Enable (f j) b nw else nw)"
  shows "fold_go body js nw = Inr (set_links b (f ` {j \<in> set js. C j}) nw)"
  using assms
proof (induction js arbitrary: nw)
  case Nil
  then show ?case by (simp add: set_links_def)
next
  case (Cons j js)
  have "set_links b (f ` {j \<in> set js. C j}) (if C j then Enable (f j) b nw else nw)
      = set_links b (f ` {x \<in> set (j # js). C x}) nw"
    by (rule Network.equality) (auto simp: set_links_def Enable_def)
  with Cons show ?case by simp
qed

lemma link_connected [simp]: "link (sg\<lparr>connected := cs\<rparr>) = link sg"
  "in_grp (sg\<lparr>connected := cs\<rparr>) = in_grp sg" "links (sg\<lparr>connected := cs\<rparr>) = links sg"
  "grp_all (sg\<lparr>connected := cs\<rparr>) = grp_all sg"
  by (simp_all add: link_def links_def in_grp_def grp_all_def fun_eq_iff)

lemma grp_wf_links:
  "grp_wf (nw, sg) \<Longrightarrow> length cs = length (connected sg)
   \<Longrightarrow> grp_wf (set_links b E nw, sg\<lparr>connected := cs\<rparr>)"
  by (simp add: grp_wf_def)

lemma wf_access:
  assumes "grp_wf (nw, sg)" and "in_grp sg i" and "in_grp sg j"
  shows "go_nth (srvs sg) i = Inr (srvs sg ! nat i)"
    and "go_nth (endNames (srvs sg ! nat i)) j = Inr (link sg i j)"
    and "go_nth (connected sg) i = Inr (connected sg ! nat i)"
    and "go_update (connected sg) i b = Inr ((connected sg)[nat i := b])"
  using assms
  by (auto simp: grp_wf_def in_grp_def link_def go_nth_def go_update_def all_set_conv_all_nth nat_less_iff)

lemma wf_injective:
  assumes "grp_wf (nw, sg)" "in_grp sg i" "in_grp sg j" "in_grp sg i'" "in_grp sg j'"
  shows "link sg i j = link sg i' j' \<longleftrightarrow> i = i' \<and> j = j'"
  using assms by (auto simp: grp_wf_def)

lemma wf_links_mem:
  assumes "grp_wf (nw, sg)" "in_grp sg i" "in_grp sg a" "in_grp sg b" "\<forall>j \<in> J. in_grp sg j"
  shows "link sg a b \<in> links sg i J \<longleftrightarrow> a = i \<and> b \<in> J \<or> b = i \<and> a \<in> J"
  using assms by (auto simp: links_def image_iff wf_injective [OF assms(1)])

subsection \<open>connect and disconnect\<close>

lemma grp_disconnect_effect:
  assumes wf: "grp_wf (nw, sg)" and i: "in_grp sg i" and frm: "\<forall>j \<in> set frm. in_grp sg j"
  shows "grp_disconnect i frm (nw, sg)
    = Inr (set_links False (links sg i (set frm)) nw, sg\<lparr>connected := (connected sg)[nat i := False]\<rparr>)"
proof -
  have out: "Server_disconnect frm (srvs sg ! nat i) nw = Inr (set_links False (link sg i ` set frm) nw)"
    for nw unfolding Server_disconnect_def
    by (subst fold_enable [where C = "\<lambda>_. True" and f = "link sg i" and b = False])
      (use wf_access(2) [OF wf i] frm in auto)
  have inc: "fold_go (\<lambda>j nw. bind_go (go_nth (srvs sg) j) (\<lambda>t.
         bind_go (go_nth (endNames t) i) (\<lambda>e. Inr (Enable e False nw)))) frm nw
      = Inr (set_links False ((\<lambda>j. link sg j i) ` set frm) nw)" for nw
    by (subst fold_enable [where C = "\<lambda>_. True" and f = "\<lambda>j. link sg j i" and b = False])
      (use wf_access(1,2) [OF wf _ i] frm in auto)
  show ?thesis
    by (simp add: grp_disconnect_def wf_access(1,4) [OF wf i i] out inc set_links_union links_def Un_commute)
qed

lemma grp_connect_effect:
  assumes wf: "grp_wf (nw, sg)" and i: "in_grp sg i" and to: "\<forall>j \<in> set to. in_grp sg j"
  defines "cs \<equiv> (connected sg)[nat i := True]"
  shows "grp_connect i to (nw, sg)
    = Inr (set_links True (links sg i {j \<in> set to. cs ! nat j}) nw, sg\<lparr>connected := cs\<rparr>)"
proof -
  let ?sg = "sg\<lparr>connected := cs\<rparr>"
  have wf': "grp_wf (nw, ?sg)"
    using grp_wf_links [OF wf, of cs True "{}"] by (simp add: set_links_def cs_def)
  have con: "IsConnected j ?sg = Inr (cs ! nat j)" if "j \<in> set to" for j
    using wf_access(3) [OF wf', of j j] to that by (simp add: IsConnected_def)
  have out: "Server_connect ?sg to (srvs sg ! nat i) nw
      = Inr (set_links True (link sg i ` {j \<in> set to. cs ! nat j}) nw)" for nw
    unfolding Server_connect_def
    by (subst fold_enable [where C = "\<lambda>j. cs ! nat j" and f = "link sg i" and b = True])
      (use wf_access(2) [OF wf i] to con in auto)
  have inc: "fold_go (\<lambda>j nw. bind_go (IsConnected j ?sg) (\<lambda>c.
         if c then bind_go (go_nth (srvs ?sg) j) (\<lambda>t. bind_go (go_nth (endNames t) i) (\<lambda>e.
                Inr (Enable e True nw))) else Inr nw)) to nw
      = Inr (set_links True ((\<lambda>j. link sg j i) ` {j \<in> set to. cs ! nat j}) nw)" for nw
    by (subst fold_enable [where C = "\<lambda>j. cs ! nat j" and f = "\<lambda>j. link sg j i" and b = True])
      (use wf_access(1,2) [OF wf _ i] to con in auto)
  show ?thesis
    using wf_access(1,4) [OF wf i i]
    by (simp add: grp_connect_def Let_def cs_def [symmetric] out inc set_links_union links_def Un_commute)
qed

subsection \<open>Partition\<close>

lemma regroup_effect:
  assumes wf: "grp_wf (nw, sg)" and x: "in_grp sg x"
    and own: "\<forall>j \<in> set own. in_grp sg j" and other: "\<forall>j \<in> set other. in_grp sg j"
  defines "cs \<equiv> (connected sg)[nat x := True]"
  shows "regroup own other x (nw, sg)
    = Inr (set_links True (links sg x {j \<in> set own. cs ! nat j})
             (set_links False (links sg x (set other)) nw), sg\<lparr>connected := cs\<rparr>)"
proof -
  let ?sg = "sg\<lparr>connected := (connected sg)[nat x := False]\<rparr>"
  have "grp_wf (set_links False (links sg x (set other)) nw, ?sg)"
    using wf by (rule grp_wf_links) simp
  from grp_connect_effect [OF this, of x own] x own show ?thesis
    by (simp add: regroup_def grp_disconnect_effect [OF wf x other] cs_def)
qed

text \<open>
  After the servers \<open>D\<close> of one side have been regrouped: they are connected to each other,
  cut off from the other side, and the links among \<open>F\<close> are up as they were.
\<close>

definition sides ::
  "('r, 's) ServerGrp \<Rightarrow> int set \<Rightarrow> int set \<Rightarrow> int set \<Rightarrow> ('r, 's) grp_state \<Rightarrow> bool" where
  "sides sg F other D st =
     (grp_wf st \<and> (\<exists>cs. snd st = sg\<lparr>connected := cs\<rparr>)
      \<and> (\<forall>i \<in> D. connected (snd st) ! nat i)
      \<and> (\<forall>i \<in> D. \<forall>j \<in> D. enabled (fst st) (link sg i j))
      \<and> (\<forall>i \<in> F. \<forall>j \<in> F. enabled (fst st) (link sg i j))
      \<and> (\<forall>i \<in> D. \<forall>j \<in> other. \<not> enabled (fst st) (link sg i j) \<and> \<not> enabled (fst st) (link sg j i)))"

lemma regroup_sides:
  assumes inv: "sides sg F (set other) D st" and x: "x \<in> set own" and D: "D \<subseteq> set own"
    and grp: "\<forall>j \<in> set own \<union> set other \<union> F. in_grp sg j"
    and disj: "set own \<inter> set other = {}" "set own \<inter> F = {}"
  shows "\<exists>st'. regroup own other x st = Inr st' \<and> sides sg F (set other) (insert x D) st'"
proof -
  obtain nw cs where st: "st = (nw, sg\<lparr>connected := cs\<rparr>)"
    using inv by (cases st) (auto simp: sides_def)
  define cs' where "cs' = cs[nat x := True]"
  define nw' where "nw' = set_links True (links sg x {j \<in> set own. cs' ! nat j})
     (set_links False (links sg x (set other)) nw)"
  have wf: "grp_wf (nw, sg\<lparr>connected := cs\<rparr>)" and len: "length cs = length (srvs sg)"
    using inv st by (auto simp: sides_def grp_wf_def)
  have run: "regroup own other x st = Inr (nw', sg\<lparr>connected := cs'\<rparr>)"
    using regroup_effect [OF wf, of x own other] grp x st by (simp add: cs'_def nw'_def)
  have wf': "grp_wf (nw', sg\<lparr>connected := cs'\<rparr>)"
    using grp_wf_links [OF grp_wf_links [OF wf, of cs'], of cs' True] len
    by (simp add: nw'_def cs'_def)
  have on: "cs' ! nat j" if "j \<in> insert x D" for j
  proof (cases "j = x")
    case True
    then show ?thesis using x grp len by (auto simp: cs'_def in_grp_def nat_less_iff)
  next
    case False
    moreover have "in_grp sg j" "in_grp sg x" using that x D grp by auto
    ultimately have "nat j \<noteq> nat x" by (auto simp: in_grp_def)
    then show ?thesis using that False inv st by (auto simp: cs'_def sides_def)
  qed
  have mem: "link sg a b \<in> links sg x J \<longleftrightarrow> a = x \<and> b \<in> J \<or> b = x \<and> a \<in> J"
    if "in_grp sg a" "in_grp sg b" "\<forall>j \<in> J. in_grp sg j" for a b J
    using wf_links_mem [OF wf, of x a b J] that x grp by simp
  have enab: "enabled nw' (link sg a b) =
      (if a = x \<and> b \<in> set own \<and> cs' ! nat b \<or> b = x \<and> a \<in> set own \<and> cs' ! nat a then True
       else if a = x \<and> b \<in> set other \<or> b = x \<and> a \<in> set other then False
       else enabled nw (link sg a b))" if "in_grp sg a" "in_grp sg b" for a b
  proof -
    have 1: "link sg a b \<in> links sg x {j \<in> set own. cs' ! nat j} \<longleftrightarrow>
        a = x \<and> b \<in> set own \<and> cs' ! nat b \<or> b = x \<and> a \<in> set own \<and> cs' ! nat a"
      using mem [OF that, of "{j \<in> set own. cs' ! nat j}"] grp by simp
    have 2: "link sg a b \<in> links sg x (set other) \<longleftrightarrow> a = x \<and> b \<in> set other \<or> b = x \<and> a \<in> set other"
      using mem [OF that, of "set other"] grp by simp
    show ?thesis unfolding nw'_def set_links_fields 1 2 by (rule refl)
  qed
  have old: "\<And>i j. i \<in> D \<Longrightarrow> j \<in> D \<Longrightarrow> enabled nw (link sg i j)"
    "\<And>i j. i \<in> F \<Longrightarrow> j \<in> F \<Longrightarrow> enabled nw (link sg i j)"
    "\<And>i j. i \<in> D \<Longrightarrow> j \<in> set other \<Longrightarrow> \<not> enabled nw (link sg i j) \<and> \<not> enabled nw (link sg j i)"
    using inv st by (auto simp: sides_def)
  have own: "i \<in> set own" "in_grp sg i" if "i \<in> insert x D" for i
    using that x D grp by auto
  have "sides sg F (set other) (insert x D) (nw', sg\<lparr>connected := cs'\<rparr>)"
    unfolding sides_def fst_conv snd_conv
  proof (intro conjI ballI)
    show "enabled nw' (link sg i j)" if "i \<in> insert x D" "j \<in> insert x D" for i j
      using that enab [of i j] on [of i] on [of j] old(1) own by (auto split: if_splits)
    show "enabled nw' (link sg i j)" if "i \<in> F" "j \<in> F" for i j
      using that enab [of i j] old(2) grp x disj by (auto split: if_splits)
    show "\<not> enabled nw' (link sg i j)" "\<not> enabled nw' (link sg j i)"
      if "i \<in> insert x D" "j \<in> set other" for i j
    proof -
      have "j \<notin> set own" "in_grp sg j" "i \<in> set own" "in_grp sg i" "j \<noteq> x"
        using that own [of i] own [of x] grp disj by auto
      moreover have "i \<notin> set other" using that own [of i] disj by auto
      ultimately show "\<not> enabled nw' (link sg i j)" "\<not> enabled nw' (link sg j i)"
        using that enab [of i j] enab [of j i] old(3) [of i j] by auto
    qed
  qed (use wf' on in auto)
  with run show ?thesis by blast
qed

lemma regroup_all:
  assumes inv: "sides sg F (set other) {} st"
    and grp: "\<forall>j \<in> set own \<union> set other \<union> F. in_grp sg j"
    and disj: "set own \<inter> set other = {}" "set own \<inter> F = {}"
  shows "\<exists>st'. fold_go (regroup own other) own st = Inr st' \<and> sides sg F (set other) (set own) st'"
proof -
  have "\<exists>st'. fold_go (regroup own other) own st = Inr st'
      \<and> ({} \<union> set own \<subseteq> set own \<and> sides sg F (set other) ({} \<union> set own) st')"
    by (rule fold_go_visits [where P = "\<lambda>D st. D \<subseteq> set own \<and> sides sg F (set other) D st"])
      (use inv regroup_sides [OF _ _ _ grp disj] in auto)
  then show ?thesis by simp
qed

lemma Partition_sides:
  assumes wf: "grp_wf (nw, sg)" and grp: "\<forall>i \<in> set p1 \<union> set p2. in_grp sg i"
    and disj: "set p1 \<inter> set p2 = {}"
  shows "\<exists>st. Partition p1 p2 (nw, sg) = Inr st \<and> sides sg (set p1) (set p1) (set p2) st"
proof -
  have "sides sg {} (set p2) {} (nw, sg)"
    using wf by (auto simp: sides_def intro: exI [of _ "connected sg"])
  from regroup_all [OF this, of p1] grp disj
  obtain st1 where st1: "fold_go (regroup p1 p2) p1 (nw, sg) = Inr st1" "sides sg {} (set p2) (set p1) st1"
    by auto
  then have "sides sg (set p1) (set p1) {} st1" by (simp add: sides_def)
  from regroup_all [OF this, of p2] grp disj st1(1) show ?thesis
    by (auto simp: Partition_def)
qed

subsection \<open>MakePartition\<close>

text \<open>The two slices side by side: the loop fills them from the left.\<close>

lemma place_all:
  assumes "j + length (filter (\<lambda>i. i \<noteq> l) xs) \<le> length p1 + length p2"
  shows "\<exists>q1 q2. fold_go (place l) xs (p1, p2, int j)
      = Inr (q1, q2, int (j + length (filter (\<lambda>i. i \<noteq> l) xs)))
    \<and> length q1 = length p1
    \<and> q1 @ q2 = take j (p1 @ p2) @ filter (\<lambda>i. i \<noteq> l) xs @ drop (j + length (filter (\<lambda>i. i \<noteq> l) xs)) (p1 @ p2)"
  using assms
proof (induction xs arbitrary: p1 p2 j)
  case (Cons x xs)
  show ?case
  proof (cases "x = l")
    case True
    with Cons.IH [of j p1 p2] Cons.prems show ?thesis by (simp add: place_def)
  next
    case False
    define q1 where "q1 = (if j < length p1 then p1[j := x] else p1)"
    define q2 where "q2 = (if j < length p1 then p2 else p2[j - length p1 := x])"
    have step: "place l x (p1, p2, int j) = Inr (q1, q2, int (Suc j))"
    proof (cases "j < length p1")
      case True
      then show ?thesis using False by (simp add: place_def go_update_def q1_def q2_def)
    next
      case ge: False
      then have "nat (int j - int (length p1)) = j - length p1"
        "int j - int (length p1) < int (length p2)" "int j - int (length p1) \<ge> 0"
        using False Cons.prems by simp_all
      then show ?thesis using ge False by (simp add: place_def go_update_def q1_def q2_def)
    qed
    have q: "q1 @ q2 = (p1 @ p2)[j := x]" "length q1 = length p1" "length q2 = length p2"
      using Cons.prems by (auto simp: q1_def q2_def list_update_append)
    have "take (Suc j) ((p1 @ p2)[j := x]) = take j (p1 @ p2) @ [x]"
      using False Cons.prems by (simp add: take_Suc_conv_app_nth)
    then show ?thesis
      using Cons.IH [of "Suc j" q1 q2] Cons.prems False step q
      by (simp del: append_assoc of_nat_Suc add: q) simp
  qed
qed (simp del: take_append drop_append)

lemma MakePartition_odd:
  assumes n: "length (srvs sg) = 2 * k + 1" and k: "0 < k" and l: "in_grp sg l"
  defines "os \<equiv> filter (\<lambda>i. i \<noteq> l) (grp_all sg)"
  shows "MakePartition l sg = Inr (take (k + 1) os, drop (k + 1) os @ [l])"
proof -
  have len: "length os = 2 * k"
  proof -
    have len_all: "length (grp_all sg) = 2 * k + 1" using n by (simp add: grp_all_def)
    have "distinct (grp_all sg)" "l \<in> set (grp_all sg)"
      using l by (auto simp: grp_all_def distinct_map in_grp_def image_iff intro!: bexI [of _ "nat l"])
    then have "length (removeAll l (grp_all sg)) = 2 * k"
      using len_all by (simp add: distinct_remove1_removeAll [symmetric] length_remove1)
    then show ?thesis by (simp add: os_def removeAll_filter_not_eq eq_commute)
  qed
  have rest: "drop (2 * k) (0 # replicate k 0 @ replicate k 0) = [0 :: int]"
    by (simp flip: replicate_add replicate_Suc) simp
  obtain q1 q2 where q: "fold_go (place l) (grp_all sg) (replicate (k + 1) 0, replicate k 0, int 0)
      = Inr (q1, q2, int (2 * k))" "length q1 = k + 1" "q1 @ q2 = os @ [0]"
    using place_all [of 0 l "grp_all sg" "replicate (k + 1) 0" "replicate k 0"] len
    by (auto simp: os_def [symmetric] rest)
  from q(2,3) have "q1 = take (k + 1) (os @ [0])" "q2 = drop (k + 1) (os @ [0])"
    by (auto simp: append_eq_conv_conj)
  then have q1: "q1 = take (k + 1) os" and q2: "q2 = drop (k + 1) os @ [0]"
    using len k by auto
  have "go_update q2 (int (length q2) - 1) l = Inr (drop (k + 1) os @ [l])"
    using q2 by (simp add: go_update_def list_update_append)
  moreover have "MakePartition l sg = bind_go (go_update q2 (int (length q2) - 1) l) (\<lambda>p2. Inr (q1, p2))"
    unfolding MakePartition_def Let_def grp_all_def [symmetric]
    using q(1) n by (simp del: replicate_Suc)
  ultimately show ?thesis by (simp add: q1)
qed

section \<open>Making and running a group\<close>

text \<open>The ends that \<^verbatim>\<open>makeServer\<close> adds to the network.\<close>

definition fresh_ends :: "(nat \<Rightarrow> string) \<Rightarrow> Tgid \<Rightarrow> nat \<Rightarrow> Network \<Rightarrow> Network \<Rightarrow> bool" where
  "fresh_ends rand gid n nw nw' =
     (inj_on rand {..<n}
      \<and> (\<forall>j < n. ends nw (rand j) = None \<and> ends nw' (rand j) \<noteq> None
           \<and> connections nw' (rand j) = Some (ServerName gid (int j)))
      \<and> (\<forall>e. e \<notin> rand ` {..<n} \<longrightarrow> ends nw' e = ends nw e \<and> connections nw' e = connections nw e))"

lemma make_ends_fresh:
  "fold_go (make_one_end rand gid) [0..<n] (nw, ces) = Inr (nw', ces') \<Longrightarrow> fresh_ends rand gid n nw nw'"
proof (induction n arbitrary: nw' ces')
  case 0
  then show ?case by (simp add: fresh_ends_def)
next
  case (Suc n)
  from Suc.prems obtain nw1 ces1 where 1: "fold_go (make_one_end rand gid) [0..<n] (nw, ces) = Inr (nw1, ces1)"
    and 2: "make_one_end rand gid n (nw1, ces1) = Inr (nw', ces')"
    by (auto simp: fold_go_append)
  have old: "fresh_ends rand gid n nw nw1" by (rule Suc.IH [OF 1])
  have new: "ends nw1 (rand n) = None"
    and nw': "nw' = Connect (rand n) (ServerName gid (int n)) (nw1\<lparr>
        ends := (ends nw1)(rand n \<mapsto> \<lparr>ce_name = rand n, callf = None\<rparr>),
        enabled := (enabled nw1)(rand n := False), connections := (connections nw1)(rand n := None)\<rparr>)"
    using 2 by (auto simp: make_one_end_def MakeEnd_def Let_def split: if_splits)
  have notin: "rand n \<notin> rand ` {..<n}" using old new by (auto simp: fresh_ends_def)
  then have "ends nw (rand n) = None" using old new by (auto simp: fresh_ends_def)
  with old notin show ?case
    by (auto simp: fresh_ends_def nw' Connect_def lessThan_Suc inj_on_insert less_Suc_eq image_iff)
qed

lemma makeServer_fresh:
  assumes "makeServer rand gid n nw = Inr (nw', s)"
  shows "fresh_ends rand gid n nw nw'" "endNames s = map rand [0..<n]" "saved s = None" "dc s = None"
  using assms make_ends_fresh by (auto simp: makeServer_def)

text \<open>Drawing names that are new and differ is all it takes.\<close>

lemma makeServer_returns:
  assumes "inj_on rand {..<n}" and "\<forall>j < n. ends nw (rand j) = None"
  shows "\<exists>r. makeServer rand gid n nw = Inr r"
proof -
  have "\<exists>nw' ces'. fold_go (make_one_end rand gid) [0..<n] (nw, []) = Inr (nw', ces')"
    using assms
  proof (induction n)
    case (Suc n)
    then obtain nw' ces' where r: "fold_go (make_one_end rand gid) [0..<n] (nw, []) = Inr (nw', ces')"
      by (auto simp: lessThan_Suc)
    have "rand n \<notin> rand ` {..<n}" using inj_onD [OF Suc.prems(1), of n] by force
    then have "ends nw' (rand n) = None"
      using make_ends_fresh [OF r] Suc.prems(2) by (auto simp: fresh_ends_def)
    then have "\<exists>r. make_one_end rand gid n (nw', ces') = Inr r"
      by (simp add: make_one_end_def MakeEnd_def Let_def)
    with r show ?case by (auto simp: fold_go_append)
  qed simp
  then show ?thesis by (auto simp: makeServer_def)
qed

definition ends_wf :: "Tgid \<Rightarrow> nat \<Rightarrow> Network \<Rightarrow> string list list \<Rightarrow> bool" where
  "ends_wf gid n nw es =
     ((\<forall>i < length es. length (es ! i) = n)
      \<and> (\<forall>i < length es. \<forall>j < n. ends nw (es ! i ! j) \<noteq> None
           \<and> connections nw (es ! i ! j) = Some (ServerName gid (int j)))
      \<and> (\<forall>i < length es. \<forall>j < n. \<forall>i' < length es. \<forall>j' < n. es ! i ! j = es ! i' ! j' \<longrightarrow> i = i' \<and> j = j'))"

lemma all_in_grp: "(\<forall>i. in_grp sg i \<longrightarrow> P i) \<longleftrightarrow> (\<forall>k < length (srvs sg). P (int k))"
proof -
  have "in_grp sg i \<longleftrightarrow> (\<exists>k < length (srvs sg). i = int k)" for i
    by (auto simp: in_grp_def intro!: exI [of _ "nat i"])
  then show ?thesis by auto
qed

lemma grp_wf_iff:
  "grp_wf (nw, sg) \<longleftrightarrow> length (connected sg) = length (srvs sg)
     \<and> servernames sg = map (ServerName (grp_gid sg)) (grp_all sg)
     \<and> ends_wf (grp_gid sg) (length (srvs sg)) nw (map endNames (srvs sg))"
  unfolding grp_wf_def ends_wf_def prod.case all_in_grp
  by (simp add: link_def all_set_conv_all_nth)

text \<open>A server with fresh ends takes the place of another one, or joins the list.\<close>

lemma ends_wf_replace:
  assumes wf: "ends_wf gid n nw es" and fresh: "fresh_ends rand gid n nw nw'"
    and new: "\<And>i. i < length es' \<Longrightarrow>
      es' ! i = map rand [0..<n] \<and> i = k \<or> i \<noteq> k \<and> i < length es \<and> es' ! i = es ! i"
  shows "ends_wf gid n nw' es'"
proof -
  have apart: "es ! i ! j \<notin> rand ` {..<n}" if "i < length es" "j < n" for i j
  proof -
    have "ends nw (es ! i ! j) \<noteq> None" using that wf by (simp add: ends_wf_def)
    then show ?thesis using fresh by (auto simp: fresh_ends_def)
  qed
  have inj: "rand j = rand j' \<longleftrightarrow> j = j'" if "j < n" "j' < n" for j j'
    using fresh that by (auto simp: fresh_ends_def inj_on_def)
  have "i = i' \<and> j = j'"
    if "i < length es'" "j < n" "i' < length es'" "j' < n" "es' ! i ! j = es' ! i' ! j'" for i j i' j'
    using that wf inj [of j j'] apart [of i j] apart [of i' j'] imageI [of j "{..<n}" rand]
      imageI [of j' "{..<n}" rand] new [of i] new [of i']
    by (cases "i = k"; cases "i' = k") (auto simp: ends_wf_def)
  moreover have "ends nw' (es' ! i ! j) \<noteq> None
      \<and> connections nw' (es' ! i ! j) = Some (ServerName gid (int j))"
    if "i < length es'" "j < n" for i j
    using that wf fresh apart [of i j] new [of i] by (cases "i = k") (auto simp: ends_wf_def fresh_ends_def)
  moreover have "length (es' ! i) = n" if "i < length es'" for i
    using new [OF that] wf by (auto simp: ends_wf_def)
  ultimately show ?thesis by (simp add: ends_wf_def)
qed

lemma makeSrvGrp_wf:
  assumes "makeSrvGrp rand gid n nw = Inr (nw', sg)"
  shows "grp_wf (nw', sg)" "length (srvs sg) = n" "grp_gid sg = gid"
proof -
  have servers: "fold_go (make_one_server rand gid n) [0..<k] (nw, []) = Inr (nw', ss) \<Longrightarrow>
      length ss = k \<and> ends_wf gid n nw' (map endNames ss)" for k nw' and ss :: "('a, 'b) tester_Server list"
  proof (induction k arbitrary: nw' ss)
    case (Suc k)
    from Suc.prems obtain nw1 ss1
      where 1: "fold_go (make_one_server rand gid n) [0..<k] (nw, []) = Inr (nw1, ss1)"
        and last: "make_one_server rand gid n k (nw1, ss1) = Inr (nw', ss)"
      by (auto simp: fold_go_append)
    from last obtain s where 2: "makeServer (rand k) gid n nw1 = Inr (nw', s)" "ss = ss1 @ [s]"
      by (auto simp: make_one_server_def)
    with Suc.IH [OF 1] makeServer_fresh(1,2) [OF 2(1)] show ?case
      by (auto intro!: ends_wf_replace [where k = k and es = "map endNames ss1" and nw = nw1]
          simp: nth_append less_Suc_eq)
  qed (simp add: ends_wf_def)
  from assms obtain ss where ss: "fold_go (make_one_server rand gid n) [0..<n] (nw, []) = Inr (nw', ss)"
    and sg: "sg = \<lparr>srvs = ss, servernames = map (\<lambda>i. ServerName gid (int i)) [0..<n],
                  grp_gid = gid, connected = replicate n False\<rparr>"
    by (auto simp: makeSrvGrp_def)
  from servers [OF ss] sg show "grp_wf (nw', sg)" "length (srvs sg) = n" "grp_gid sg = gid"
    by (simp_all add: grp_wf_iff grp_all_def)
qed

text \<open>
  What happens to a group during a test: starts and shutdowns of servers, changes of the
  connections, and a server that saves its state while it runs.
\<close>

datatype ('r, 's) grp_event =
    StartEv "nat \<Rightarrow> string" bool nat int
  | ShutdownEv int
  | ConnectEv int
  | DisconnectEv int
  | PartitionEv "int list" "int list"
  | SaveEv int "'r list" "'s list"

definition server_saves ::
  "int \<Rightarrow> 'r list \<Rightarrow> 's list \<Rightarrow> ('r, 's) ServerGrp \<Rightarrow> ('r, 's) ServerGrp go" where
  "server_saves i r s sg = bind_go (go_nth (srvs sg) i) (\<lambda>sv. case dc sv of
       None \<Rightarrow> Inr sg
     | Some p \<Rightarrow> Inr (sg\<lparr>srvs := (srvs sg)[nat i := sv\<lparr>dc := Some (Save r s p)\<rparr>]\<rparr>))"

fun grp_step :: "('r, 's) grp_event \<Rightarrow> ('r, 's) grp_state \<Rightarrow> ('r, 's) grp_state go" where
  "grp_step (StartEv rand starts a i) st = StartServer rand starts a i st"
| "grp_step (ShutdownEv i) st = ShutdownServer i st"
| "grp_step (ConnectEv i) st = ConnectOne i st"
| "grp_step (DisconnectEv i) st = grp_DisconnectAll i st"
| "grp_step (PartitionEv p1 p2) st = Partition p1 p2 st"
| "grp_step (SaveEv i r s) st = bind_go (server_saves i r s (snd st)) (\<lambda>sg. Inr (fst st, sg))"

definition grp_run :: "('r, 's) grp_event list \<Rightarrow> ('r, 's) grp_state \<Rightarrow> ('r, 's) grp_state go" where
  "grp_run evs st = fold_go grp_step evs st"

subsection \<open>Operations on the connections\<close>

text \<open>They change which ends are enabled and who is connected, nothing else.\<close>

definition only_links :: "('r, 's) grp_state \<Rightarrow> ('r, 's) grp_state \<Rightarrow> bool" where
  "only_links st st' =
     (ends (fst st') = ends (fst st) \<and> connections (fst st') = connections (fst st)
      \<and> servers (fst st') = servers (fst st)
      \<and> (\<exists>cs. length cs = length (connected (snd st)) \<and> snd st' = (snd st)\<lparr>connected := cs\<rparr>))"

lemma only_links_trans: "only_links st st1 \<Longrightarrow> only_links st1 st2 \<Longrightarrow> only_links st st2"
  by (auto simp: only_links_def)

lemma only_links_refl: "only_links st st"
  by (auto simp: only_links_def intro: exI [of _ "connected (snd st)"])

lemma fold_enable_keeps:
  assumes "fold_go body js nw = Inr nw'"
    and "\<And>j nw nw'. body j nw = Inr nw' \<Longrightarrow> nw' = nw \<or> (\<exists>e b. nw' = Enable e b nw)"
  shows "ends nw' = ends nw \<and> connections nw' = connections nw \<and> servers nw' = servers nw"
proof (rule fold_go_keeps [OF assms(1)])
  fix x s s' assume "body x s = Inr s'" and old: "ends s = ends nw \<and> connections s = connections nw \<and> servers s = servers nw"
  from assms(2) [OF this(1)] old
  show "ends s' = ends nw \<and> connections s' = connections nw \<and> servers s' = servers nw"
    by (auto simp: Enable_def)
qed simp

lemma fold_only_links:
  assumes "fold_go f xs st = Inr st'" and "\<And>x st st'. f x st = Inr st' \<Longrightarrow> only_links st st'"
  shows "only_links st st'"
  by (rule fold_go_keeps [where P = "only_links st", OF assms(1) only_links_refl])
    (blast intro: only_links_trans assms(2))

lemma connect_only_links: "grp_connect i to st = Inr st' \<Longrightarrow> only_links st st'"
  unfolding grp_connect_def Let_def Server_connect_def
  by (auto 0 4 simp: only_links_def go_update_eq_Inr dest!: fold_enable_keeps split: if_splits
      intro: exI [of _ "(connected (snd st))[nat i := True]"])

lemma disconnect_only_links: "grp_disconnect i frm st = Inr st' \<Longrightarrow> only_links st st'"
  unfolding grp_disconnect_def Let_def Server_disconnect_def
  by (auto 0 4 simp: only_links_def go_update_eq_Inr dest!: fold_enable_keeps split: if_splits
      intro: exI [of _ "(connected (snd st))[nat i := False]"])

lemma Partition_only_links: "Partition p1 p2 st = Inr st' \<Longrightarrow> only_links st st'"
proof -
  have step: "regroup own other x st = Inr st' \<Longrightarrow> only_links st st'"
    for own other x and st st' :: "('a, 'b) grp_state"
    by (auto simp: regroup_def dest!: connect_only_links disconnect_only_links intro: only_links_trans)
  show "Partition p1 p2 st = Inr st' \<Longrightarrow> only_links st st'"
    by (auto simp: Partition_def dest!: fold_only_links [OF _ step] intro: only_links_trans)
qed

lemma only_links_wf: "only_links st st' \<Longrightarrow> grp_wf st \<Longrightarrow> grp_wf st'"
  by (cases st; cases st') (auto simp: only_links_def grp_wf_iff ends_wf_def)

subsection \<open>Starts and shutdowns\<close>

lemma StartServer_cases:
  fixes sg :: "('r, 's) ServerGrp"
  assumes "StartServer rand starts a i (nw, sg) = Inr st'"
  obtains nw' srv p where "0 \<le> i" "i < int (length (srvs sg))"
    and "fresh_ends rand (grp_gid sg) (length (endNames (srvs sg ! nat i))) nw nw'"
    and "endNames srv = map rand [0..<length (endNames (srvs sg ! nat i))]"
    and "saved srv = Some p" "p = (case saved (srvs sg ! nat i) of None \<Rightarrow> MakePersister | Some p \<Rightarrow> p)"
    and "dc srv = None"
    and "st' = (if starts
       then (AddServer (ServerName (grp_gid sg) i) a nw',
             sg\<lparr>srvs := (srvs sg)[nat i := srv\<lparr>dc := Some (DaemonClnt_init p)\<rparr>]\<rparr>)
       else (nw', sg\<lparr>srvs := (srvs sg)[nat i := srv]\<rparr>))"
proof -
  from assms obtain nw' and s0 :: "('r, 's) tester_Server" where i: "0 \<le> i" "i < int (length (srvs sg))"
    and mk: "makeServer rand (grp_gid sg) (length (endNames (srvs sg ! nat i))) nw = Inr (nw', s0)"
    by (auto simp: StartServer_def Server_startServer_def go_nth_eq_Inr)
  define p where "p = (case saved (srvs sg ! nat i) of None \<Rightarrow> MakePersister | Some p \<Rightarrow> p)"
  have "Server_startServer rand (grp_gid sg) (srvs sg ! nat i) nw = Inr (nw', s0\<lparr>saved := Some p\<rparr>)"
    using mk by (simp add: Server_startServer_def p_def split: option.split)
  then have st': "st' = (if starts
       then (AddServer (ServerName (grp_gid sg) i) a nw',
             sg\<lparr>srvs := (srvs sg)[nat i := s0\<lparr>saved := Some p\<rparr>\<lparr>dc := Some (DaemonClnt_init p)\<rparr>]\<rparr>)
       else (nw', sg\<lparr>srvs := (srvs sg)[nat i := s0\<lparr>saved := Some p\<rparr>]\<rparr>))"
    using assms i by (cases starts) (auto simp: StartServer_def Let_def go_nth_def)
  show thesis
    by (rule that [of nw' "s0\<lparr>saved := Some p\<rparr>" p]) (use i makeServer_fresh [OF mk] st' p_def in auto)
qed

lemma ShutdownServer_cases:
  assumes "ShutdownServer i st = Inr st'"
  obtains nw1 sg1 where "only_links st (nw1, sg1)" "0 \<le> i" "i < int (length (srvs sg1))"
    and "st' = (DeleteServer (ServerName (grp_gid sg1) i) nw1,
                sg1\<lparr>srvs := (srvs sg1)[nat i := Server_shutdownServer (srvs sg1 ! nat i)]\<rparr>)"
  using assms by (auto simp: ShutdownServer_def go_nth_eq_Inr dest!: disconnect_only_links)

lemma endNames_shutdown [simp]: "endNames (Server_shutdownServer s) = endNames s"
  by (simp add: Server_shutdownServer_def split: option.split)

lemma ends_wf_servers [simp]:
  "ends_wf gid n (AddServer m a nw) es = ends_wf gid n nw es"
  "ends_wf gid n (DeleteServer m nw) es = ends_wf gid n nw es"
  by (simp_all add: ends_wf_def AddServer_def DeleteServer_def)

lemma StartServer_wf:
  assumes "StartServer rand starts a i (nw, sg) = Inr st'" and wf: "grp_wf (nw, sg)"
  shows "grp_wf st' \<and> length (srvs (snd st')) = length (srvs sg) \<and> grp_gid (snd st') = grp_gid sg"
  using assms(1)
proof (cases rule: StartServer_cases)
  case (1 nw' srv p)
  let ?n = "length (srvs sg)"
  have len: "length (endNames (srvs sg ! nat i)) = ?n" "nat i < ?n"
    using 1(1,2) wf by (auto simp: grp_wf_iff ends_wf_def nat_less_iff)
  have "ends_wf (grp_gid sg) ?n nw' ((map endNames (srvs sg))[nat i := map rand [0..<?n]])"
    by (rule ends_wf_replace [where nw = nw and es = "map endNames (srvs sg)" and k = "nat i"])
      (use wf 1(3) len in \<open>auto simp: grp_wf_iff nth_list_update\<close>)
  then show ?thesis
    using wf 1(4,8) len by (cases starts) (simp_all add: grp_wf_iff grp_all_def map_update)
qed

lemma same_ends_wf:
  assumes "grp_wf (nw, sg)" and "map endNames ss = map endNames (srvs sg)"
  shows "grp_wf (nw, sg\<lparr>srvs := ss\<rparr>)"
proof -
  have "length ss = length (srvs sg)" using assms(2) by (rule map_eq_imp_length_eq)
  with assms show ?thesis by (simp add: grp_wf_iff grp_all_def)
qed

lemma grp_step_wf:
  assumes step: "grp_step ev st = Inr st'" and wf: "grp_wf st"
  shows "grp_wf st' \<and> length (srvs (snd st')) = length (srvs (snd st)) \<and> grp_gid (snd st') = grp_gid (snd st)"
proof (cases ev)
  case (StartEv rand starts a i)
  obtain nw sg where st: "st = (nw, sg)" by (cases st)
  have "StartServer rand starts a i (nw, sg) = Inr st'" using step StartEv st by simp
  from StartServer_wf [OF this] wf st show ?thesis by simp
next
  case (ShutdownEv i)
  have "ShutdownServer i st = Inr st'" using step ShutdownEv by simp
  then obtain nw1 sg1 where s: "only_links st (nw1, sg1)" "i < int (length (srvs sg1))"
    "st' = (DeleteServer (ServerName (grp_gid sg1) i) nw1,
            sg1\<lparr>srvs := (srvs sg1)[nat i := Server_shutdownServer (srvs sg1 ! nat i)]\<rparr>)"
    by (rule ShutdownServer_cases)
  have "grp_wf (DeleteServer (ServerName (grp_gid sg1) i) nw1, sg1)"
    using only_links_wf [OF s(1) wf] by (simp add: grp_wf_iff)
  then have "grp_wf st'" unfolding s(3)
    by (rule same_ends_wf) (simp add: map_update_same)
  with s show ?thesis by (auto simp: only_links_def)
next
  case (SaveEv i r s)
  then show ?thesis
    using step wf by (cases st) (auto simp: server_saves_def go_nth_eq_Inr map_update_same intro!: same_ends_wf split: option.splits)
qed (use step wf in \<open>auto simp: ConnectOne_def grp_DisconnectAll_def only_links_def
      dest!: connect_only_links disconnect_only_links Partition_only_links intro: only_links_wf\<close>)

lemma grp_run_wf:
  assumes "grp_run evs st = Inr st'" and "grp_wf st"
  shows "grp_wf st' \<and> length (srvs (snd st')) = length (srvs (snd st)) \<and> grp_gid (snd st') = grp_gid (snd st)"
proof -
  have "grp_wf st' \<and> length (srvs (snd st')) = length (srvs (snd st)) \<and> grp_gid (snd st') = grp_gid (snd st)"
    by (rule fold_go_keeps [where f = grp_step and xs = evs and s = st])
      (use assms grp_step_wf in \<open>fastforce simp: grp_run_def\<close>)+
  then show ?thesis .
qed

lemma in_all: "i \<in> set (grp_all sg) \<longleftrightarrow> in_grp sg i"
  by (auto simp: grp_all_def in_grp_def image_iff intro!: bexI [of _ "nat i"])

section \<open>The properties of a group\<close>

text \<open>
  C35: In every state a group reaches, \<^verbatim>\<open>Partition\<close> with two disjoint sets of its servers
  returns, and afterwards a request of one of these servers to another finds its end
  enabled exactly if the two are on the same side; the end still leads to the same server.
\<close>

theorem Partition_separates:
  assumes "makeSrvGrp rand gid n nw0 = Inr st0" and "grp_run evs st0 = Inr (nw, sg)"
    and "\<forall>i \<in> set p1 \<union> set p2. 0 \<le> i \<and> i < int n" and "set p1 \<inter> set p2 = {}"
  shows "\<exists>nw' sg'. Partition p1 p2 (nw, sg) = Inr (nw', sg')
    \<and> (\<forall>i \<in> set p1 \<union> set p2. \<forall>j \<in> set p1 \<union> set p2.
         link sg' i j = link sg i j
         \<and> fst (readEndnameInfo nw' (link sg i j)) = (i \<in> set p1 \<longleftrightarrow> j \<in> set p1)
         \<and> fst (snd (readEndnameInfo nw' (link sg i j))) = Some (ServerName gid j))"
proof -
  have st0: "grp_wf st0" "length (srvs (snd st0)) = n" "grp_gid (snd st0) = gid"
    using makeSrvGrp_wf [of rand gid n nw0 "fst st0" "snd st0"] assms(1) by auto
  have wf: "grp_wf (nw, sg)" "length (srvs sg) = n" "grp_gid sg = gid"
    using grp_run_wf [OF assms(2) st0(1)] st0 by auto
  then have grp: "\<forall>i \<in> set p1 \<union> set p2. in_grp sg i" using assms(3) by (simp add: in_grp_def)
  obtain nw' sg' where P: "Partition p1 p2 (nw, sg) = Inr (nw', sg')"
    and s: "sides sg (set p1) (set p1) (set p2) (nw', sg')"
    using Partition_sides [OF wf(1) grp assms(4)] by auto
  have "enabled nw' (link sg i j) = (i \<in> set p1 \<longleftrightarrow> j \<in> set p1)"
    if "i \<in> set p1 \<union> set p2" "j \<in> set p1 \<union> set p2" for i j
    using that s assms(4) by (auto simp: sides_def)
  moreover have "connections nw' (link sg i j) = Some (ServerName gid j)"
    if "in_grp sg i" "in_grp sg j" for i j
    using that wf Partition_only_links [OF P] by (auto simp: only_links_def grp_wf_def)
  moreover have "link sg' = link sg" using s by (auto simp: sides_def)
  ultimately show ?thesis using P grp by (simp add: readEndnameInfo_def)
qed

text \<open>The two parts for an odd number of servers.\<close>

lemma MakePartition_parts:
  assumes n: "length (srvs sg) = 2 * k + 1" and k: "0 < k" and l: "in_grp sg l"
  obtains p1 p2 where "MakePartition l sg = Inr (p1, p2)" "distinct p1" "length p1 = k + 1" "length p2 = k"
    and "l \<in> set p2" "set p1 \<inter> set p2 = {}" "set p1 \<union> set p2 = {i. in_grp sg i}"
proof -
  define os where "os = filter (\<lambda>i. i \<noteq> l) (grp_all sg)"
  have dist: "distinct (grp_all sg)" by (simp add: grp_all_def distinct_map)
  have set_os: "set os = {i. in_grp sg i} - {l}" by (auto simp: os_def in_all)
  have "card (set os) = 2 * k"
  proof -
    have len_all: "length (grp_all sg) = 2 * k + 1" using n by (simp add: grp_all_def)
    have all_set: "set (grp_all sg) = {i. in_grp sg i}" by (auto simp: in_all)
    have "card {i. in_grp sg i} = 2 * k + 1"
      using distinct_card [OF dist] len_all all_set by simp
    with l show ?thesis by (simp add: set_os)
  qed
  moreover have d: "distinct os" using dist by (simp add: os_def)
  ultimately have len: "length os = 2 * k" by (simp add: distinct_card)
  have parts: "set (take (k + 1) os) \<union> set (drop (k + 1) os) = set os"
    by (metis append_take_drop_id set_append)
  have apart: "set (take (k + 1) os) \<inter> set (drop (k + 1) os) = {}"
    using set_take_disj_set_drop_if_distinct [OF d] by simp
  have l_apart: "l \<notin> set (take (k + 1) os)" using set_os set_take_subset [of "k + 1" os] by auto
  show thesis
  proof (rule that [OF MakePartition_odd [OF n k l, folded os_def]])
    show "set (take (k + 1) os) \<inter> set (drop (k + 1) os @ [l]) = {}" using apart l_apart by simp
    show "set (take (k + 1) os) \<union> set (drop (k + 1) os @ [l]) = {i. in_grp sg i}"
      using parts set_os l by auto
  qed (use len d k in simp_all)
qed

text \<open>
  With an odd number of servers, at least three, \<^verbatim>\<open>MakePartition\<close> followed by \<^verbatim>\<open>Partition\<close>
  leaves a strict majority fully connected and cuts the leader off from every majority: it
  can call at most half of the servers, itself included, and be called by as few.
\<close>

theorem MakePartition_isolates_leader:
  assumes "makeSrvGrp rand gid (2 * k + 1) nw0 = Inr st0" and "grp_run evs st0 = Inr (nw, sg)"
    and "0 < k" and "0 \<le> l" and "l < int (2 * k + 1)"
  shows "\<exists>p1 p2 nw' sg'. MakePartition l sg = Inr (p1, p2) \<and> Partition p1 p2 (nw, sg) = Inr (nw', sg')
    \<and> card (set p1) = k + 1 \<and> (\<forall>i \<in> set p1. \<forall>j \<in> set p1. enabled nw' (link sg i j))
    \<and> card {j. in_grp sg j \<and> enabled nw' (link sg l j)} \<le> k
    \<and> card {j. in_grp sg j \<and> enabled nw' (link sg j l)} \<le> k"
proof -
  have st0: "grp_wf st0" "length (srvs (snd st0)) = 2 * k + 1"
    using makeSrvGrp_wf [of rand gid "2 * k + 1" nw0 "fst st0" "snd st0"] assms(1) by auto
  have wf: "grp_wf (nw, sg)" "length (srvs sg) = 2 * k + 1"
    using grp_run_wf [OF assms(2) st0(1)] st0 by auto
  have l: "in_grp sg l" using assms(4,5) wf(2) by (simp add: in_grp_def)
  obtain p1 p2 where p: "MakePartition l sg = Inr (p1, p2)" "distinct p1" "length p1 = k + 1" "length p2 = k"
    "l \<in> set p2" "set p1 \<inter> set p2 = {}" "set p1 \<union> set p2 = {i. in_grp sg i}"
    by (rule MakePartition_parts [OF wf(2) assms(3) l])
  obtain nw' sg' where P: "Partition p1 p2 (nw, sg) = Inr (nw', sg')"
    and s: "sides sg (set p1) (set p1) (set p2) (nw', sg')"
    using Partition_sides [OF wf(1) _ p(6)] p(7) by auto
  have part: "in_grp sg j \<Longrightarrow> j \<in> set p1 \<or> j \<in> set p2" for j using p(7) by blast
  have "{j. in_grp sg j \<and> enabled nw' (link sg l j)} \<subseteq> set p2"
    "{j. in_grp sg j \<and> enabled nw' (link sg j l)} \<subseteq> set p2"
    using s p(5) part by (auto simp: sides_def) (blast dest: part)+
  moreover have "card (set p2) \<le> k" using card_length [of p2] p(4) by simp
  ultimately have "card {j. in_grp sg j \<and> enabled nw' (link sg l j)} \<le> k"
    "card {j. in_grp sg j \<and> enabled nw' (link sg j l)} \<le> k"
    by (meson List.finite_set card_mono le_trans)+
  moreover have "\<forall>i \<in> set p1. \<forall>j \<in> set p1. enabled nw' (link sg i j)" using s by (simp add: sides_def)
  ultimately show ?thesis using p(1,2,3) P distinct_card [OF p(2)] by auto
qed

text \<open>
  With an even number of servers the second slice has a place that the loop never fills: it
  keeps the zero it was made with, and server 0 ends up on both sides.
\<close>

lemma MakePartition_even_overlaps:
  assumes "length (srvs sg) = 4"
  shows "MakePartition 1 sg = Inr ([0, 2, 3], [0, 1])"
proof -
  have "fold_go (place 1) (map int [0..<4]) (0 # replicate 2 0, replicate 2 0, 0) = Inr ([0, 2, 3], [0, 0], 3)"
    by code_simp
  then show ?thesis
    by (simp add: MakePartition_def Let_def assms go_update_def)
qed

section \<open>What a server has saved\<close>







lemma process_keeps_state [simp]: "DaemonClnt_init p = p" "checkpointPersister p = p"
  by (simp_all add: DaemonClnt_init_def DaemonSrv_Init_def checkpointPersister_def Save_def
      DaemonSrv_CheckpointPersister_def ReadRaftState_def ReadSnapshot_def clone_def MakePersister_def)






section \<open>The ends of a clerk\<close>

datatype clnt_event =
    MakeEndEv string string
  | ConnectAllEv
  | DisconnectAllEv
  | ConnectToEv "string list"

fun clnt_step :: "clnt_event \<Rightarrow> clnt_state \<Rightarrow> clnt_state go" where
  "clnt_step (MakeEndEv rand server) st = bind_go (Clnt_makeEnd rand server st) (\<lambda>(st, e). Inr st)"
| "clnt_step ConnectAllEv st = Inr (Clnt_ConnectAll st)"
| "clnt_step DisconnectAllEv st = Inr (Clnt_DisconnectAll st)"
| "clnt_step (ConnectToEv ss) st = Inr (Clnt_ConnectTo ss st)"

text \<open>A call of \<^verbatim>\<open>ConnectTo\<close> that does not take away a server the clerk was allowed to reach.\<close>

fun widening :: "clnt_event list \<Rightarrow> clnt_state \<Rightarrow> bool" where
  "widening [] st = True"
| "widening (ev # evs) st =
     ((case ev of ConnectToEv ss \<Rightarrow> (\<forall>srv \<in> fst ` set (cl_ends (snd st)). allowedL srv (snd st) \<longrightarrow> srv \<in> set ss)
       | _ \<Rightarrow> True)
      \<and> (case clnt_step ev st of Inl _ \<Rightarrow> True | Inr st' \<Rightarrow> widening evs st'))"

definition reaches :: "Network \<Rightarrow> string \<Rightarrow> string \<Rightarrow> bool" where
  "reaches nw e server = (enabled nw e \<and> connections nw e = Some server)"

definition clnt_inv :: "clnt_state \<Rightarrow> bool" where
  "clnt_inv st = (case st of (nw, clnt) \<Rightarrow> distinct (map snd (cl_ends clnt)) \<and>
     (\<forall>srv e. (srv, e) \<in> set (cl_ends clnt) \<longrightarrow> ends nw e \<noteq> None
        \<and> connections nw e = Some srv \<and> enabled nw e = allowedL srv clnt))"

lemma enable_ends_effect: "enable_ends b es nw = set_links b (set es) nw"
proof (induction es arbitrary: nw)
  case (Cons e es)
  then show ?case by simp (rule Network.equality, auto simp: set_links_def Enable_def)
qed (simp add: set_links_def)

lemma clnt_step_inv:
  assumes inv: "clnt_inv st" and step: "clnt_step ev st = Inr st'" and wide: "widening [ev] st"
  shows "clnt_inv st'"
proof -
  obtain nw clnt where st: "st = (nw, clnt)" by (cases st)
  have seen: "e \<in> snd ` set (cl_ends clnt)" if "(srv, e) \<in> set (cl_ends clnt)" for srv e
    using that by force
  show ?thesis
  proof (cases ev)
    case (MakeEndEv rand server)
    have "(srv, rand) \<notin> set (cl_ends clnt)" if "ends nw rand = None" for srv
      using that inv st by (force simp: clnt_inv_def)
    with MakeEndEv show ?thesis
      using inv step st
      by (auto simp: clnt_inv_def Clnt_makeEnd_def MakeEnd_def Connect_def Enable_def allowedL_def Let_def
          split: option.splits if_splits)
  next
    case (ConnectToEv ss)
    have con: "connections nw e = Some srv" if "(srv, e) \<in> set (cl_ends clnt)" for srv e
      using that inv st by (simp add: clnt_inv_def)
    have names: "srv = srv'" if "(srv, e) \<in> set (cl_ends clnt)" "(srv', e) \<in> set (cl_ends clnt)" for srv e srv'
      using con [OF that(1)] con [OF that(2)] by simp
    define E where "E = snd ` {x \<in> set (cl_ends clnt). fst x \<in> set ss}"
    have st': "st' = (set_links True E nw, clnt\<lparr>cl_srvs := Some ss\<rparr>)"
      using step st ConnectToEv
      by (simp add: Clnt_ConnectTo_def enable_ends_effect allowedL_def Let_def E_def case_prod_unfold)
    have "e \<in> E \<longleftrightarrow> srv \<in> set ss" if mem: "(srv, e) \<in> set (cl_ends clnt)" for srv e
    proof
      assume "e \<in> E"
      then obtain srv' where "(srv', e) \<in> set (cl_ends clnt)" "srv' \<in> set ss" by (auto simp: E_def)
      with names [OF mem] show "srv \<in> set ss" by blast
    next
      assume "srv \<in> set ss"
      with mem have "(srv, e) \<in> {x \<in> set (cl_ends clnt). fst x \<in> set ss}" by simp
      then show "e \<in> E" unfolding E_def by (rule rev_image_eqI) simp
    qed
    moreover have "enabled nw e \<longrightarrow> srv \<in> set ss" if "(srv, e) \<in> set (cl_ends clnt)" for srv e
      using that inv wide ConnectToEv st by (force simp: clnt_inv_def)
    ultimately show ?thesis
      using inv st by (auto simp: st' clnt_inv_def allowedL_def [of _ "clnt\<lparr>cl_srvs := Some ss\<rparr>"])
  qed (use inv step st in \<open>auto simp: clnt_inv_def Clnt_ConnectAll_def Clnt_DisconnectAll_def
      enable_ends_effect allowedL_def seen split: if_splits\<close>)
qed

text \<open>
  A clerk that starts without ends reaches, through the ends it has made, exactly the
  servers it is allowed to reach, after any calls of \<^verbatim>\<open>makeEnd\<close>, \<^verbatim>\<open>ConnectAll\<close> and
  \<^verbatim>\<open>DisconnectAll\<close>, and calls of \<^verbatim>\<open>ConnectTo\<close> that only add servers.
\<close>

theorem clerk_reaches_allowed_servers:
  assumes "fold_go clnt_step evs (nw, makeClntTo ss) = Inr (nw', clnt)"
    and "widening evs (nw, makeClntTo ss)" and "(server, e) \<in> set (cl_ends clnt)"
  shows "reaches nw' e server = allowedL server clnt"
proof -
  have "clnt_inv st \<Longrightarrow> fold_go clnt_step evs st = Inr st' \<Longrightarrow> widening evs st \<Longrightarrow> clnt_inv st'" for st st'
  proof (induction evs arbitrary: st)
    case (Cons ev evs)
    from Cons.prems(2) obtain st1 where 1: "clnt_step ev st = Inr st1" "fold_go clnt_step evs st1 = Inr st'"
      by auto
    with Cons.prems(3) have "widening [ev] st" "widening evs st1" by simp_all
    with Cons.IH [OF clnt_step_inv [OF Cons.prems(1) 1(1)] 1(2)] show ?case by simp
  qed simp
  from this [OF _ assms(1,2)] have "clnt_inv (nw', clnt)" by (simp add: clnt_inv_def makeClntTo_def)
  with assms(3) show ?thesis by (auto simp: clnt_inv_def reaches_def)
qed

text \<open>
  Otherwise \<^verbatim>\<open>ConnectTo\<close> leaves the ends to the other servers enabled: the clerk still reaches
  a server it is no longer allowed to reach.
\<close>

lemma ConnectTo_keeps_old_servers:
  "\<exists>nw clnt. fold_go clnt_step [MakeEndEv ''e'' ''a'', ConnectToEv [''b'']] (MakeNetwork, makeClntTo None)
      = Inr (nw, clnt)
    \<and> map_of (cl_ends clnt) ''a'' = Some ''e'' \<and> reaches nw ''e'' ''a'' \<and> \<not> allowedL ''a'' clnt"
  by (simp add: Clnt_makeEnd_def makeClntTo_def MakeEnd_def MakeNetwork_def Connect_def Enable_def
      Clnt_ConnectTo_def allowedL_def reaches_def Let_def)

section \<open>Instances\<close>

text \<open>
  A group of three servers whose ends are numbered; server 1 saves its state, is shut down,
  and starts again with new ends.
\<close>

definition demo_names :: "nat \<Rightarrow> nat \<Rightarrow> string" where
  "demo_names i j = itoa (10 * i + j)"

definition demo_grp_events :: "(nat, nat) grp_event list" where
  "demo_grp_events = [StartEv (demo_names 3) True 0 1, ConnectEv 1, SaveEv 1 [7] [8], ShutdownEv 1,
     SaveEv 1 [9] [9], StartEv (demo_names 4) True 1 1, ConnectEv 0, ConnectEv 1]"

lemmas demo_grp_defs = StartServer_def Server_startServer_def makeServer_def make_one_end_def
  MakeEnd_def Connect_def Enable_def AddServer_def DeleteServer_def Let_def ConnectOne_def
  grp_connect_def grp_disconnect_def Server_connect_def Server_disconnect_def ShutdownServer_def
  Server_shutdownServer_def server_saves_def IsConnected_def grp_all_def upt_rec eval_nat_numeral

lemma demo_grp_made: "returns (makeSrvGrp demo_names 0 3 MakeNetwork)"
  by (simp add: makeSrvGrp_def make_one_server_def demo_names_def MakeNetwork_def demo_grp_defs)

lemma demo_grp_runs:
  "\<exists>st0 nw sg. makeSrvGrp demo_names 0 3 MakeNetwork = Inr st0 \<and> grp_run demo_grp_events st0 = Inr (nw, sg)"
  by (simp add: makeSrvGrp_def make_one_server_def demo_names_def MakeNetwork_def demo_grp_defs
     grp_run_def demo_grp_events_def go_nth_def go_update_def)

theorem Partition_separates_witness:
  "\<exists>st0 nw sg nw' sg'. makeSrvGrp demo_names 0 3 MakeNetwork = Inr st0
    \<and> grp_run demo_grp_events st0 = Inr (nw, sg) \<and> Partition [0, 2] [1] (nw, sg) = Inr (nw', sg')
    \<and> enabled nw' (link sg 0 2) \<and> \<not> enabled nw' (link sg 0 1) \<and> \<not> enabled nw' (link sg 1 2)"
proof -
  obtain st0 nw sg where 1: "makeSrvGrp demo_names 0 3 MakeNetwork = Inr st0"
    and 2: "grp_run demo_grp_events st0 = Inr (nw, sg)" using demo_grp_runs by blast
  from Partition_separates [OF 1 2, of "[0, 2]" "[1]"] 1 2 show ?thesis
    by (auto simp: readEndnameInfo_def Let_def)
qed

theorem MakePartition_isolates_leader_witness:
  "\<exists>st0 nw sg p1 p2 nw' sg'. makeSrvGrp demo_names 0 3 MakeNetwork = Inr st0
    \<and> grp_run demo_grp_events st0 = Inr (nw, sg) \<and> MakePartition 1 sg = Inr (p1, p2)
    \<and> Partition p1 p2 (nw, sg) = Inr (nw', sg') \<and> card (set p1) = 2
    \<and> card {j. in_grp sg j \<and> enabled nw' (link sg 1 j)} \<le> 1"
proof -
  obtain st0 nw sg where 1: "makeSrvGrp demo_names 0 3 MakeNetwork = Inr st0"
    and 2: "grp_run demo_grp_events st0 = Inr (nw, sg)" using demo_grp_runs by blast
  have "makeSrvGrp demo_names 0 (2 * 1 + 1) MakeNetwork = Inr st0" using 1 by simp
  from MakePartition_isolates_leader [OF this 2, of 1] 1 2 show ?thesis
    by (auto simp: numeral_2_eq_2)
qed


theorem clerk_reaches_allowed_servers_witness:
  "\<exists>nw clnt. fold_go clnt_step [MakeEndEv ''e'' ''a'', DisconnectAllEv, MakeEndEv ''f'' ''b'',
        ConnectToEv [''b'']] (MakeNetwork, makeClntTo None) = Inr (nw, clnt)
    \<and> \<not> reaches nw ''e'' ''a'' \<and> reaches nw ''f'' ''b''"
proof -
  let ?evs = "[MakeEndEv ''e'' ''a'', DisconnectAllEv, MakeEndEv ''f'' ''b'', ConnectToEv [''b'']]"
  note defs = Clnt_makeEnd_def makeClntTo_def MakeEnd_def MakeNetwork_def Connect_def Enable_def
    Clnt_ConnectTo_def Clnt_DisconnectAll_def allowedL_def Let_def
  obtain nw clnt where run: "fold_go clnt_step ?evs (MakeNetwork, makeClntTo None) = Inr (nw, clnt)"
    by (simp add: defs)
  then have clnt: "clnt = \<lparr>cl_ends = [(''a'', ''e''), (''b'', ''f'')], cl_srvs = Some [''b'']\<rparr>"
    by (auto simp: defs)
  have "widening ?evs (MakeNetwork, makeClntTo None)" by (simp add: defs)
  from clerk_reaches_allowed_servers [OF run this] run show ?thesis
    by (auto simp: clnt allowedL_def)
qed

end
