(* ===== verification/KvTest.thy ===== *)
theory KvTest
  imports KvClerk "HOL-Library.Sublist"
begin

text \<open>
  The append test of \<^verbatim>\<open>src/src/kvtest1/kvtest.go\<close>: many clients append tuples to the list
  stored under one key, each by a Get and a conditional Put through the clerk of the
  single server, and \<^verbatim>\<open>CheckAppends\<close> inspects the final list.  The clients, the retries of
  their clerks and the server interleave; \<open>enc\<close> and \<open>dec\<close> stand for \<^verbatim>\<open>json.Marshal\<close> and
  \<^verbatim>\<open>json.Unmarshal\<close> on lists of tuples.
\<close>

section \<open>The clients\<close>

type_synonym entries = "(int \<times> int) list" \<comment> \<open>\<^verbatim>\<open>Id\<close> and \<^verbatim>\<open>N\<close>\<close>

text \<open>
  Where \<^verbatim>\<open>OneClientAppend\<close> stands: at the head of its outer loop, where it looks at \<^verbatim>\<open>done\<close>;
  at the head of the inner loop; with the list and version it has read; in the clerk's Put,
  whose first call has failed or not; returned.
\<close>

datatype append_pc =
    OuterLoop
  | InnerLoop
  | HasRead entries Tversion
  | InPut entries Tversion bool
  | Finished

record append_client =
  ac_i :: int
  ac_nok :: int
  ac_nmay :: int
  ac_pc :: append_pc

record ClntRes =
  Nok :: int
  Nmaybe :: int

definition result_of_client :: "append_client \<Rightarrow> ClntRes" where
  "result_of_client c = \<lparr>Nok = ac_nok c, Nmaybe = ac_nmay c\<rparr>"

definition GetJson :: "(string \<Rightarrow> 'a option) \<Rightarrow> string \<Rightarrow> KVServer \<Rightarrow> ('a \<times> Tversion) go" where
  "GetJson dec key kv =
     (let r = KVServer_Get \<lparr>ga_Key = key\<rparr> kv in
      if gr_Err r = OK then
        (case dec (gr_Value r) of
           None \<Rightarrow> Inl (Fatal ''Unmarshal err'') | Some es \<Rightarrow> Inr (es, gr_Version r))
      else Inl (Fatal ''Get err''))"

definition append_get ::
  "(string \<Rightarrow> entries option) \<Rightarrow> KVServer \<Rightarrow> append_client \<Rightarrow> append_client go" where
  "append_get dec kv c =
     (case ac_pc c of
        InnerLoop \<Rightarrow> bind_go (GetJson dec ''k'' kv) (\<lambda>(es, ver). Inr (c\<lparr>ac_pc := HasRead es ver\<rparr>))
      | _ \<Rightarrow> Inr c)"

text \<open>What the client does with the verdict of its clerk.\<close>

definition append_verdict :: "Err \<Rightarrow> append_client \<Rightarrow> append_client" where
  "append_verdict err c =
     (if err = OK then c\<lparr>ac_nok := ac_nok c + 1, ac_i := ac_i c + 1, ac_pc := OuterLoop\<rparr>
      else if err = ErrMaybe then c\<lparr>ac_nmay := ac_nmay c + 1, ac_i := ac_i c + 1, ac_pc := OuterLoop\<rparr>
      else c\<lparr>ac_pc := InnerLoop\<rparr>)"

text \<open>
  One call of the clerk's Put: the server executes a request that arrives; the first call
  passes the answer on, a later one turns \<^verbatim>\<open>ErrVersion\<close> into \<^verbatim>\<open>ErrMaybe\<close>.
\<close>

definition append_call ::
  "(entries \<Rightarrow> string) \<Rightarrow> nat \<Rightarrow> outcome \<Rightarrow> KVServer \<Rightarrow> append_client \<Rightarrow> KVServer \<times> append_client" where
  "append_call enc cli out kv c =
     (case ac_pc c of
        InPut es ver again \<Rightarrow>
          (let args = \<lparr>pa_Key = ''k'', pa_Value = enc (es @ [(int cli, ac_i c)]), pa_Version = ver\<rparr>;
               (kv', r) = (if out = RequestLost then (kv, PutReply0) else KVServer_Put args kv)
           in if out = Delivered
              then (kv', append_verdict (if again \<and> pr_Err r = ErrVersion then ErrMaybe else pr_Err r) c)
              else (kv', c\<lparr>ac_pc := InPut es ver True\<rparr>))
      | _ \<Rightarrow> (kv, c))"

definition append_start :: "append_client \<Rightarrow> append_client" where
  "append_start c = (case ac_pc c of HasRead es ver \<Rightarrow> c\<lparr>ac_pc := InPut es ver False\<rparr> | _ \<Rightarrow> c)"

definition append_loop :: "bool \<Rightarrow> append_client \<Rightarrow> append_client" where
  "append_loop stop c =
     (if ac_pc c = OuterLoop then c\<lparr>ac_pc := (if stop then Finished else InnerLoop)\<rparr> else c)"

record append_sys =
  as_kv :: KVServer
  as_clients :: "append_client list"

datatype append_event = LoopHead nat bool | ReadList nat | StartPut nat | TryPut nat outcome

fun append_step ::
  "(entries \<Rightarrow> string) \<Rightarrow> (string \<Rightarrow> entries option) \<Rightarrow> append_event \<Rightarrow> append_sys \<Rightarrow> append_sys go" where
  "append_step enc dec (LoopHead c stop) s = Inr (if c < length (as_clients s)
     then s\<lparr>as_clients := (as_clients s)[c := append_loop stop (as_clients s ! c)]\<rparr> else s)"
| "append_step enc dec (ReadList c) s = (if c < length (as_clients s)
     then bind_go (append_get dec (as_kv s) (as_clients s ! c)) (\<lambda>c'.
            Inr (s\<lparr>as_clients := (as_clients s)[c := c']\<rparr>)) else Inr s)"
| "append_step enc dec (StartPut c) s = Inr (if c < length (as_clients s)
     then s\<lparr>as_clients := (as_clients s)[c := append_start (as_clients s ! c)]\<rparr> else s)"
| "append_step enc dec (TryPut c out) s = Inr (if c < length (as_clients s)
     then (case append_call enc c out (as_kv s) (as_clients s ! c) of (kv, c') \<Rightarrow>
             \<lparr>as_kv = kv, as_clients = (as_clients s)[c := c']\<rparr>) else s)"

fun append_run ::
  "(entries \<Rightarrow> string) \<Rightarrow> (string \<Rightarrow> entries option) \<Rightarrow> append_event list \<Rightarrow> append_sys \<Rightarrow> append_sys go" where
  "append_run enc dec [] s = Inr s"
| "append_run enc dec (e # es) s = bind_go (append_step enc dec e s) (append_run enc dec es)"

text \<open>The test stores the empty list, with version 1, before it starts the clients.\<close>

definition append_init :: "(entries \<Rightarrow> string) \<Rightarrow> nat \<Rightarrow> append_sys" where
  "append_init enc n =
     \<lparr>as_kv = fst (KVServer_Put \<lparr>pa_Key = ''k'', pa_Value = enc [], pa_Version = 0\<rparr> MakeKVServer),
      as_clients = replicate n \<lparr>ac_i = 0, ac_nok = 0, ac_nmay = 0, ac_pc = OuterLoop\<rparr>\<rparr>"

section \<open>The check\<close>

definition check_entry :: "int \<times> int \<Rightarrow> (int \<Rightarrow> int) \<times> (int \<Rightarrow> int) \<Rightarrow> ((int \<Rightarrow> int) \<times> (int \<Rightarrow> int)) go" where
  "check_entry e st =
     (case (e, st) of ((ident, n), (expect, skipped)) \<Rightarrow>
        if expect ident > n then Inl (Fatal ''wrong expecting'')
        else if expect ident = n then Inr (expect(ident := expect ident + 1), skipped)
        else Inr (expect(ident := n + 1), skipped(ident := skipped ident + (n - expect ident))))"

fun check_entries :: "entries \<Rightarrow> (int \<Rightarrow> int) \<times> (int \<Rightarrow> int) \<Rightarrow> ((int \<Rightarrow> int) \<times> (int \<Rightarrow> int)) go" where
  "check_entries [] st = Inr st"
| "check_entries (e # es) st = bind_go (check_entry e st) (check_entries es)"

fun check_clients :: "int list \<Rightarrow> ClntRes list \<Rightarrow> (int \<Rightarrow> int) \<times> (int \<Rightarrow> int) \<Rightarrow> unit go" where
  "check_clients [] rs st = Inr ()"
| "check_clients (c # cs) rs st = bind_go (go_nth rs c) (\<lambda>r.
     if snd st c > Nmaybe r then Inl (Fatal ''skipped puts on server > maybe'')
     else if fst st c > Nok r + Nmaybe r then Inl (Fatal ''puts on server > ok+maybe'')
     else check_clients cs rs st)"

text \<open>
  The last loop visits the keys of the map \<^verbatim>\<open>expect\<close>: the clients and the identifiers found in
  the list; \<open>ids\<close> is the order of the visit.
\<close>

definition CheckAppends :: "int list \<Rightarrow> entries \<Rightarrow> ClntRes list \<Rightarrow> Tversion \<Rightarrow> unit go" where
  "CheckAppends ids es rs ver =
     bind_go (check_entries es (\<lambda>_. 0, \<lambda>_. 0)) (\<lambda>st.
       if int (length es) + 1 \<noteq> sint ver then Inl (Fatal ''appends in val != puts on server'')
       else check_clients ids rs st)"

section \<open>Every run passes the check\<close>

text \<open>The numbers a client has in the list.\<close>

definition present :: "nat \<Rightarrow> entries \<Rightarrow> int list" where
  "present c es = map snd (filter (\<lambda>e. fst e = int c) es)"

lemma present_snoc:
  "present c (es @ [(int d, n)]) = (if d = c then present c es @ [n] else present c es)"
  by (simp add: present_def)

definition below :: "nat \<Rightarrow> int \<Rightarrow> entries \<Rightarrow> bool" where
  "below c i es = (\<forall>n \<in> set (present c es). n < i)"

text \<open>What a client knows, and whether its current append is in the list.\<close>

fun pc_inv :: "nat \<Rightarrow> int \<Rightarrow> entries \<Rightarrow> append_pc \<Rightarrow> bool" where
  "pc_inv c i es (HasRead es0 ver) =
     (prefix es0 es \<and> ver = of_nat (length es0 + 1) \<and> below c i es)"
| "pc_inv c i es (InPut es0 ver again) =
     (prefix es0 es \<and> ver = of_nat (length es0 + 1)
      \<and> (below c i es \<or> again \<and> prefix (es0 @ [(int c, i)]) es \<and> below c (i + 1) es))"
| "pc_inv c i es _ = below c i es"

definition appender_inv :: "nat \<Rightarrow> append_client \<Rightarrow> entries \<Rightarrow> bool" where
  "appender_inv c cl es =
     (ac_nok cl + ac_nmay cl = ac_i cl \<and> 0 \<le> ac_i cl
      \<and> sorted_wrt (<) (present c es) \<and> (\<forall>n \<in> set (present c es). 0 \<le> n)
      \<and> ac_nok cl \<le> int (length (filter (\<lambda>n. n < ac_i cl) (present c es)))
      \<and> pc_inv c (ac_i cl) es (ac_pc cl))"

definition append_inv :: "(entries \<Rightarrow> string) \<Rightarrow> nat \<Rightarrow> append_sys \<Rightarrow> entries \<Rightarrow> bool" where
  "append_inv enc k s es =
     (table (as_kv s) ''k'' = Some \<lparr>Value = enc es, Version = of_nat (length es + 1)\<rparr>
      \<and> length es \<le> k
      \<and> (\<forall>e \<in> set es. 0 \<le> fst e \<and> fst e < int (length (as_clients s)))
      \<and> (\<forall>c < length (as_clients s). appender_inv c (as_clients s ! c) es))"

lemma version_unique:
  assumes "(of_nat (length xs + 1) :: Tversion) = of_nat (length ys + 1)"
    and "length xs < 2 ^ 63 - 1" "length ys < 2 ^ 63 - 1"
  shows "length xs = length ys"
proof -
  have "unat (of_nat (length zs + 1) :: Tversion) = length zs + 1"
    if "length zs < 2 ^ 63 - 1" for zs :: "'c list"
    using that by (simp add: unat_of_nat del: of_nat_Suc of_nat_add)
  from this [of xs] this [of ys] assms show ?thesis
    by (metis add_right_cancel length_map)
qed

lemma appender_inv_pc:
  assumes "appender_inv c cl es" and "pc_inv c (ac_i cl) es pc"
  shows "appender_inv c (cl\<lparr>ac_pc := pc\<rparr>) es"
  using assms by (simp add: appender_inv_def)

text \<open>An append of another client leaves what a client knows intact.\<close>

lemma pc_inv_other: "pc_inv c i es pc \<Longrightarrow> c \<noteq> d \<Longrightarrow> pc_inv c i (es @ [(int d, n)]) pc"
  by (cases "(c, i, es, pc)" rule: pc_inv.cases)
    (auto simp: below_def present_snoc prefix_def)

lemma appender_inv_other:
  "appender_inv c cl es \<Longrightarrow> c \<noteq> d \<Longrightarrow> appender_inv c cl (es @ [(int d, n)])"
  by (auto simp: appender_inv_def present_snoc intro: pc_inv_other)

lemma append_inv_client:
  assumes "append_inv enc k s es" and "appender_inv c cl es"
  shows "append_inv enc k (s\<lparr>as_clients := (as_clients s)[c := cl]\<rparr>) es"
  using assms by (auto simp: append_inv_def) (metis nth_list_update_eq nth_list_update_neq)

lemma append_inv_mono: "append_inv enc k s es \<Longrightarrow> k \<le> k' \<Longrightarrow> append_inv enc k' s es"
  by (simp add: append_inv_def)

subsection \<open>The steps of a client\<close>

lemma loop_inv: "appender_inv c cl es \<Longrightarrow> appender_inv c (append_loop stop cl) es"
  by (auto simp: append_loop_def appender_inv_def)

lemma start_inv: "appender_inv c cl es \<Longrightarrow> appender_inv c (append_start cl) es"
  by (auto simp: append_start_def appender_inv_def split: append_pc.splits)

lemma get_inv:
  assumes "append_inv enc k s es" and "\<And>x. dec (enc x) = Some x"
    and "appender_inv c cl es"
  shows "\<exists>cl'. append_get dec (as_kv s) cl = Inr cl' \<and> appender_inv c cl' es"
proof (cases "ac_pc cl = InnerLoop")
  case True
  have "GetJson dec ''k'' (as_kv s) = Inr (es, of_nat (length es + 1))"
    using assms(1,2) by (simp add: GetJson_def KVServer_Get_def append_inv_def GetReply0_def)
  moreover have "below c (ac_i cl) es"
    using assms(3) True by (simp add: appender_inv_def)
  ultimately show ?thesis
    using True assms(3) by (simp add: append_get_def appender_inv_pc)
next
  case False
  then have "append_get dec (as_kv s) cl = Inr cl"
    by (auto simp: append_get_def split: append_pc.splits)
  with assms(3) show ?thesis by simp
qed

text \<open>The verdict: an append that was performed has been counted, or the answer is \<^verbatim>\<open>ErrMaybe\<close>.\<close>

lemma filter_all_below: "below c i es \<Longrightarrow> filter (\<lambda>n. n < i) (present c es) = present c es"
  by (simp add: below_def filter_id_conv)

lemma filter_grows: "i \<le> j \<Longrightarrow>
  length (filter (\<lambda>n. n < (i :: int)) xs) \<le> length (filter (\<lambda>n. n < j) xs)"
  by (induction xs) auto

lemma verdict_retry:
  "appender_inv c cl es \<Longrightarrow> below c (ac_i cl) es \<Longrightarrow> err \<noteq> OK \<Longrightarrow> err \<noteq> ErrMaybe
   \<Longrightarrow> appender_inv c (append_verdict err cl) es"
  by (auto simp: append_verdict_def appender_inv_def)

lemma verdict_maybe:
  assumes "appender_inv c cl es" and "below c (ac_i cl + 1) es"
  shows "appender_inv c (append_verdict ErrMaybe cl) es"
  using assms filter_grows [of "ac_i cl" "ac_i cl + 1" "present c es"]
  by (auto simp: append_verdict_def appender_inv_def)

lemma verdict_ok:
  assumes "appender_inv c cl es" and "below c (ac_i cl) es"
  shows "appender_inv c (append_verdict OK cl) (es @ [(int c, ac_i cl)])"
proof -
  have sorted: "sorted_wrt (<) (present c es @ [ac_i cl])"
    using assms by (auto simp: appender_inv_def sorted_wrt_append below_def)
  have b: "below c (ac_i cl + 1) (es @ [(int c, ac_i cl)])"
    using assms(2) by (auto simp: below_def present_snoc)
  have "ac_nok cl \<le> int (length (present c es))"
    using assms by (simp add: appender_inv_def filter_all_below)
  with assms(1) sorted b filter_all_below [OF b] show ?thesis
    by (auto simp: appender_inv_def append_verdict_def present_snoc)
qed

lemma performed_inv:
  assumes "appender_inv c cl es" and "below c (ac_i cl) es"
    and "ver = of_nat (length es + 1)"
  shows "appender_inv c (cl\<lparr>ac_pc := InPut es ver True\<rparr>) (es @ [(int c, ac_i cl)])"
proof -
  have "sorted_wrt (<) (present c es @ [ac_i cl])"
    using assms by (auto simp: appender_inv_def sorted_wrt_append below_def)
  moreover have "below c (ac_i cl + 1) (es @ [(int c, ac_i cl)])"
    using assms(2) by (auto simp: below_def present_snoc)
  ultimately show ?thesis
    using assms by (auto simp: appender_inv_def present_snoc filter_all_below)
qed

lemma in_put:
  assumes "append_inv enc k s es" "c < length (as_clients s)"
    and "ac_pc (as_clients s ! c) = InPut es0 ver again"
  shows "appender_inv c (as_clients s ! c) es" "prefix es0 es" "ver = of_nat (length es0 + 1)"
    "below c (ac_i (as_clients s ! c)) es
     \<or> again \<and> prefix (es0 @ [(int c, ac_i (as_clients s ! c))]) es
        \<and> below c (ac_i (as_clients s ! c) + 1) es"
    "table (as_kv s) ''k'' = Some \<lparr>Value = enc es, Version = of_nat (length es + 1)\<rparr>"
  using assms by (force simp: append_inv_def appender_inv_def)+

abbreviation after_call :: "(entries \<Rightarrow> string) \<Rightarrow> nat \<Rightarrow> outcome \<Rightarrow> append_sys \<Rightarrow> append_sys" where
  "after_call enc c out s \<equiv> (case append_call enc c out (as_kv s) (as_clients s ! c) of
     (kv, cl) \<Rightarrow> \<lparr>as_kv = kv, as_clients = (as_clients s)[c := cl]\<rparr>)"

text \<open>A request that arrives while the list is the one the client has read appends the tuple.\<close>

lemma call_performs:
  assumes inv: "append_inv enc k s es" and c: "c < length (as_clients s)"
    and InPut: "ac_pc (as_clients s ! c) = InPut es ver again" and out: "out \<noteq> RequestLost"
  shows "append_inv enc (Suc k) (after_call enc c out s) (es @ [(int c, ac_i (as_clients s ! c))])"
proof -
  define cl where "cl = as_clients s ! c"
  define i where "i = ac_i cl"
  define args where "args = \<lparr>pa_Key = ''k'', pa_Value = enc (es @ [(int c, i)]), pa_Version = ver\<rparr>"
  define kv where "kv = (as_kv s)\<lparr>table := (table (as_kv s))(''k'' \<mapsto>
    \<lparr>Value = enc (es @ [(int c, i)]), Version = ver + 1\<rparr>)\<rparr>"
  note pc = in_put [OF inv c InPut, folded cl_def, folded i_def]
  have below: "below c i es" using pc(4) by (auto simp: prefix_def)
  have put: "KVServer_Put args (as_kv s) = (kv, PutReply0\<lparr>pr_Err := OK\<rparr>)"
    using pc(3,5) by (simp add: KVServer_Put_def args_def kv_def)
  have grown: "append_inv enc (Suc k) \<lparr>as_kv = kv, as_clients = (as_clients s)[c := cl']\<rparr>
      (es @ [(int c, i)])" if "appender_inv c cl' (es @ [(int c, i)])" for cl'
    using inv that pc(3) c by (auto simp: append_inv_def kv_def nth_list_update intro: appender_inv_other)
  show ?thesis
  proof (cases "out = Delivered")
    case True
    have "append_call enc c out (as_kv s) cl = (kv, append_verdict OK cl)"
      using InPut True put by (simp add: append_call_def cl_def [symmetric] args_def i_def PutReply0_def)
    with grown [OF verdict_ok [OF pc(1) below [unfolded i_def], folded i_def]] show ?thesis
      by (simp add: cl_def [symmetric] i_def)
  next
    case False
    have "append_call enc c out (as_kv s) cl = (kv, cl\<lparr>ac_pc := InPut es ver True\<rparr>)"
      using InPut False put out by (simp add: append_call_def cl_def [symmetric] args_def i_def)
    with grown [OF performed_inv [OF pc(1) below [unfolded i_def] pc(3), folded i_def]] show ?thesis
      by (simp add: cl_def [symmetric] i_def)
  qed
qed

text \<open>A request that is lost or comes too late leaves the list as it is.\<close>

lemma stale_put:
  assumes inv: "append_inv enc k s es" and k: "k < 2 ^ 63 - 1"
    and "prefix es0 es" "es0 \<noteq> es" "ver = of_nat (length es0 + 1)"
  shows "KVServer_Put \<lparr>pa_Key = ''k'', pa_Value = v, pa_Version = ver\<rparr> (as_kv s)
         = (as_kv s, PutReply0\<lparr>pr_Err := ErrVersion\<rparr>)"
proof -
  have "length es0 < length es" using assms(3,4) by (auto simp: prefix_def)
  then have "(of_nat (length es + 1) :: Tversion) \<noteq> of_nat (length es0 + 1)"
    using version_unique [of es es0] inv k by (auto simp: append_inv_def)
  then show ?thesis using inv assms(5) by (simp add: KVServer_Put_def append_inv_def)
qed

lemma call_fails:
  assumes inv: "append_inv enc k s es" and c: "c < length (as_clients s)" and k: "k < 2 ^ 63 - 1"
    and InPut: "ac_pc (as_clients s ! c) = InPut es0 ver again"
    and out: "out = RequestLost \<or> es0 \<noteq> es"
  shows "append_inv enc (Suc k) (after_call enc c out s) es"
proof -
  define cl where "cl = as_clients s ! c"
  define i where "i = ac_i cl"
  note pc = in_put [OF inv c InPut, folded cl_def, folded i_def]
  have stay: "append_inv enc (Suc k) \<lparr>as_kv = as_kv s, as_clients = (as_clients s)[c := cl']\<rparr> es"
    if "appender_inv c cl' es" for cl'
    using append_inv_mono [OF append_inv_client [OF inv that], of "Suc k"]
    by (simp add: append_inv_def)
  have put: "KVServer_Put \<lparr>pa_Key = ''k'', pa_Value = enc (es0 @ [(int c, i)]), pa_Version = ver\<rparr>
      (as_kv s) = (as_kv s, PutReply0\<lparr>pr_Err := ErrVersion\<rparr>)" if "out \<noteq> RequestLost"
    using stale_put [OF inv k pc(2) _ pc(3)] out that by blast
  show ?thesis
  proof (cases "out = Delivered")
    case True
    have "append_call enc c out (as_kv s) cl
        = (as_kv s, append_verdict (if again then ErrMaybe else ErrVersion) cl)"
      using InPut True put by (simp add: append_call_def cl_def [symmetric] i_def PutReply0_def)
    moreover have "below c (i + 1) es" using pc(4) by (auto simp: below_def)
    then have "appender_inv c (append_verdict (if again then ErrMaybe else ErrVersion) cl) es"
      using verdict_maybe [OF pc(1)] verdict_retry [OF pc(1)] pc(4) by (auto simp: i_def)
    ultimately show ?thesis using stay by (simp add: cl_def)
  next
    case False
    have "append_call enc c out (as_kv s) cl = (as_kv s, cl\<lparr>ac_pc := InPut es0 ver True\<rparr>)"
      using InPut False put
      by (cases "out = RequestLost") (simp_all add: append_call_def cl_def [symmetric] i_def)
    moreover have "appender_inv c (cl\<lparr>ac_pc := InPut es0 ver True\<rparr>) es"
      using pc by (intro appender_inv_pc) (auto simp: i_def)
    ultimately show ?thesis using stay by (simp add: cl_def)
  qed
qed

lemma call_inv:
  assumes inv: "append_inv enc k s es" and c: "c < length (as_clients s)" and k: "k < 2 ^ 63 - 1"
  shows "\<exists>es'. append_inv enc (Suc k) (after_call enc c out s) es'"
proof (cases "\<exists>es0 ver again. ac_pc (as_clients s ! c) = InPut es0 ver again")
  case True
  then show ?thesis using call_performs [OF inv c] call_fails [OF inv c k] by blast
next
  case False
  then have "after_call enc c out s = \<lparr>as_kv = as_kv s, as_clients = as_clients s\<rparr>"
    by (auto simp: append_call_def split: append_pc.splits)
  with append_inv_mono [OF inv, of "Suc k"] show ?thesis
    by (auto simp: append_inv_def)
qed

subsection \<open>Runs\<close>

lemma append_step_inv:
  assumes inv: "append_inv enc k s es" and k: "k < 2 ^ 63 - 1" and codec: "\<And>x. dec (enc x) = Some x"
  shows "\<exists>s' es'. append_step enc dec e s = Inr s' \<and> append_inv enc (Suc k) s' es'
                 \<and> length (as_clients s') = length (as_clients s)"
proof -
  have same: "append_inv enc (Suc k) (s\<lparr>as_clients := (as_clients s)[c := cl]\<rparr>) es"
    if "appender_inv c cl es" for c cl
    using append_inv_mono [OF append_inv_client [OF inv that], of "Suc k"] by simp
  have cl: "appender_inv c (as_clients s ! c) es" if "c < length (as_clients s)" for c
    using inv that by (simp add: append_inv_def)
  note idle = append_inv_mono [OF inv, of "Suc k"]
  show ?thesis
  proof (cases e)
    case (LoopHead c stop)
    then show ?thesis using same [OF loop_inv [OF cl]] idle by auto
  next
    case (ReadList c)
    then show ?thesis using get_inv [OF inv codec cl] same idle by fastforce
  next
    case (StartPut c)
    then show ?thesis using same [OF start_inv [OF cl]] idle by auto
  next
    case (TryPut c out)
    then show ?thesis using call_inv [OF inv _ k, of c out] idle
      by (cases "c < length (as_clients s)") (auto split: prod.splits)
  qed
qed

lemma append_run_inv:
  assumes "append_inv enc k s es" and "k + length evs < 2 ^ 63 - 1" and "\<And>x. dec (enc x) = Some x"
  shows "\<exists>s' es'. append_run enc dec evs s = Inr s' \<and> append_inv enc (k + length evs) s' es'
                 \<and> length (as_clients s') = length (as_clients s)"
  using assms(1,2)
proof (induction evs arbitrary: k s es)
  case (Cons e evs)
  from append_step_inv [OF Cons.prems(1) _ assms(3), of e] Cons.prems(2)
  obtain s1 es1 where "append_step enc dec e s = Inr s1" "append_inv enc (Suc k) s1 es1"
    "length (as_clients s1) = length (as_clients s)" by auto
  with Cons.IH [of "Suc k" s1 es1] Cons.prems(2) show ?case by auto
qed auto

lemma append_init_inv: "append_inv enc 0 (append_init enc n) []"
  by (simp add: append_inv_def append_init_def KVServer_Put_def MakeKVServer_def appender_inv_def
      present_def below_def)

subsection \<open>What the check computes\<close>

text \<open>The next number the check expects from a client: one more than the last one it has seen.\<close>

definition next_of :: "int list \<Rightarrow> int" where
  "next_of ns = (if ns = [] then 0 else last ns + 1)"

lemma next_of_le: "\<forall>n \<in> set ns. n < i \<Longrightarrow> 0 \<le> i \<Longrightarrow> next_of ns \<le> i"
  by (cases ns rule: rev_cases) (auto simp: next_of_def)

definition ids_of :: "int \<Rightarrow> entries \<Rightarrow> int list" where
  "ids_of c es = map snd (filter (\<lambda>e. fst e = c) es)"

lemma check_entries_snoc:
  "check_entries (es @ [e]) st = bind_go (check_entries es st) (check_entry e)"
  by (induction es arbitrary: st) (auto simp: bind_go_def split: sum.splits)

lemma check_entries_spec:
  assumes "\<And>c. sorted_wrt (<) (ids_of c es) \<and> (\<forall>n \<in> set (ids_of c es). 0 \<le> n)"
  shows "check_entries es (\<lambda>_. 0, \<lambda>_. 0)
    = Inr (\<lambda>c. next_of (ids_of c es), \<lambda>c. next_of (ids_of c es) - int (length (ids_of c es)))"
  using assms
proof (induction es rule: rev_induct)
  case Nil
  then show ?case by (simp add: ids_of_def next_of_def)
next
  case (snoc e es)
  obtain a n where e: "e = (a, n)" by (cases e)
  have ids: "ids_of c (es @ [e]) = (if c = a then ids_of c es @ [n] else ids_of c es)" for c
    by (simp add: ids_of_def e)
  have "sorted_wrt (<) (ids_of c es) \<and> (\<forall>n \<in> set (ids_of c es). 0 \<le> n)" for c
    using snoc.prems [of c] by (auto simp: ids sorted_wrt_append split: if_splits)
  note IH = snoc.IH [OF this]
  have "next_of (ids_of a es) \<le> n"
    using snoc.prems [of a] by (intro next_of_le) (auto simp: ids sorted_wrt_append)
  then show ?case
    unfolding check_entries_snoc IH
    by (auto simp: check_entry_def e ids [unfolded e] next_of_def fun_eq_iff)
qed

lemma check_clients_ok:
  assumes "\<And>c. c \<in> set cs \<Longrightarrow> 0 \<le> c \<and> c < int (length rs) \<and> snd st c \<le> Nmaybe (rs ! nat c)
             \<and> fst st c \<le> Nok (rs ! nat c) + Nmaybe (rs ! nat c)"
  shows "check_clients cs rs st = Inr ()"
  using assms by (induction cs) (auto simp: go_nth_def, fastforce+)

lemma sint_version: "m < 2 ^ 63 \<Longrightarrow> sint (of_nat m :: Tversion) = int m"
  by (simp add: signed_of_nat signed_take_bit_int_eq_self)

lemma finished_client:
  assumes "appender_inv c cl es" "ac_pc cl = Finished"
  shows "next_of (present c es) \<le> ac_i cl"
    and "next_of (present c es) - int (length (present c es)) \<le> ac_nmay cl"
proof -
  have b: "below c (ac_i cl) es" and nok: "ac_nok cl \<le> int (length (present c es))"
    using assms filter_all_below [of c "ac_i cl" es] by (auto simp: appender_inv_def)
  show le: "next_of (present c es) \<le> ac_i cl"
    using b assms(1) by (intro next_of_le) (auto simp: below_def appender_inv_def)
  show "next_of (present c es) - int (length (present c es)) \<le> ac_nmay cl"
    using le nok assms(1) by (simp add: appender_inv_def)
qed

lemma finished_check:
  assumes inv: "append_inv enc k s es" and k: "k < 2 ^ 63 - 1"
    and fin: "\<forall>cl \<in> set (as_clients s). ac_pc cl = Finished"
    and ids: "set ids = int ` {..< length (as_clients s)}"
  shows "CheckAppends ids es (map result_of_client (as_clients s)) (of_nat (length es + 1)) = Inr ()"
proof -
  have cl: "appender_inv c (as_clients s ! c) es" if "c < length (as_clients s)" for c
    using inv that by (simp add: append_inv_def)
  have range: "ids_of a es = []" if "a \<notin> int ` {..< length (as_clients s)}" for a
  proof -
    have "a \<noteq> fst e" if "e \<in> set es" for e
      using inv that \<open>a \<notin> _\<close> zero_le_imp_eq_int [of "fst e"] by (auto simp: append_inv_def)
    then show ?thesis by (auto simp: ids_of_def filter_empty_conv)
  qed
  have same: "ids_of (int c) es = present c es" for c by (simp add: ids_of_def present_def)
  have "sorted_wrt (<) (ids_of a es) \<and> (\<forall>n \<in> set (ids_of a es). 0 \<le> n)" for a
    using cl range [of a] same
    by (cases "a \<in> int ` {..< length (as_clients s)}") (auto simp: appender_inv_def)
  note entries = check_entries_spec [OF this]
  have "check_clients ids (map result_of_client (as_clients s))
      (\<lambda>c. next_of (ids_of c es), \<lambda>c. next_of (ids_of c es) - int (length (ids_of c es))) = Inr ()"
  proof (rule check_clients_ok)
    fix a assume "a \<in> set ids"
    then obtain c where c: "a = int c" "c < length (as_clients s)" by (auto simp: ids)
    then have "ac_pc (as_clients s ! c) = Finished" using fin by simp
    from finished_client [OF cl [OF c(2)] this] cl [OF c(2)] c
    show "0 \<le> a \<and> a < int (length (map result_of_client (as_clients s)))
        \<and> snd (\<lambda>c. next_of (ids_of c es), \<lambda>c. next_of (ids_of c es) - int (length (ids_of c es))) a
          \<le> Nmaybe (map result_of_client (as_clients s) ! nat a)
        \<and> fst (\<lambda>c. next_of (ids_of c es), \<lambda>c. next_of (ids_of c es) - int (length (ids_of c es))) a
          \<le> Nok (map result_of_client (as_clients s) ! nat a)
             + Nmaybe (map result_of_client (as_clients s) ! nat a)"
      by (simp add: same result_of_client_def appender_inv_def)
  qed
  moreover have "sint (of_nat (length es + 1) :: Tversion) = int (length es + 1)"
    using inv k by (intro sint_version) (simp add: append_inv_def)
  ultimately show ?thesis by (simp add: CheckAppends_def entries)
qed

text \<open>
  C34: Whatever the interleaving of the clients and the lost requests and replies of their
  clerks, no client ends in a fatal error, and when all have returned the final list passes
  \<^verbatim>\<open>CheckAppends\<close> with the counts they report.
\<close>

theorem append_test_passes:
  assumes codec: "\<And>x. dec (enc x) = Some x" and "length evs < 2 ^ 63 - 1"
    and "set ids = int ` {..< n}"
  shows "\<exists>s. append_run enc dec evs (append_init enc n) = Inr s
     \<and> ((\<forall>c \<in> set (as_clients s). ac_pc c = Finished) \<longrightarrow>
          (\<exists>es ver. GetJson dec ''k'' (as_kv s) = Inr (es, ver)
             \<and> CheckAppends ids es (map result_of_client (as_clients s)) ver = Inr ()))"
proof -
  obtain s es where s: "append_run enc dec evs (append_init enc n) = Inr s"
    "append_inv enc (length evs) s es" "length (as_clients s) = n"
    using append_run_inv [OF append_init_inv, of evs dec enc n] assms
    by (auto simp: append_init_def)
  have "GetJson dec ''k'' (as_kv s) = Inr (es, of_nat (length es + 1))"
    using s(2) codec by (simp add: GetJson_def KVServer_Get_def append_inv_def GetReply0_def)
  with s finished_check [OF s(2), of ids] assms show ?thesis by auto
qed

text \<open>
  An instance: numbers as a sign and a row of ones stand for JSON; two clients, one of which
  has its first reply lost and so counts an append that took place as a maybe.
\<close>

definition enc_int :: "int \<Rightarrow> string" where
  "enc_int i = (if i < 0 then CHR ''-'' else CHR ''+'') # replicate (nat \<bar>i\<bar>) (CHR ''1'')"

definition enc_tuples :: "entries \<Rightarrow> string" where
  "enc_tuples es = concat (map (\<lambda>(a, b). enc_int a @ enc_int b) es)"

definition dec_char :: "char \<Rightarrow> int \<times> int list \<Rightarrow> int \<times> int list" where
  "dec_char c st = (if c = CHR ''1'' then (fst st + 1, snd st)
                    else if c = CHR ''-'' then (0, - fst st # snd st) else (0, fst st # snd st))"

fun pair_up :: "int list \<Rightarrow> entries" where
  "pair_up (a # b # r) = (a, b) # pair_up r"
| "pair_up _ = []"

definition dec_tuples :: "string \<Rightarrow> entries option" where
  "dec_tuples s = Some (pair_up (snd (foldr dec_char s (0, []))))"

lemma dec_ones: "(dec_char (CHR ''1'') ^^ n) (k, l) = (k + int n, l)"
  by (induction n) (auto simp: dec_char_def)

lemma dec_enc_int: "foldr dec_char (enc_int i) (0, l) = (0, i # l)"
  by (simp add: enc_int_def dec_ones dec_char_def)

lemma dec_enc_list:
  "foldr dec_char (enc_tuples es) (0, []) = (0, concat (map (\<lambda>(a, b). [a, b]) es))"
  by (induction es) (auto simp: enc_tuples_def dec_enc_int)

lemma tuple_codec: "dec_tuples (enc_tuples es) = Some es"
proof -
  have "pair_up (concat (map (\<lambda>(a, b). [a, b]) es)) = es" by (induction es) auto
  then show ?thesis by (simp add: dec_tuples_def dec_enc_list)
qed

definition demo_appends :: "append_event list" where
  "demo_appends = [LoopHead 0 False, ReadList 0, StartPut 0, LoopHead 1 False, ReadList 1,
     TryPut 0 ReplyLost, StartPut 1, TryPut 1 Delivered, TryPut 0 Delivered, ReadList 1, StartPut 1,
     TryPut 1 Delivered, LoopHead 0 True, LoopHead 1 True]"

theorem append_test_passes_witness:
  "\<exists>s. append_run enc_tuples dec_tuples demo_appends (append_init enc_tuples 2) = Inr s
     \<and> map result_of_client (as_clients s) = [\<lparr>Nok = 0, Nmaybe = 1\<rparr>, \<lparr>Nok = 1, Nmaybe = 0\<rparr>]
     \<and> (\<exists>es ver. GetJson dec_tuples ''k'' (as_kv s) = Inr (es, ver)
          \<and> CheckAppends [0, 1] es (map result_of_client (as_clients s)) ver = Inr ())"
proof -
  have len: "length demo_appends < 2 ^ 63 - 1" by (simp add: demo_appends_def)
  have ids: "set [0, 1] = int ` {..< 2}" by (auto simp: numeral_2_eq_2 lessThan_Suc)
  from append_test_passes [where enc = enc_tuples and dec = dec_tuples, OF tuple_codec len ids]
  obtain s where s: "append_run enc_tuples dec_tuples demo_appends (append_init enc_tuples 2) = Inr s"
    and check: "(\<forall>c \<in> set (as_clients s). ac_pc c = Finished) \<longrightarrow>
          (\<exists>es ver. GetJson dec_tuples ''k'' (as_kv s) = Inr (es, ver)
             \<and> CheckAppends [0, 1] es (map result_of_client (as_clients s)) ver = Inr ())"
    by blast
  have "as_clients s = [\<lparr>ac_i = 1, ac_nok = 0, ac_nmay = 1, ac_pc = Finished\<rparr>,
                        \<lparr>ac_i = 1, ac_nok = 1, ac_nmay = 0, ac_pc = Finished\<rparr>]"
    using s
    by (simp add: demo_appends_def append_init_def append_loop_def append_get_def GetJson_def
        KVServer_Get_def KVServer_Put_def MakeKVServer_def PutReply0_def GetReply0_def tuple_codec
        append_start_def append_call_def append_verdict_def numeral_2_eq_2) auto
  with s check show ?thesis by (simp add: result_of_client_def)
qed

end
