(* ===== verification/KvPutTest.thy ===== *)
theory KvPutTest
  imports KvTest
begin

text \<open>
  The put test of \<^verbatim>\<open>src/src/kvtest1/kvtest.go\<close>: clients race to put tagged values to one key
  (\<^verbatim>\<open>OneClientPut\<close>, \<^verbatim>\<open>OnePut\<close>), and \<^verbatim>\<open>CheckPutConcurrent\<close> compares the version at the server with
  what the clients counted.  As in \<^verbatim>\<open>KvTest\<close>, clients, clerk retries and server interleave.
  The slice of keys has one element, as in every test that uses the check.
\<close>

section \<open>The clients\<close>

record EntryV =
  ev_Id :: int
  ev_V :: Tversion

text \<open>
  Where \<^verbatim>\<open>OneClientPut\<close> stands: at the head of its loop; in the clerk's Put of \<^verbatim>\<open>OnePut\<close>, whose
  first call has failed or not; before the Get, with the verdict of the Put; returned.
\<close>

datatype put_pc = PutHead | PutTry bool | PutRead Err | PutFinished

record put_client =
  pcl_ver :: Tversion
  pcl_nok :: int
  pcl_nmay :: int
  pcl_pc :: put_pc

definition put_loop :: "bool \<Rightarrow> put_client \<Rightarrow> put_client" where
  "put_loop stop c =
     (if pcl_pc c = PutHead then c\<lparr>pcl_pc := (if stop then PutFinished else PutTry False)\<rparr> else c)"

definition put_call ::
  "(EntryV \<Rightarrow> string) \<Rightarrow> string \<Rightarrow> nat \<Rightarrow> outcome \<Rightarrow> KVServer \<Rightarrow> put_client \<Rightarrow> (KVServer \<times> put_client) go" where
  "put_call enc key cli out kv c =
     (case pcl_pc c of
        PutTry again \<Rightarrow>
          (let args = \<lparr>pa_Key = key, pa_Value = enc \<lparr>ev_Id = int cli, ev_V = pcl_ver c\<rparr>, pa_Version = pcl_ver c\<rparr>;
               (kv', r) = (if out = RequestLost then (kv, PutReply0) else KVServer_Put args kv);
               err = (if again \<and> pr_Err r = ErrVersion then ErrMaybe else pr_Err r)
           in if out \<noteq> Delivered then Inr (kv', c\<lparr>pcl_pc := PutTry True\<rparr>)
              else if \<not> (err = OK \<or> err = ErrVersion \<or> err = ErrMaybe) then Inl (Fatal ''Wrong error'')
              else Inr (kv', c\<lparr>pcl_pc := PutRead err\<rparr>))
      | _ \<Rightarrow> Inr (kv, c))"

definition put_read ::
  "(string \<Rightarrow> EntryV option) \<Rightarrow> string \<Rightarrow> nat \<Rightarrow> KVServer \<Rightarrow> put_client \<Rightarrow> put_client go" where
  "put_read dec key cli kv c =
     (case pcl_pc c of
        PutRead err \<Rightarrow> bind_go (GetJson dec key kv) (\<lambda>(e, ver0).
          if err = OK \<and> ver0 = pcl_ver c + 1 \<and> ev_Id e \<noteq> int cli \<and> ev_V e \<noteq> pcl_ver c
          then Inl (Fatal ''Wrong value'')
          else let c = c\<lparr>pcl_ver := ver0\<rparr> in
            Inr (if err = OK then c\<lparr>pcl_nok := pcl_nok c + 1, pcl_pc := PutHead\<rparr>
                 else if err = ErrMaybe then c\<lparr>pcl_nmay := pcl_nmay c + 1, pcl_pc := PutHead\<rparr>
                 else c\<lparr>pcl_pc := PutTry False\<rparr>))
      | _ \<Rightarrow> Inr c)"

record put_sys =
  ps_kv :: KVServer
  ps_clients :: "put_client list"

datatype put_event = PHead nat bool | PCall nat outcome | PRead nat

fun put_step ::
  "(EntryV \<Rightarrow> string) \<Rightarrow> (string \<Rightarrow> EntryV option) \<Rightarrow> string \<Rightarrow> put_event \<Rightarrow> put_sys \<Rightarrow> put_sys go" where
  "put_step enc dec key (PHead c stop) s = Inr (if c < length (ps_clients s)
     then s\<lparr>ps_clients := (ps_clients s)[c := put_loop stop (ps_clients s ! c)]\<rparr> else s)"
| "put_step enc dec key (PCall c out) s = (if c < length (ps_clients s)
     then bind_go (put_call enc key c out (ps_kv s) (ps_clients s ! c)) (\<lambda>(kv, c').
            Inr \<lparr>ps_kv = kv, ps_clients = (ps_clients s)[c := c']\<rparr>) else Inr s)"
| "put_step enc dec key (PRead c) s = (if c < length (ps_clients s)
     then bind_go (put_read dec key c (ps_kv s) (ps_clients s ! c)) (\<lambda>c'.
            Inr (s\<lparr>ps_clients := (ps_clients s)[c := c']\<rparr>)) else Inr s)"

definition put_init :: "nat \<Rightarrow> put_sys" where
  "put_init n = \<lparr>ps_kv = MakeKVServer,
     ps_clients = replicate n \<lparr>pcl_ver = 0, pcl_nok = 0, pcl_nmay = 0, pcl_pc = PutHead\<rparr>\<rparr>"

section \<open>The check\<close>

definition put_result :: "put_client \<Rightarrow> ClntRes" where
  "put_result c = \<lparr>Nok = pcl_nok c, Nmaybe = pcl_nmay c\<rparr>"

fun add_results :: "ClntRes list \<Rightarrow> ClntRes \<Rightarrow> ClntRes" where
  "add_results [] res = res"
| "add_results (r # rs) res = add_results rs \<lparr>Nok = Nok res + Nok r, Nmaybe = Nmaybe res + Nmaybe r\<rparr>"

definition CheckPutConcurrent ::
  "(string \<Rightarrow> EntryV option) \<Rightarrow> string \<Rightarrow> ClntRes list \<Rightarrow> ClntRes \<Rightarrow> bool \<Rightarrow> KVServer \<Rightarrow> ClntRes go" where
  "CheckPutConcurrent dec key rs res reliable kv =
     bind_go (GetJson dec key kv) (\<lambda>(e, ver0).
       let res = add_results rs res in
       if reliable
       then if ver0 \<noteq> word_of_int (Nok res) then Inl (Fatal ''Reliable: Wrong number of puts'') else Inr res
       else if ver0 > word_of_int (Nok res + Nmaybe res) then Inl (Fatal ''Unreliable: Wrong number of puts'')
       else Inr res)"

section \<open>Every run passes the check\<close>

text \<open>
  The store holds \<open>N\<close> puts of the clients; \<open>val\<close> is the last value.
\<close>

definition store_at :: "(EntryV \<Rightarrow> string) \<Rightarrow> string \<Rightarrow> nat \<Rightarrow> EntryV \<Rightarrow> KVServer \<Rightarrow> bool" where
  "store_at enc key N e kv =
     (table kv key = (if N = 0 then None else Some \<lparr>Value = enc e, Version = of_nat N\<rparr>))"

text \<open>
  What client \<open>c\<close> knows, when \<open>f\<close> of the puts are its own and it has read version \<open>v\<close>;
  \<open>rel\<close> says that no message has been lost so far.
\<close>

fun put_known :: "bool \<Rightarrow> nat \<Rightarrow> nat \<Rightarrow> EntryV \<Rightarrow> nat \<Rightarrow> nat \<Rightarrow> int \<Rightarrow> put_pc \<Rightarrow> bool" where
  "put_known rel c N e f v n (PutTry again) = (int f \<le> n + (if again \<and> v < N then 1 else 0) \<and> (rel \<longrightarrow> \<not> again \<and> int f = n))"
| "put_known rel c N e f v n (PutRead err) =
     (0 < N \<and> int f \<le> n + (if err = ErrVersion then 0 else 1)
      \<and> (err = OK \<or> err = ErrVersion \<or> err = ErrMaybe)
      \<and> (err = OK \<longrightarrow> v < N \<and> (N = v + 1 \<longrightarrow> e = \<lparr>ev_Id = int c, ev_V = of_nat v\<rparr>))
      \<and> (rel \<longrightarrow> err \<noteq> ErrMaybe \<and> int f = n + (if err = OK then 1 else 0)))"
| "put_known rel c N e f v n _ = (int f \<le> n \<and> (rel \<longrightarrow> int f = n))"

definition put_cinv :: "bool \<Rightarrow> nat \<Rightarrow> nat \<Rightarrow> EntryV \<Rightarrow> nat \<Rightarrow> put_client \<Rightarrow> bool" where
  "put_cinv rel c N e f cl =
     (\<exists>v \<le> N. pcl_ver cl = of_nat v \<and> 0 \<le> pcl_nok cl \<and> 0 \<le> pcl_nmay cl
        \<and> (rel \<longrightarrow> pcl_nmay cl = 0) \<and> (0 < pcl_nok cl + pcl_nmay cl \<longrightarrow> 0 < N)
        \<and> put_known rel c N e f v (pcl_nok cl + pcl_nmay cl) (pcl_pc cl))"

definition counted_puts :: "put_client \<Rightarrow> int" where
  "counted_puts cl = pcl_nok cl + pcl_nmay cl"

definition put_inv :: "(EntryV \<Rightarrow> string) \<Rightarrow> string \<Rightarrow> bool \<Rightarrow> nat \<Rightarrow> put_sys \<Rightarrow> nat list \<Rightarrow> EntryV \<Rightarrow> bool" where
  "put_inv enc key rel k s fs e =
     (length fs = length (ps_clients s) \<and> sum_list fs \<le> k
      \<and> sum_list (map counted_puts (ps_clients s)) \<le> int k \<and> store_at enc key (sum_list fs) e (ps_kv s)
      \<and> (\<forall>c < length fs. put_cinv rel c (sum_list fs) e (fs ! c) (ps_clients s ! c)))"

lemma small_versions: "m < 2 ^ 63 \<Longrightarrow> n < 2 ^ 63 \<Longrightarrow> (of_nat m :: Tversion) = of_nat n \<longleftrightarrow> m = n"
proof -
  assume "m < 2 ^ 63" "n < 2 ^ 63"
  then have "unat (of_nat m :: Tversion) = m" "unat (of_nat n :: Tversion) = n"
    by (simp_all add: unat_of_nat)
  then show ?thesis by metis
qed

text \<open>A put of another client leaves what a client knows intact.\<close>

lemma put_cinv_other:
  assumes "put_cinv rel c N e f cl"
  shows "put_cinv rel c (Suc N) e' f cl"
proof -
  from assms obtain v where v: "v \<le> N" "pcl_ver cl = of_nat v" "0 \<le> pcl_nok cl" "0 \<le> pcl_nmay cl"
    "rel \<longrightarrow> pcl_nmay cl = 0" "put_known rel c N e f v (pcl_nok cl + pcl_nmay cl) (pcl_pc cl)"
    by (auto simp: put_cinv_def)
  have "put_known rel c (Suc N) e' f v (pcl_nok cl + pcl_nmay cl) (pcl_pc cl)"
    using v(1,6) by (cases "pcl_pc cl") (auto split: if_splits)
  with v show ?thesis unfolding put_cinv_def by (intro exI [of _ v]) auto
qed

lemma put_cinv_weaken: "put_cinv rel c N e f cl \<Longrightarrow> put_cinv False c N e f cl"
proof -
  have "put_known rel c N e f v n pc \<Longrightarrow> put_known False c N e f v n pc" for v n pc
    by (cases pc) auto
  then show "put_cinv rel c N e f cl \<Longrightarrow> put_cinv False c N e f cl"
    unfolding put_cinv_def by blast
qed

lemma sum_list_update_int: "i < length xs \<Longrightarrow> sum_list (xs[i := x]) = sum_list xs - xs ! i + (x :: int)"
proof (induction xs arbitrary: i)
  case (Cons y xs)
  then show ?case by (cases i) auto
qed simp

lemma put_inv_cinv:
  "put_inv enc key rel k s fs e \<Longrightarrow> rel' \<longrightarrow> rel \<Longrightarrow> c < length fs \<Longrightarrow>
   put_cinv rel' c (sum_list fs) e (fs ! c) (ps_clients s ! c)"
  using put_cinv_weaken by (cases rel') (auto simp: put_inv_def)

lemma put_inv_client:
  assumes inv: "put_inv enc key rel k s fs e" and c: "c < length fs" and rel: "rel' \<longrightarrow> rel"
    and new: "put_cinv rel' c (sum_list fs) e (fs ! c) cl" "counted_puts cl \<le> counted_puts (ps_clients s ! c) + int d"
  shows "put_inv enc key rel' (k + d) (s\<lparr>ps_clients := (ps_clients s)[c := cl]\<rparr>) fs e"
proof -
  have "put_cinv rel' c' (sum_list fs) e (fs ! c') (ps_clients s ! c')" if "c' < length fs" for c'
    using put_inv_cinv [OF inv rel that] .
  with inv c new show ?thesis
    by (auto simp: put_inv_def nth_list_update map_update sum_list_update_int)
qed

text \<open>The server accepts the put of a client that has read the current version, and no other.\<close>

lemma Put_at_version:
  assumes "store_at enc key N e kv" and "v \<le> N" and "N < 2 ^ 63" and "pa_Key a = key" "pa_Version a = of_nat v"
  shows "KVServer_Put a kv =
    (if v = N then (kv\<lparr>table := (table kv)(key \<mapsto> \<lparr>Value = pa_Value a, Version = of_nat (Suc N)\<rparr>)\<rparr>, PutReply0\<lparr>pr_Err := OK\<rparr>)
     else (kv, PutReply0\<lparr>pr_Err := ErrVersion\<rparr>))"
  using assms small_versions [of N v] by (cases "N = 0") (auto simp: KVServer_Put_def store_at_def add.commute)

lemma performed_put:
  assumes inv: "put_inv enc key rel k s fs e" and c: "c < length fs" and rel: "rel' \<longrightarrow> rel"
    and kv: "store_at enc key (Suc (sum_list fs)) e' kv"
    and new: "put_cinv rel' c (Suc (sum_list fs)) e' (Suc (fs ! c)) cl" "counted_puts cl = counted_puts (ps_clients s ! c)"
  shows "put_inv enc key rel' (Suc k) \<lparr>ps_kv = kv, ps_clients = (ps_clients s)[c := cl]\<rparr> (fs[c := Suc (fs ! c)]) e'"
proof -
  have sum: "sum_list (fs[c := Suc (fs ! c)]) = Suc (sum_list fs)"
    using c elem_le_sum_list [OF c] by (simp add: sum_list_update)
  have "put_cinv rel' c' (Suc (sum_list fs)) e' (fs ! c') (ps_clients s ! c')" if "c' < length fs" for c'
    by (rule put_cinv_other [OF put_inv_cinv [OF inv rel that]])
  with inv c new kv show ?thesis
    by (auto simp: put_inv_def sum nth_list_update map_update sum_list_update_int)
qed

lemma put_call_inv:
  assumes inv: "put_inv enc key rel k s fs e" and c: "c < length fs" and k: "k < 2 ^ 63"
    and rel: "rel' \<longrightarrow> rel \<and> out = Delivered"
  shows "\<exists>kv cl fs' e'. put_call enc key c out (ps_kv s) (ps_clients s ! c) = Inr (kv, cl)
    \<and> put_inv enc key rel' (Suc k) \<lparr>ps_kv = kv, ps_clients = (ps_clients s)[c := cl]\<rparr> fs' e' \<and> length fs' = length fs"
proof (cases "\<exists>again. pcl_pc (ps_clients s ! c) = PutTry again")
  case False
  then have "put_call enc key c out (ps_kv s) (ps_clients s ! c) = Inr (ps_kv s, ps_clients s ! c)"
    by (auto simp: put_call_def split: put_pc.splits)
  moreover have "put_cinv rel' c (sum_list fs) e (fs ! c) (ps_clients s ! c)"
    using put_inv_cinv [OF inv _ c] rel by simp
  ultimately show ?thesis
    using put_inv_client [OF inv c, of rel' "ps_clients s ! c" 1] rel by (cases s) fastforce
next
  case True
  then obtain again where pc: "pcl_pc (ps_clients s ! c) = PutTry again" by blast
  define cl where "cl = ps_clients s ! c"
  define N where "N = sum_list fs"
  obtain v where v: "v \<le> N" "pcl_ver cl = of_nat v" "0 \<le> pcl_nok cl" "0 \<le> pcl_nmay cl"
    "rel \<longrightarrow> pcl_nmay cl = 0" "0 < pcl_nok cl + pcl_nmay cl \<longrightarrow> 0 < N"
    "int (fs ! c) \<le> pcl_nok cl + pcl_nmay cl + (if again \<and> v < N then 1 else 0)"
    "rel \<longrightarrow> \<not> again \<and> int (fs ! c) = pcl_nok cl + pcl_nmay cl"
    using inv c pc by (force simp: put_inv_def put_cinv_def cl_def N_def)
  define e' where "e' = \<lparr>ev_Id = int c, ev_V = of_nat v\<rparr>"
  let ?a = "\<lparr>pa_Key = key, pa_Value = enc e', pa_Version = of_nat v\<rparr>"
  have st: "store_at enc key N e (ps_kv s)" "N < 2 ^ 63" using inv k by (auto simp: put_inv_def N_def)
  have put: "KVServer_Put ?a (ps_kv s) =
      (if v = N then ((ps_kv s)\<lparr>table := (table (ps_kv s))(key \<mapsto> \<lparr>Value = enc e', Version = of_nat (Suc N)\<rparr>)\<rparr>,
                      PutReply0\<lparr>pr_Err := OK\<rparr>)
       else (ps_kv s, PutReply0\<lparr>pr_Err := ErrVersion\<rparr>))"
    using Put_at_version [OF st(1) v(1) st(2), of ?a] by simp
  note upd = put_inv_client [OF inv c, of rel' _ 1, folded cl_def N_def]
  note perf = performed_put [OF inv c, of rel' e', folded cl_def N_def]
  note defs = put_call_def pc [folded cl_def] v(2) e'_def [symmetric] Let_def
  have counts: "counted_puts (cl\<lparr>pcl_pc := p\<rparr>) = counted_puts cl" for p by (simp add: counted_puts_def)
  have A: "put_cinv rel' c N e (fs ! c) (cl\<lparr>pcl_pc := PutTry True\<rparr>)" if "\<not> rel'"
    using v that unfolding put_cinv_def by (intro exI [of _ v]) (auto split: if_splits)
  have B: "put_cinv rel' c N e (fs ! c) (cl\<lparr>pcl_pc := PutRead (if again then ErrMaybe else ErrVersion)\<rparr>)" if "v < N"
    using v that rel unfolding put_cinv_def by (intro exI [of _ v]) auto
  have C: "put_cinv rel' c (Suc N) e' (Suc (fs ! c)) (cl\<lparr>pcl_pc := PutRead OK\<rparr>)" if "v = N"
    using v that rel unfolding put_cinv_def by (intro exI [of _ v]) (auto simp: e'_def)
  have D: "put_cinv rel' c (Suc N) e' (Suc (fs ! c)) (cl\<lparr>pcl_pc := PutTry True\<rparr>)" if "v = N" "\<not> rel'"
    using v that unfolding put_cinv_def by (intro exI [of _ v]) auto
  have same: "\<lparr>ps_kv = ps_kv s, ps_clients = x\<rparr> = s\<lparr>ps_clients := x\<rparr>" for x by (cases s) simp
  have lost: "put_call enc key c out (ps_kv s) cl = Inr (ps_kv s, cl\<lparr>pcl_pc := PutTry True\<rparr>)" if "out = RequestLost"
    using that by (simp add: defs)
  define cur where "cur = (v = N)"
  define pc' where "pc' = (if out = ReplyLost then PutTry True
    else if cur then PutRead OK else PutRead (if again then ErrMaybe else ErrVersion))"
  define kv' where "kv' = (ps_kv s)\<lparr>table := (table (ps_kv s))(key \<mapsto> \<lparr>Value = enc e', Version = of_nat (Suc N)\<rparr>)\<rparr>"
  have put': "KVServer_Put ?a (ps_kv s) =
      (if cur then (kv', PutReply0\<lparr>pr_Err := OK\<rparr>) else (ps_kv s, PutReply0\<lparr>pr_Err := ErrVersion\<rparr>))"
    unfolding cur_def kv'_def by (rule put)
  have arrives: "put_call enc key c out (ps_kv s) cl = Inr (if cur then kv' else ps_kv s, cl\<lparr>pcl_pc := pc'\<rparr>)"
    if "out \<noteq> RequestLost"
    using that by (cases out; cases cur; cases again) (simp_all add: defs put' pc'_def PutReply0_def)
  have rel0: "rel' \<longrightarrow> rel" "out \<noteq> Delivered \<Longrightarrow> \<not> rel'" using rel by auto
  have stored: "store_at enc key (Suc N) e' kv'" by (simp add: store_at_def kv'_def)
  consider "out = RequestLost" | "out \<noteq> RequestLost" "v = N" | "out \<noteq> RequestLost" "v < N" using v(1) by fastforce
  then show ?thesis
  proof cases
    case 1
    with upd [OF rel0(1) A] rel0(2) lost show ?thesis
      by (auto simp: cl_def [symmetric] counts same intro!: exI [of _ fs] exI [of _ e])
  next
    case 2
    have "put_cinv rel' c (Suc N) e' (Suc (fs ! c)) (cl\<lparr>pcl_pc := pc'\<rparr>)"
      using C D 2 rel0(2) by (auto simp: pc'_def cur_def)
    from perf [OF rel0(1) stored this counts] arrives [OF 2(1)] 2 show ?thesis
      by (fastforce simp: cl_def [symmetric] cur_def)
  next
    case 3
    have "put_cinv rel' c N e (fs ! c) (cl\<lparr>pcl_pc := pc'\<rparr>)"
      using A B 3 rel0(2) by (auto simp: pc'_def cur_def)
    from upd [OF rel0(1) this] arrives [OF 3(1)] 3 show ?thesis
      by (auto simp: cl_def [symmetric] counts cur_def same intro!: exI [of _ fs] exI [of _ e])
  qed
qed

lemma read_json:
  assumes "store_at enc key N e kv" and "0 < N" and "\<And>x. dec (enc x) = Some x"
  shows "GetJson dec key kv = Inr (e, of_nat N)"
  using assms by (simp add: GetJson_def KVServer_Get_def store_at_def GetReply0_def)

lemma put_read_inv:
  assumes inv: "put_inv enc key rel k s fs e" and c: "c < length fs" and k: "k < 2 ^ 63"
    and codec: "\<And>x. dec (enc x) = Some x"
  shows "\<exists>cl. put_read dec key c (ps_kv s) (ps_clients s ! c) = Inr cl
    \<and> put_inv enc key rel (Suc k) (s\<lparr>ps_clients := (ps_clients s)[c := cl]\<rparr>) fs e"
proof -
  define cl where "cl = ps_clients s ! c"
  define N where "N = sum_list fs"
  have cinv: "put_cinv rel c N e (fs ! c) cl" and st: "store_at enc key N e (ps_kv s)" and N: "N < 2 ^ 63"
    using inv c k by (auto simp: put_inv_def cl_def N_def)
  note upd = put_inv_client [OF inv c, of rel _ 1, folded cl_def N_def, simplified]
  show ?thesis
  proof (cases "\<exists>err. pcl_pc cl = PutRead err")
    case False
    then have "put_read dec key c (ps_kv s) cl = Inr cl" by (auto simp: put_read_def split: put_pc.splits)
    with upd [OF cinv] show ?thesis by (simp add: cl_def)
  next
    case True
    then obtain err where pc: "pcl_pc cl = PutRead err" by blast
    from cinv pc obtain v where v: "v \<le> N" "pcl_ver cl = of_nat v" "0 \<le> pcl_nok cl" "0 \<le> pcl_nmay cl"
      "rel \<longrightarrow> pcl_nmay cl = 0" "put_known rel c N e (fs ! c) v (pcl_nok cl + pcl_nmay cl) (PutRead err)"
      unfolding put_cinv_def pc by blast
    have get: "GetJson dec key (ps_kv s) = Inr (e, of_nat N)"
      using read_json [OF st _ codec] v(6) by simp
    have mine: "\<not> (err = OK \<and> (of_nat N :: Tversion) = pcl_ver cl + 1 \<and> ev_Id e \<noteq> int c \<and> ev_V e \<noteq> pcl_ver cl)"
      using v(2,6) small_versions [of N "v + 1"] N by (auto simp: add.commute)
    define cl' where "cl' = (if err = OK then cl\<lparr>pcl_ver := of_nat N, pcl_nok := pcl_nok cl + 1, pcl_pc := PutHead\<rparr>
      else if err = ErrMaybe then cl\<lparr>pcl_ver := of_nat N, pcl_nmay := pcl_nmay cl + 1, pcl_pc := PutHead\<rparr>
      else cl\<lparr>pcl_ver := of_nat N, pcl_pc := PutTry False\<rparr>)"
    have "put_read dec key c (ps_kv s) cl = Inr cl'"
      unfolding put_read_def pc put_pc.case get bind_go_Inr prod.case if_not_P [OF mine]
      by (simp add: cl'_def Let_def)
    moreover have "put_cinv rel c N e (fs ! c) cl'"
      unfolding put_cinv_def by (intro exI [of _ N]) (use v in \<open>auto simp: cl'_def\<close>)
    moreover have "counted_puts cl' \<le> counted_puts cl + 1" by (simp add: cl'_def counted_puts_def)
    ultimately show ?thesis using upd by (simp add: cl_def)
  qed
qed

fun lossless :: "put_event \<Rightarrow> bool" where
  "lossless (PCall c out) = (out = Delivered)"
| "lossless _ = True"

lemma put_loop_cinv: "put_cinv rel c N e f cl \<Longrightarrow> put_cinv rel c N e f (put_loop stop cl)"
  by (auto simp: put_loop_def put_cinv_def)

lemma put_event_inv:
  assumes inv: "put_inv enc key rel k s fs e" and k: "k < 2 ^ 63" and codec: "\<And>x. dec (enc x) = Some x"
  shows "\<exists>s' fs' e'. put_step enc dec key ev s = Inr s'
    \<and> put_inv enc key (rel \<and> lossless ev) (Suc k) s' fs' e' \<and> length fs' = length fs"
proof -
  have len: "length fs = length (ps_clients s)" using inv by (simp add: put_inv_def)
  have mono: "put_inv enc key rel (Suc k) s fs e" using inv by (auto simp: put_inv_def)
  show ?thesis
  proof (cases ev)
    case (PHead c stop)
    show ?thesis
    proof (cases "c < length fs")
      case True
      have "counted_puts (put_loop stop (ps_clients s ! c)) = counted_puts (ps_clients s ! c)"
        by (simp add: put_loop_def counted_puts_def)
      with put_inv_client [OF inv True _ put_loop_cinv [OF put_inv_cinv [OF inv _ True]], of rel stop 1] PHead True len
      show ?thesis by fastforce
    qed (use PHead mono len in auto)
  next
    case (PCall c out)
    have weak: "put_inv enc key (rel \<and> out = Delivered) (Suc k) s fs e"
      using mono put_inv_cinv [OF mono, of "rel \<and> out = Delivered"] by (simp add: put_inv_def)
    show ?thesis
    proof (cases "c < length fs")
      case True
      from put_call_inv [OF inv True k, of "rel \<and> out = Delivered" out]
      obtain kv cl fs' e' where r: "put_call enc key c out (ps_kv s) (ps_clients s ! c) = Inr (kv, cl)"
        "put_inv enc key (rel \<and> out = Delivered) (Suc k) \<lparr>ps_kv = kv, ps_clients = (ps_clients s)[c := cl]\<rparr> fs' e'"
        "length fs' = length fs" by blast
      with PCall True len show ?thesis by (intro exI conjI) (simp, simp, simp)
    qed (use PCall weak len in auto)
  next
    case (PRead c)
    show ?thesis
    proof (cases "c < length fs")
      case True
      from put_read_inv [OF inv True k codec] PRead True len show ?thesis
        by (auto intro!: exI [of _ fs] exI [of _ e])
    qed (use PRead mono len in auto)
  qed
qed

lemma put_run_inv:
  assumes "put_inv enc key rel k s fs e" and "k + length evs < 2 ^ 63" and "\<And>x. dec (enc x) = Some x"
  shows "\<exists>s' fs' e'. fold_go (put_step enc dec key) evs s = Inr s'
    \<and> put_inv enc key (rel \<and> list_all lossless evs) (k + length evs) s' fs' e' \<and> length fs' = length fs"
  using assms(1,2)
proof (induction evs arbitrary: rel k s fs e)
  case (Cons ev evs)
  from put_event_inv [OF Cons.prems(1) _ assms(3), of ev] Cons.prems(2)
  obtain s1 fs1 e1 where 1: "put_step enc dec key ev s = Inr s1"
    "put_inv enc key (rel \<and> lossless ev) (Suc k) s1 fs1 e1" "length fs1 = length fs" by auto
  from Cons.IH [OF 1(2)] Cons.prems(2) 1 show ?case by (auto simp: conj_assoc)
qed auto

lemma put_init_inv: "put_inv enc key True 0 (put_init n) (replicate n 0) e"
  by (simp add: put_inv_def put_init_def store_at_def MakeKVServer_def put_cinv_def counted_puts_def
      sum_list_replicate map_replicate)

lemma add_results_sum: "add_results rs res = \<lparr>Nok = Nok res + sum_list (map Nok rs), Nmaybe = Nmaybe res + sum_list (map Nmaybe rs)\<rparr>"
  by (induction rs arbitrary: res) auto

text \<open>When all clients have returned, the puts at the server are among those they counted.\<close>

lemma finished_puts:
  assumes inv: "put_inv enc key rel k s fs e" and fin: "\<forall>c \<in> set (ps_clients s). pcl_pc c = PutFinished"
  shows "int (sum_list fs) \<le> sum_list (map pcl_nok (ps_clients s)) + sum_list (map pcl_nmay (ps_clients s))"
    and "rel \<Longrightarrow> int (sum_list fs) = sum_list (map pcl_nok (ps_clients s))"
    and "0 < sum_list (map counted_puts (ps_clients s)) \<Longrightarrow> 0 < sum_list fs"
proof -
  let ?n = "length fs" and ?cl = "\<lambda>i. ps_clients s ! i"
  have len: "length (ps_clients s) = ?n" using inv by (simp add: put_inv_def)
  have each: "int (fs ! i) \<le> pcl_nok (?cl i) + pcl_nmay (?cl i)
      \<and> (rel \<longrightarrow> int (fs ! i) = pcl_nok (?cl i)) \<and> 0 \<le> counted_puts (?cl i)
      \<and> (0 < counted_puts (?cl i) \<longrightarrow> 0 < sum_list fs)"
    if "i < ?n" for i
  proof -
    have "pcl_pc (?cl i) = PutFinished" "put_cinv rel i (sum_list fs) e (fs ! i) (?cl i)"
      using inv fin that by (auto simp: put_inv_def)
    then show ?thesis by (auto simp: put_cinv_def counted_puts_def)
  qed
  have sums: "int (sum_list fs) = (\<Sum>i = 0..<?n. int (fs ! i))"
    "sum_list (map g (ps_clients s)) = (\<Sum>i = 0..<?n. g (?cl i))" for g :: "put_client \<Rightarrow> int"
    using len by (simp_all add: sum_list_sum_nth)
  show "int (sum_list fs) \<le> sum_list (map pcl_nok (ps_clients s)) + sum_list (map pcl_nmay (ps_clients s))"
    unfolding sums sum.distrib [symmetric] by (rule sum_mono) (use each in auto)
  show "int (sum_list fs) = sum_list (map pcl_nok (ps_clients s))" if rel
    unfolding sums by (rule sum.cong) (use each that in auto)
  show "0 < sum_list fs" if "0 < sum_list (map counted_puts (ps_clients s))"
  proof -
    have "\<exists>i < ?n. 0 < counted_puts (?cl i)"
    proof (rule ccontr)
      assume "\<not> ?thesis"
      then have "(\<Sum>i = 0..<?n. counted_puts (?cl i)) \<le> 0" by (intro sum_nonpos) force
      with that show False unfolding sums by simp
    qed
    then show ?thesis using each by blast
  qed
qed

text \<open>
  C37: For any number of clients and any interleaving of their steps with lost requests and
  replies, no put test run ends in a fatal error; and once all clients have returned and
  one of them has counted a put, \<^verbatim>\<open>CheckPutConcurrent\<close> accepts: the version at the server is
  at most the number of puts counted as done or maybe done, and the number of those
  counted as done if no message was lost.
\<close>

theorem put_test_passes:
  assumes codec: "\<And>x. dec (enc x) = Some x" and len: "length evs < 2 ^ 63"
  shows "\<exists>s. fold_go (put_step enc dec key) evs (put_init n) = Inr s
    \<and> ((\<forall>c \<in> set (ps_clients s). pcl_pc c = PutFinished) \<and> 0 < sum_list (map counted_puts (ps_clients s))
       \<longrightarrow> (\<forall>reliable. (reliable \<longrightarrow> list_all lossless evs) \<longrightarrow>
             CheckPutConcurrent dec key (map put_result (ps_clients s)) \<lparr>Nok = 0, Nmaybe = 0\<rparr> reliable (ps_kv s)
             = Inr \<lparr>Nok = sum_list (map pcl_nok (ps_clients s)), Nmaybe = sum_list (map pcl_nmay (ps_clients s))\<rparr>))"
proof -
  from put_run_inv [OF put_init_inv _ codec, of evs key n] len
  obtain s fs e where s: "fold_go (put_step enc dec key) evs (put_init n) = Inr s"
    and inv: "put_inv enc key (list_all lossless evs) (length evs) s fs e" by auto
  let ?ok = "sum_list (map pcl_nok (ps_clients s))" and ?may = "sum_list (map pcl_nmay (ps_clients s))"
  have "CheckPutConcurrent dec key (map put_result (ps_clients s)) \<lparr>Nok = 0, Nmaybe = 0\<rparr> reliable (ps_kv s)
      = Inr \<lparr>Nok = ?ok, Nmaybe = ?may\<rparr>"
    if fin: "\<forall>c \<in> set (ps_clients s). pcl_pc c = PutFinished"
      and some: "0 < sum_list (map counted_puts (ps_clients s))"
      and rel: "reliable \<longrightarrow> list_all lossless evs" for reliable
  proof -
    note f = finished_puts [OF inv fin]
    have total: "?ok + ?may \<le> int (length evs)"
    proof -
      have "sum_list (map counted_puts cs) = sum_list (map pcl_nok cs) + sum_list (map pcl_nmay cs)" for cs
        by (induction cs) (simp_all add: counted_puts_def)
      then show ?thesis using inv by (simp add: put_inv_def)
    qed
    have get: "GetJson dec key (ps_kv s) = Inr (e, of_nat (sum_list fs))"
      by (rule read_json [where enc = enc]) (use inv f(3) some codec in \<open>auto simp: put_inv_def\<close>)
    have "\<not> (of_nat (sum_list fs) :: Tversion) > word_of_int (?ok + ?may)"
    proof -
      define m where "m = nat (?ok + ?may)"
      have m: "?ok + ?may = int m" "sum_list fs \<le> m" "m < 2 ^ 63"
        using f(1) total len by (simp_all add: m_def)
      then have "unat (of_nat m :: Tversion) = m" "unat (of_nat (sum_list fs) :: Tversion) = sum_list fs"
        by (simp_all add: unat_of_nat)
      with m show ?thesis by (simp add: word_less_nat_alt)
    qed
    moreover have "reliable \<Longrightarrow> (of_nat (sum_list fs) :: Tversion) = word_of_int ?ok"
      using f(2) rel by (metis of_int_of_nat_eq)
    ultimately show ?thesis
      by (simp add: CheckPutConcurrent_def get add_results_sum put_result_def comp_def Let_def)
  qed
  with s show ?thesis by blast
qed

text \<open>
  An instance: two clients put to a fresh key; the reply to the first client is lost, and
  its second call turns the refusal into a maybe.
\<close>

definition enc_entry :: "EntryV \<Rightarrow> string" where
  "enc_entry x = enc_tuples [(ev_Id x, uint (ev_V x))]"

definition dec_entry :: "string \<Rightarrow> EntryV option" where
  "dec_entry s = (case dec_tuples s of
     Some [(i, v)] \<Rightarrow> Some \<lparr>ev_Id = i, ev_V = word_of_int v\<rparr> | _ \<Rightarrow> None)"

lemma entry_codec: "dec_entry (enc_entry x) = Some x"
  by (simp add: dec_entry_def enc_entry_def tuple_codec)

definition demo_puts :: "put_event list" where
  "demo_puts = [PHead 0 False, PHead 1 False, PCall 0 ReplyLost, PCall 1 Delivered, PRead 1, PCall 0 Delivered,
     PCall 1 Delivered, PRead 0, PRead 1, PHead 0 True, PHead 1 True]"

theorem put_test_passes_witness:
  "\<exists>s. fold_go (put_step enc_entry dec_entry ''k'') demo_puts (put_init 2) = Inr s
    \<and> CheckPutConcurrent dec_entry ''k'' (map put_result (ps_clients s)) \<lparr>Nok = 0, Nmaybe = 0\<rparr> False (ps_kv s)
      = Inr \<lparr>Nok = 1, Nmaybe = 1\<rparr>"
proof -
  have len: "length demo_puts < 2 ^ 63" by (simp add: demo_puts_def)
  from put_test_passes [where enc = enc_entry and dec = dec_entry and key = "''k''" and n = 2, OF entry_codec len]
  obtain s where s: "fold_go (put_step enc_entry dec_entry ''k'') demo_puts (put_init 2) = Inr s"
    and check: "(\<forall>c \<in> set (ps_clients s). pcl_pc c = PutFinished) \<and> 0 < sum_list (map counted_puts (ps_clients s))
       \<longrightarrow> (\<forall>reliable. (reliable \<longrightarrow> list_all lossless demo_puts) \<longrightarrow>
             CheckPutConcurrent dec_entry ''k'' (map put_result (ps_clients s)) \<lparr>Nok = 0, Nmaybe = 0\<rparr> reliable (ps_kv s)
             = Inr \<lparr>Nok = sum_list (map pcl_nok (ps_clients s)), Nmaybe = sum_list (map pcl_nmay (ps_clients s))\<rparr>)"
    by blast
  have "ps_clients s = [\<lparr>pcl_ver = 2, pcl_nok = 0, pcl_nmay = 1, pcl_pc = PutFinished\<rparr>,
                        \<lparr>pcl_ver = 2, pcl_nok = 1, pcl_nmay = 0, pcl_pc = PutFinished\<rparr>]"
    using s
    by (simp add: demo_puts_def put_init_def put_loop_def put_read_def GetJson_def KVServer_Get_def KVServer_Put_def
        MakeKVServer_def PutReply0_def GetReply0_def entry_codec put_call_def numeral_2_eq_2 Let_def) auto
  with s check show ?thesis by (auto simp: counted_puts_def)
qed

end
