(* ===== verification/KvTestHelpers.thy ===== *)
theory KvTestHelpers
  imports KvClerk
begin

text \<open>
  The smaller helpers of \<^verbatim>\<open>src/src/kvtest1/kvtest.go\<close>, run by one client through the clerk of
  the single server: repeated puts, the check of a value, and the puts to many keys with
  which most tests of the sharded service begin.  The fates of the calls of each clerk
  operation are a list; no other client is active.
\<close>

section \<open>Puts that are repeated\<close>

abbreviation alone :: "outcome list \<Rightarrow> rnd_put list" where
  "alone outs \<equiv> map (Pair []) outs"

fun PutAtLeastOnce ::
  "string \<Rightarrow> string \<Rightarrow> outcome list list \<Rightarrow> Tversion \<Rightarrow> KVServer \<Rightarrow> (KVServer \<times> Tversion option) go" where
  "PutAtLeastOnce key value [] ver kv = Inr (kv, None)"
| "PutAtLeastOnce key value (outs # rest) ver kv =
     bind_go (Clerk_Put KVServer_Put \<lparr>pa_Key = key, pa_Value = value, pa_Version = ver\<rparr> (alone outs) kv)
       (\<lambda>((kv', n), answer). case answer of
          None \<Rightarrow> Inr (kv', None)
        | Some err \<Rightarrow>
            if err = OK then Inr (kv', Some (ver + 1))
            else if err = ErrMaybe \<or> err = ErrVersion then PutAtLeastOnce key value rest (ver + 1) kv'
            else if ver \<noteq> 0 then Inl (Fatal ''Put err'') else PutAtLeastOnce key value rest ver kv')"

text \<open>The loop of \<^verbatim>\<open>PutAtLeastOnceJson\<close> puts with version 0, whatever version it is given.\<close>

fun PutAtLeastOnceJson ::
  "string \<Rightarrow> string \<Rightarrow> outcome list list \<Rightarrow> Tversion \<Rightarrow> KVServer \<Rightarrow> (KVServer \<times> Tversion option) go" where
  "PutAtLeastOnceJson key b [] ver kv = Inr (kv, None)"
| "PutAtLeastOnceJson key b (outs # rest) ver kv =
     bind_go (Clerk_Put KVServer_Put \<lparr>pa_Key = key, pa_Value = b, pa_Version = 0\<rparr> (alone outs) kv)
       (\<lambda>((kv', n), answer). case answer of
          None \<Rightarrow> Inr (kv', None)
        | Some err \<Rightarrow> if err \<noteq> ErrMaybe then Inr (kv', Some ver) else PutAtLeastOnceJson key b rest (ver + 1) kv')"

section \<open>Checks\<close>

definition CheckGet :: "string \<Rightarrow> string \<Rightarrow> Tversion \<Rightarrow> KVServer \<Rightarrow> unit go" where
  "CheckGet key value version kv =
     (let r = KVServer_Get \<lparr>ga_Key = key\<rparr> kv in
      if gr_Err r \<noteq> OK then Inl (Fatal ''Get returns error'')
      else if gr_Value r \<noteq> value \<or> gr_Version r \<noteq> version then Inl (Fatal ''Get returns another value'')
      else Inr ())"

section \<open>Puts to many keys\<close>

definition MakeKeys :: "nat \<Rightarrow> string list" where
  "MakeKeys n = map (\<lambda>i. ''k'' @ Itoa (int i)) [0..<n]"

text \<open>
  The loop of puts of \<^verbatim>\<open>SpreadPutsSize\<close>; the result of a put is not looked at.  It ends with
  \<open>None\<close> if a clerk is still waiting for an answer.
\<close>

fun spread_puts :: "(string \<times> string) list \<Rightarrow> outcome list list \<Rightarrow> KVServer \<Rightarrow> KVServer option go" where
  "spread_puts [] outss kv = Inr (Some kv)"
| "spread_puts ((key, value) # rest) outss kv =
     bind_go (Clerk_Put KVServer_Put \<lparr>pa_Key = key, pa_Value = value, pa_Version = 0\<rparr>
         (alone (case outss of [] \<Rightarrow> [] | outs # _ \<Rightarrow> outs)) kv)
       (\<lambda>((kv', n), answer). case answer of None \<Rightarrow> Inr None | Some _ \<Rightarrow> spread_puts rest (tl outss) kv')"

fun check_gets :: "(string \<times> string) list \<Rightarrow> KVServer \<Rightarrow> unit go" where
  "check_gets [] kv = Inr ()"
| "check_gets ((key, value) # rest) kv = bind_go (CheckGet key value 1 kv) (\<lambda>_. check_gets rest kv)"

definition SpreadPutsSize :: "string list \<Rightarrow> outcome list list \<Rightarrow> KVServer \<Rightarrow> KVServer option go" where
  "SpreadPutsSize va outss kv =
     (let kvs = zip (MakeKeys (length va)) va in
      bind_go (spread_puts kvs outss kv) (\<lambda>r. case r of
          None \<Rightarrow> Inr None | Some kv' \<Rightarrow> bind_go (check_gets kvs kv') (\<lambda>_. Inr (Some kv'))))"

section \<open>A put of the only writer\<close>

text \<open>The store with one put to a key performed.\<close>

definition put_done :: "PutArgs \<Rightarrow> KVServer \<Rightarrow> KVServer" where
  "put_done a kv = kv\<lparr>table := (table kv)(pa_Key a \<mapsto> \<lparr>Value = pa_Value a, Version = pa_Version a + 1\<rparr>)\<rparr>"

text \<open>Once the put is done, the resends change nothing; an answer comes only after it is done.\<close>

lemma lone_resend_done:
  assumes v: "current_version (table kv) (pa_Key a) = pa_Version a"
    and r: "Clerk_resend KVServer_Put a (alone outs) (put_done a kv, n) = Inr ((kv', n'), answer)"
  shows "kv' = put_done a kv \<and> (answer = None \<or> answer = Some ErrMaybe)"
  using r
proof (induction outs arbitrary: n)
  case (Cons out outs)
  have put: "KVServer_Put a (put_done a kv) = (put_done a kv, PutReply0\<lparr>pr_Err := ErrVersion\<rparr>)"
    using v by (auto simp: KVServer_Put_def put_done_def current_version_def)
  show ?case
    using Cons put by (cases out) (auto simp: call_put_def PutReply0_def)
qed simp

lemma lone_first:
  assumes "current_version (table kv) (pa_Key a) = pa_Version a"
  shows "KVServer_Put a kv = (put_done a kv, PutReply0\<lparr>pr_Err := OK\<rparr>)"
  using assms by (auto simp: KVServer_Put_def put_done_def current_version_def split: option.splits)

lemma lone_resend:
  assumes v: "current_version (table kv) (pa_Key a) = pa_Version a"
    and r: "Clerk_resend KVServer_Put a (alone outs) (kv, n) = Inr ((kv', n'), answer)" and "answer \<noteq> None"
  shows "kv' = put_done a kv \<and> (answer = Some OK \<or> answer = Some ErrMaybe)"
  using r assms(3)
proof (induction outs arbitrary: n)
  case (Cons out outs)
  show ?case
    using Cons lone_first [OF v] lone_resend_done [OF v, of outs "n + 1" kv' n' answer]
    by (cases out) (auto simp: call_put_def PutReply0_def)
qed simp

lemma lone_Put:
  assumes v: "current_version (table kv) (pa_Key a) = pa_Version a"
    and r: "Clerk_Put KVServer_Put a (alone outs) kv = Inr ((kv', n'), Some err)"
  shows "kv' = put_done a kv \<and> (err = OK \<or> err = ErrMaybe)"
proof (cases outs)
  case (Cons out rest)
  with r lone_first [OF v] lone_resend_done [OF v, of rest "1" kv' n' "Some err"]
    lone_resend [OF v, of rest 0 kv' n' "Some err"] show ?thesis
    by (cases out) (auto simp: call_put_def PutReply0_def)
qed (use r in simp)

text \<open>The clerk does not stop with an error, and it answers once a call is answered.\<close>

lemma lone_resend_returns:
  assumes "kv = kv0 \<and> current_version (table kv0) (pa_Key a) = pa_Version a \<or> kv = put_done a kv0"
  shows "\<exists>sn answer. Clerk_resend KVServer_Put a (alone outs) (kv, n) = Inr (sn, answer)
    \<and> (Delivered \<in> set outs \<longrightarrow> answer \<noteq> None)"
  using assms
proof (induction outs arbitrary: kv n)
  case (Cons out outs)
  have put: "KVServer_Put a (put_done a kv0) = (put_done a kv0, PutReply0\<lparr>pr_Err := ErrVersion\<rparr>)"
    by (auto simp: KVServer_Put_def put_done_def)
  show ?case
    using Cons.prems Cons.IH put lone_first [of kv0 a] by (cases out) (auto simp: call_put_def PutReply0_def)
qed auto

lemma lone_Put_returns:
  assumes v: "current_version (table kv) (pa_Key a) = pa_Version a"
  shows "\<exists>sn answer. Clerk_Put KVServer_Put a (alone outs) kv = Inr (sn, answer)
    \<and> (Delivered \<in> set outs \<longrightarrow> answer \<noteq> None)"
proof (cases outs)
  case (Cons out rest)
  with lone_first [OF v] lone_resend_returns [of kv kv a rest 0] lone_resend_returns [of "put_done a kv" kv a rest 1] v
  show ?thesis by (cases out) (auto simp: call_put_def PutReply0_def)
qed auto

text \<open>A put with an old version changes nothing.\<close>

lemma stale_resend:
  assumes "KVServer_Put a kv = (kv, PutReply0\<lparr>pr_Err := ErrVersion\<rparr>)"
  shows "\<exists>n' answer. Clerk_resend KVServer_Put a (alone outs) (kv, n) = Inr ((kv, n'), answer)
    \<and> (answer = None \<or> answer = Some ErrMaybe)"
  using assms
proof (induction outs arbitrary: n)
  case (Cons out outs)
  then show ?case by (cases out) (auto simp: call_put_def PutReply0_def)
qed simp

lemma stale_Put:
  assumes "current_version (table kv) (pa_Key a) \<noteq> pa_Version a" and "table kv (pa_Key a) \<noteq> None"
  shows "\<exists>n' answer. Clerk_Put KVServer_Put a (alone outs) kv = Inr ((kv, n'), answer)
    \<and> (answer = None \<or> answer = Some ErrMaybe \<or> answer = Some ErrVersion)"
proof -
  have put: "KVServer_Put a kv = (kv, PutReply0\<lparr>pr_Err := ErrVersion\<rparr>)"
    using assms by (auto simp: KVServer_Put_def current_version_def)
  then show ?thesis
  proof (cases outs)
    case (Cons out rest)
    with put stale_resend [OF put, of rest 0] show ?thesis
      by (cases out) (auto simp: call_put_def PutReply0_def)
  qed auto
qed

section \<open>What the helpers achieve\<close>

lemma current_put_done: "current_version (table (put_done a kv)) (pa_Key a) = pa_Version a + 1"
  by (simp add: current_version_def put_done_def)

text \<open>
  \<^verbatim>\<open>PutAtLeastOnce\<close> of a client that is the only writer of a key, called with a version that
  the key has reached, does not end in a fatal error, and when it returns a version, the
  server stores the value under exactly this version.
\<close>

theorem PutAtLeastOnce_stores:
  assumes "unat ver \<le> unat (current_version (table kv) key)"
    and "unat (current_version (table kv) key) + length outss < 2 ^ 64"
  shows "\<exists>kv' r. PutAtLeastOnce key value outss ver kv = Inr (kv', r)
    \<and> (\<forall>ver'. r = Some ver' \<longrightarrow> table kv' key = Some \<lparr>Value = value, Version = ver'\<rparr>)"
  using assms
proof (induction outss arbitrary: ver kv)
  case (Cons outs outss)
  let ?a = "\<lparr>pa_Key = key, pa_Value = value, pa_Version = ver\<rparr>" and ?cur = "current_version (table kv) key"
  have small: "unat (v + 1) = unat v + 1" if "unat v \<le> unat ?cur" for v :: Tversion
    using that Cons.prems(2) by (simp add: unat_word_ariths)
  show ?case
  proof (cases "ver = ?cur")
    case True
    then have v: "current_version (table kv) (pa_Key ?a) = pa_Version ?a" by simp
    obtain kv' n answer where r: "Clerk_Put KVServer_Put ?a (alone outs) kv = Inr ((kv', n), answer)"
      using lone_Put_returns [OF v, of outs] by auto
    show ?thesis
    proof (cases answer)
      case (Some err)
      with lone_Put [OF v, of outs kv' n err] r have d: "kv' = put_done ?a kv" "err = OK \<or> err = ErrMaybe" by auto
      have cur: "current_version (table kv') key = ver + 1" using current_put_done [of ?a kv] d by simp
      have "unat (ver + 1) = unat ver + 1" using small [of ver] True by simp
      then have IH: "\<exists>kv'' r. PutAtLeastOnce key value outss (ver + 1) kv' = Inr (kv'', r)
          \<and> (\<forall>ver'. r = Some ver' \<longrightarrow> table kv'' key = Some \<lparr>Value = value, Version = ver'\<rparr>)"
        using Cons.prems(2) True by (intro Cons.IH) (simp_all add: cur)
      have stored: "table kv' key = Some \<lparr>Value = value, Version = ver + 1\<rparr>" using d by (simp add: put_done_def)
      from d(2) show ?thesis using IH stored r Some by auto
    qed (use r in simp)
  next
    case False
    then have "unat ver < unat ?cur" using Cons.prems(1) by (metis le_neq_implies_less word_unat_eq_iff)
    moreover from this have "table kv key \<noteq> None" by (cases "table kv key") (auto simp: current_version_def)
    ultimately show ?thesis
      using stale_Put [of kv ?a outs] False Cons.IH [of "ver + 1" kv] Cons.prems small [of ver] by auto
  qed
qed simp

lemma spread_puts_stored:
  assumes "distinct (map fst kvs)" and "\<forall>k \<in> fst ` set kvs. table kv k = None"
  shows "\<exists>r. spread_puts kvs outss kv = Inr r
    \<and> ((\<forall>outs \<in> set outss. Delivered \<in> set outs) \<and> length kvs \<le> length outss \<longrightarrow> r \<noteq> None)
    \<and> (\<forall>kv'. r = Some kv' \<longrightarrow> (\<forall>k. table kv' k =
          (case map_of kvs k of Some value \<Rightarrow> Some \<lparr>Value = value, Version = 1\<rparr> | None \<Rightarrow> table kv k)))"
  using assms
proof (induction kvs arbitrary: outss kv)
  case (Cons x rest)
  obtain key val where x: "x = (key, val)" by (cases x)
  let ?a = "\<lparr>pa_Key = key, pa_Value = val, pa_Version = 0\<rparr>"
  let ?outs = "case outss of [] \<Rightarrow> [] | outs # _ \<Rightarrow> outs"
  have v: "current_version (table kv) (pa_Key ?a) = pa_Version ?a"
    using Cons.prems x by (simp add: current_version_def)
  obtain kv1 n answer where r: "Clerk_Put KVServer_Put ?a (alone ?outs) kv = Inr ((kv1, n), answer)"
    and ans: "Delivered \<in> set ?outs \<longrightarrow> answer \<noteq> None"
    using lone_Put_returns [OF v, of ?outs] by auto
  show ?case
  proof (cases answer)
    case None
    with r ans x show ?thesis by (cases outss) auto
  next
    case (Some err)
    have kv1: "kv1 = put_done ?a kv" using lone_Put [OF v] r Some by simp
    have absent: "\<forall>k \<in> fst ` set rest. table kv1 k = None"
      using Cons.prems x by (auto simp: kv1 put_done_def)
    have d: "distinct (map fst rest)" and new: "map_of rest key = None"
      using Cons.prems(1) x by (auto simp: map_of_eq_None_iff)
    have run: "spread_puts (x # rest) outss kv = spread_puts rest (tl outss) kv1"
      using r Some x by simp
    obtain r1 where r1: "spread_puts rest (tl outss) kv1 = Inr r1"
      "(\<forall>outs \<in> set (tl outss). Delivered \<in> set outs) \<and> length rest \<le> length (tl outss) \<longrightarrow> r1 \<noteq> None"
      "\<forall>kv'. r1 = Some kv' \<longrightarrow> (\<forall>k. table kv' k =
          (case map_of rest k of Some value \<Rightarrow> Some \<lparr>Value = value, Version = 1\<rparr> | None \<Rightarrow> table kv1 k))"
      using Cons.IH [OF d absent, of "tl outss"] by blast
    have "(case map_of rest k of Some value \<Rightarrow> Some \<lparr>Value = value, Version = 1\<rparr> | None \<Rightarrow> table kv1 k)
        = (case map_of (x # rest) k of Some value \<Rightarrow> Some \<lparr>Value = value, Version = 1\<rparr> | None \<Rightarrow> table kv k)" for k
      using new x by (auto simp: kv1 put_done_def split: option.split)
    moreover have "(\<forall>outs \<in> set outss. Delivered \<in> set outs) \<and> length (x # rest) \<le> length outss \<longrightarrow> r1 \<noteq> None"
      using r1(2) by (cases outss) auto
    ultimately show ?thesis using run r1(1,3) by simp
  qed
qed simp

lemma check_gets_ok:
  "\<forall>(k, v) \<in> set kvs. table kv k = Some \<lparr>Value = v, Version = 1\<rparr> \<Longrightarrow> check_gets kvs kv = Inr ()"
  by (induction kvs) (auto simp: CheckGet_def KVServer_Get_def GetReply0_def)

lemma MakeKeys_distinct: "distinct (MakeKeys n)" "length (MakeKeys n) = n"
  by (auto simp: MakeKeys_def distinct_map inj_on_def Itoa_def)

text \<open>
  On a fresh server \<^verbatim>\<open>SpreadPutsSize\<close> never reports an error, whatever requests and replies
  are lost, and it returns if every clerk gets an answer in the end; then all values are
  stored under their keys with version 1.
\<close>

theorem SpreadPuts_passes:
  "\<exists>r. SpreadPutsSize va outss MakeKVServer = Inr r
    \<and> ((\<forall>outs \<in> set outss. Delivered \<in> set outs) \<and> length va \<le> length outss \<longrightarrow> r \<noteq> None)
    \<and> (\<forall>kv. r = Some kv \<longrightarrow>
         (\<forall>i < length va. table kv (MakeKeys (length va) ! i) = Some \<lparr>Value = va ! i, Version = 1\<rparr>))"
proof -
  let ?kvs = "zip (MakeKeys (length va)) va"
  have d: "distinct (map fst ?kvs)" by (simp add: MakeKeys_distinct)
  have empty: "\<forall>k \<in> fst ` set ?kvs. table MakeKVServer k = None" by (simp add: MakeKVServer_def)
  obtain r where r: "spread_puts ?kvs outss MakeKVServer = Inr r"
    "(\<forall>outs \<in> set outss. Delivered \<in> set outs) \<and> length va \<le> length outss \<longrightarrow> r \<noteq> None"
    and tab: "\<And>kv k. r = Some kv \<Longrightarrow> table kv k =
      (case map_of ?kvs k of Some value \<Rightarrow> Some \<lparr>Value = value, Version = 1\<rparr> | None \<Rightarrow> table MakeKVServer k)"
    using spread_puts_stored [OF d empty, of outss] by (auto simp: MakeKeys_distinct)
  have stored: "table kv k = Some \<lparr>Value = v, Version = 1\<rparr>" if "r = Some kv" "(k, v) \<in> set ?kvs" for kv k v
    using tab [OF that(1)] map_of_is_SomeI [OF d that(2)] by simp
  have "check_gets ?kvs kv = Inr ()" if "r = Some kv" for kv
    by (rule check_gets_ok) (use stored [OF that] in auto)
  moreover have "(MakeKeys (length va) ! i, va ! i) \<in> set ?kvs" if "i < length va" for i
    using that by (auto simp: set_zip MakeKeys_distinct)
  ultimately show ?thesis
    using r stored by (cases r) (auto simp: SpreadPutsSize_def Let_def)
qed

text \<open>
  \<^verbatim>\<open>PutAtLeastOnceJson\<close> called with the version the key has does not store the value: it puts
  with version 0, gets \<^verbatim>\<open>ErrVersion\<close> and stops.
\<close>

lemma PutAtLeastOnceJson_ignores_version:
  assumes "table kv key = Some \<lparr>Value = old, Version = 1\<rparr>"
  shows "PutAtLeastOnceJson key b [[Delivered]] 1 kv = Inr (kv, Some 1)"
  using assms by (simp add: call_put_def KVServer_Put_def PutReply0_def)

theorem PutAtLeastOnce_stores_witness:
  "\<exists>kv'. PutAtLeastOnce ''k'' ''v'' [[ReplyLost, Delivered], [Delivered]] 0 MakeKVServer = Inr (kv', Some 2)
    \<and> table kv' ''k'' = Some \<lparr>Value = ''v'', Version = 2\<rparr>"
proof -
  let ?outss = "[[ReplyLost, Delivered], [Delivered]]"
  have "unat (0 :: Tversion) \<le> unat (current_version (table MakeKVServer) ''k'')"
    "unat (current_version (table MakeKVServer) ''k'') + length ?outss < 2 ^ 64"
    by (simp_all add: current_version_def MakeKVServer_def)
  from PutAtLeastOnce_stores [OF this, of "''v''"] obtain kv' r
    where r: "PutAtLeastOnce ''k'' ''v'' ?outss 0 MakeKVServer = Inr (kv', r)"
      and s: "\<forall>ver'. r = Some ver' \<longrightarrow> table kv' ''k'' = Some \<lparr>Value = ''v'', Version = ver'\<rparr>" by blast
  have "r = Some 2" using r by (simp add: call_put_def KVServer_Put_def MakeKVServer_def PutReply0_def)
  with r s show ?thesis by blast
qed

theorem SpreadPuts_passes_witness:
  "\<exists>kv. SpreadPutsSize [''a'', ''b''] [[RequestLost, Delivered], [ReplyLost, Delivered]] MakeKVServer = Inr (Some kv)
    \<and> table kv (MakeKeys 2 ! 1) = Some \<lparr>Value = ''b'', Version = 1\<rparr>"
proof -
  let ?outss = "[[RequestLost, Delivered], [ReplyLost, Delivered]]"
  obtain r where r: "SpreadPutsSize [''a'', ''b''] ?outss MakeKVServer = Inr r"
    and some: "(\<forall>outs \<in> set ?outss. Delivered \<in> set outs) \<and> length [''a'', ''b''] \<le> length ?outss \<longrightarrow> r \<noteq> None"
    and stored: "\<forall>kv. r = Some kv \<longrightarrow> (\<forall>i < length [''a'', ''b'']. table kv (MakeKeys (length [''a'', ''b'']) ! i)
        = Some \<lparr>Value = [''a'', ''b''] ! i, Version = 1\<rparr>)"
    using SpreadPuts_passes [of "[''a'', ''b'']" ?outss] by blast
  from some obtain kv where kv: "r = Some kv" by auto
  from stored kv have "table kv (MakeKeys (length [''a'', ''b'']) ! 1) = Some \<lparr>Value = [''a'', ''b''] ! 1, Version = 1\<rparr>"
    by force
  with r kv show ?thesis by (auto simp: numeral_2_eq_2)
qed

end
