(* ===== verification/Annotations.thy ===== *)
theory Annotations
  imports Prelude "HOL-Library.AList"
begin

text \<open>
  The annotations a test collects for the visualizer (\<^verbatim>\<open>src/src/tester1/annotation.go\<close>,
  \<^verbatim>\<open>src/src/tester1/annotator.go\<close>): points, intervals, continuous annotations that last until
  the next one of their tag, and the description of the current faults.  Readings of the
  clock are arguments; the order in which Go visits the continuous annotations is that of
  the association list.  The rendering itself is third-party code.
\<close>

section \<open>The collection\<close>

record pAnnotation =
  an_Tag :: string
  an_Start :: int
  an_End :: int
  an_Description :: string
  an_Details :: string
  an_BackgroundColor :: string

record Continuous =
  cont_start :: int
  cont_desp :: string
  cont_details :: string
  cont_bgcolor :: string

abbreviation Continuous0 :: Continuous where
  "Continuous0 \<equiv> \<lparr>cont_start = 0, cont_desp = [], cont_details = [], cont_bgcolor = []\<rparr>"

record Annotation =
  annotations :: "pAnnotation list"
  continuous :: "(string \<times> Continuous) list"
  finalized :: bool


definition an_clear :: "Annotation \<Rightarrow> Annotation" where
  "an_clear an = an\<lparr>annotations := [], continuous := [], finalized := False\<rparr>"

definition annotatePointColor ::
  "int \<Rightarrow> string \<Rightarrow> string \<Rightarrow> string \<Rightarrow> string \<Rightarrow> Annotation \<Rightarrow> Annotation" where
  "annotatePointColor t tag desp details bgcolor an = an\<lparr>annotations := annotations an @
     [\<lparr>an_Tag = tag, an_Start = t, an_End = 0, an_Description = desp, an_Details = details,
       an_BackgroundColor = bgcolor\<rparr>]\<rparr>"

definition annotateIntervalColor ::
  "int \<Rightarrow> string \<Rightarrow> int \<Rightarrow> string \<Rightarrow> string \<Rightarrow> string \<Rightarrow> Annotation \<Rightarrow> Annotation" where
  "annotateIntervalColor t tag start desp details bgcolor an = an\<lparr>annotations := annotations an @
     [\<lparr>an_Tag = tag, an_Start = start, an_End = t, an_Description = desp, an_Details = details,
       an_BackgroundColor = bgcolor\<rparr>]\<rparr>"

definition concretize :: "int \<Rightarrow> string \<Rightarrow> Continuous \<Rightarrow> pAnnotation" where
  "concretize t tag cont = \<lparr>an_Tag = tag, an_Start = cont_start cont, an_End = t,
     an_Description = cont_desp cont, an_Details = cont_details cont, an_BackgroundColor = cont_bgcolor cont\<rparr>"

definition annotateContinuousColor ::
  "int \<Rightarrow> string \<Rightarrow> string \<Rightarrow> string \<Rightarrow> string \<Rightarrow> Annotation \<Rightarrow> Annotation" where
  "annotateContinuousColor t tag desp details bgcolor an =
     (let new = \<lparr>cont_start = t, cont_desp = desp, cont_details = details, cont_bgcolor = bgcolor\<rparr> in
      case map_of (continuous an) tag of
        None \<Rightarrow> an\<lparr>continuous := AList.update tag new (continuous an)\<rparr>
      | Some cont \<Rightarrow> an\<lparr>annotations := annotations an @ [concretize t tag cont],
                       continuous := AList.update tag new (continuous an)\<rparr>)"

text \<open>
  The branch for a tag without a continuous annotation is empty in the source: the zero
  value that the lookup gives is used.
\<close>

definition annotateContinuousEnd :: "int \<Rightarrow> string \<Rightarrow> Annotation \<Rightarrow> Annotation" where
  "annotateContinuousEnd t tag an =
     (let cont = (case map_of (continuous an) tag of None \<Rightarrow> Continuous0 | Some cont \<Rightarrow> cont) in
      an\<lparr>annotations := annotations an @ [concretize t tag cont],
         continuous := AList.delete tag (continuous an)\<rparr>)"

definition an_finalize :: "int \<Rightarrow> Annotation \<Rightarrow> pAnnotation list \<times> Annotation" where
  "an_finalize t an =
     (annotations an @ map (\<lambda>(tag, cont). concretize t tag cont) (continuous an), an\<lparr>finalized := True\<rparr>)"

abbreviation COLOR_INFO :: string where "COLOR_INFO \<equiv> ''#FAFAFA''"
abbreviation COLOR_NEUTRAL :: string where "COLOR_NEUTRAL \<equiv> ''#FFECB3''"
abbreviation COLOR_SUCCESS :: string where "COLOR_SUCCESS \<equiv> ''#C8E6C9''"
abbreviation COLOR_FAILURE :: string where "COLOR_FAILURE \<equiv> ''#FFCDD2''"
abbreviation COLOR_FAULT :: string where "COLOR_FAULT \<equiv> ''#B3E5FC''"
abbreviation COLOR_USER :: string where "COLOR_USER \<equiv> ''#FFF176''"

definition TAG_CHECKER :: string where "TAG_CHECKER = ''$ Checker''"
definition TAG_PARTITION :: string where "TAG_PARTITION = ''$ Failure''"
definition TAG_INFO :: string where "TAG_INFO = ''$ Test Info''"

definition end_note :: "int \<Rightarrow> string \<Rightarrow> pAnnotation" where
  "end_note t end = \<lparr>an_Tag = TAG_INFO, an_Start = t, an_End = 0, an_Description = end, an_Details = end,
     an_BackgroundColor = COLOR_INFO\<rparr>"

definition FinalizeAnnotations :: "int \<Rightarrow> int \<Rightarrow> string \<Rightarrow> Annotation \<Rightarrow> pAnnotation list \<times> Annotation" where
  "FinalizeAnnotations t1 t2 end an = (case an_finalize t1 an of (as, an) \<Rightarrow> (as @ [end_note t2 end], an))"

text \<open>
  \<^verbatim>\<open>cleanup\<close>: \<open>enabled\<close> is the variable \<^verbatim>\<open>VIS_ENABLE\<close>, \<open>opened\<close> tells whether the file could be
  created; the result is what is handed to the visualizer, if anything.
\<close>

definition an_cleanup ::
  "string \<Rightarrow> bool \<Rightarrow> int \<Rightarrow> int \<Rightarrow> bool \<Rightarrow> string \<Rightarrow> Annotation \<Rightarrow> Annotation \<times> pAnnotation list option" where
  "an_cleanup enabled opened t1 t2 failed end an =
     (if enabled = ''never'' \<or> (\<not> failed \<and> enabled \<noteq> ''always'') \<or> finalized an
      then (an_clear an, None)
      else case an_finalize t1 an of (as, an) \<Rightarrow>
        if as = [] \<or> \<not> opened then (an, None) else (an, Some (as @ [end_note t2 end])))"

section \<open>What the framework knows\<close>

record CheckerBegin =
  cb_ts :: int
  cb_details :: string

record FrameworkInfo =
  nservers :: nat
  fi_connected :: "bool list"
  fi_crashed :: "bool list"
  ckbegin :: CheckerBegin


type_synonym annot_state = "Annotation \<times> FrameworkInfo"


definition AnnotateCheckerBegin :: "int \<Rightarrow> string \<Rightarrow> annot_state \<Rightarrow> annot_state" where
  "AnnotateCheckerBegin t details st =
     (fst st, (snd st)\<lparr>ckbegin := \<lparr>cb_ts = t, cb_details = details\<rparr>\<rparr>)"

text \<open>The last assignment of \<^verbatim>\<open>AnnotateCheckerEnd\<close> goes to a copy and is lost.\<close>

definition AnnotateCheckerEnd :: "int \<Rightarrow> string \<Rightarrow> string \<Rightarrow> string \<Rightarrow> annot_state \<Rightarrow> annot_state" where
  "AnnotateCheckerEnd t desp details color st =
     (let cb = ckbegin (snd st) in
      if cb_ts cb = 0 then (annotatePointColor t TAG_CHECKER desp details color (fst st), snd st)
      else (annotateIntervalColor t TAG_CHECKER (cb_ts cb) desp (cb_details cb @ '': '' @ details) color (fst st),
            snd st))"

definition AnnotateCheckerSuccess :: "int \<Rightarrow> string \<Rightarrow> string \<Rightarrow> annot_state \<Rightarrow> annot_state" where
  "AnnotateCheckerSuccess t desp details = AnnotateCheckerEnd t desp details COLOR_SUCCESS"

definition AnnotateCheckerFailure :: "int \<Rightarrow> string \<Rightarrow> string \<Rightarrow> annot_state \<Rightarrow> annot_state" where
  "AnnotateCheckerFailure t desp details = AnnotateCheckerEnd t desp details COLOR_FAILURE"

definition AnnotateCheckerNeutral :: "int \<Rightarrow> string \<Rightarrow> string \<Rightarrow> annot_state \<Rightarrow> annot_state" where
  "AnnotateCheckerNeutral t desp details = AnnotateCheckerEnd t desp details COLOR_NEUTRAL"

subsection \<open>Faults\<close>

text \<open>\<^verbatim>\<open>%v\<close> of a slice of numbers.\<close>

fun join_spaces :: "string list \<Rightarrow> string" where
  "join_spaces [] = []"
| "join_spaces [x] = x"
| "join_spaces (x # y # zs) = x @ '' '' @ join_spaces (y # zs)"

definition format_ints :: "int list \<Rightarrow> string" where
  "format_ints is = ''['' @ join_spaces (map Itoa is) @ '']''"

fun fault_loop ::
  "int \<Rightarrow> bool list \<Rightarrow> bool list \<Rightarrow> string \<times> int list \<times> int list \<Rightarrow> (string \<times> int list \<times> int list) go" where
  "fault_loop k [] crashed acc = Inr acc"
| "fault_loop k (c # cs) crashed (b, conn, crashes) =
     bind_go (go_nth crashed k) (\<lambda>cr.
       if cr then fault_loop (k + 1) cs crashed (b, conn, crashes @ [k])
       else if c then fault_loop (k + 1) cs crashed (b, conn @ [k], crashes)
       else fault_loop (k + 1) cs crashed (b @ ''['' @ Itoa k @ ''] '', conn, crashes))"

definition fault_text :: "FrameworkInfo \<Rightarrow> string go" where
  "fault_text fi =
     bind_go (fault_loop 0 (fi_connected fi) (fi_crashed fi) (''partition = '', [], [])) (\<lambda>(b, conn, crashes).
       Inr (b @ (if conn \<noteq> [] then format_ints conn else [])
              @ (if crashes \<noteq> [] then '' / crash = '' @ format_ints crashes else [])))"

definition no_fault :: "FrameworkInfo \<Rightarrow> bool" where
  "no_fault fi = (fi_connected fi = replicate (nservers fi) True \<and> fi_crashed fi = replicate (nservers fi) False)"

definition annotateFault :: "int \<Rightarrow> annot_state \<Rightarrow> annot_state go" where
  "annotateFault t st =
     (if no_fault (snd st) then Inr (annotateContinuousEnd t TAG_PARTITION (fst st), snd st)
      else bind_go (fault_text (snd st)) (\<lambda>text.
        Inr (annotateContinuousColor t TAG_PARTITION text text COLOR_FAULT (fst st), snd st)))"



definition AnnotateTwoPartitions :: "int \<Rightarrow> int list \<Rightarrow> int list \<Rightarrow> annot_state \<Rightarrow> annot_state" where
  "AnnotateTwoPartitions t p1 p2 st =
     (let text = ''partition = '' @ format_ints p1 @ '' '' @ format_ints p2 in
      (annotateContinuousColor t TAG_PARTITION text text COLOR_FAULT (fst st), snd st))"


definition mark_servers :: "bool \<Rightarrow> int list \<Rightarrow> bool list \<Rightarrow> (bool \<times> bool list) go" where
  "mark_servers b servers crashed = fold_go (\<lambda>k st.
     bind_go (go_nth (snd st) k) (\<lambda>old.
     bind_go (go_update (snd st) k b) (\<lambda>cs. Inr (fst st \<or> old \<noteq> b, cs)))) servers (False, crashed)"

definition AnnotateShutdown :: "int \<Rightarrow> int list \<Rightarrow> annot_state \<Rightarrow> annot_state go" where
  "AnnotateShutdown t servers st =
     bind_go (mark_servers True servers (fi_crashed (snd st))) (\<lambda>(changed, cs).
       let st = (fst st, (snd st)\<lparr>fi_crashed := cs\<rparr>) in if \<not> changed then Inr st else annotateFault t st)"

definition AnnotateShutdownAll :: "int \<Rightarrow> annot_state \<Rightarrow> annot_state go" where
  "AnnotateShutdownAll t st = AnnotateShutdown t (map int [0..<nservers (snd st)]) st"

definition AnnotateRestart :: "int \<Rightarrow> int list \<Rightarrow> annot_state \<Rightarrow> annot_state go" where
  "AnnotateRestart t servers st =
     bind_go (mark_servers False servers (fi_crashed (snd st))) (\<lambda>(changed, cs).
       let st = (fst st, (snd st)\<lparr>fi_crashed := cs\<rparr>) in if \<not> changed then Inr st else annotateFault t st)"

definition AnnotateRestartAll :: "int \<Rightarrow> annot_state \<Rightarrow> annot_state go" where
  "AnnotateRestartAll t st = AnnotateRestart t (map int [0..<nservers (snd st)]) st"

section \<open>Calls from the processes of the servers\<close>

text \<open>The call reaches the tester or not; a timestamp that does not come back is 0.\<close>

definition PostAnnotatorPoint :: "bool \<Rightarrow> int \<Rightarrow> string \<Rightarrow> string \<Rightarrow> string \<Rightarrow> Annotation \<Rightarrow> Annotation" where
  "PostAnnotatorPoint arrives t tag desp details an =
     (if arrives then annotatePointColor t tag desp details COLOR_USER an else an)"

definition GetAnnotatorTimestamp :: "bool \<Rightarrow> int \<Rightarrow> int" where
  "GetAnnotatorTimestamp answered t = (if answered then t else 0)"

definition PostAnnotatorInfoInterval ::
  "bool \<Rightarrow> int \<Rightarrow> int \<Rightarrow> string \<Rightarrow> string \<Rightarrow> Annotation \<Rightarrow> Annotation" where
  "PostAnnotatorInfoInterval arrives t start desp details an =
     (if arrives then annotateIntervalColor t TAG_INFO start desp details COLOR_INFO an else an)"

section \<open>The annotation of faults is current\<close>

definition fi_wf :: "FrameworkInfo \<Rightarrow> bool" where
  "fi_wf fi = (length (fi_connected fi) = nservers fi \<and> length (fi_crashed fi) = nservers fi)"

text \<open>What the continuous annotation of faults says, if there is one.\<close>

definition fault_shown :: "Annotation \<Rightarrow> string option" where
  "fault_shown an = map_option cont_desp (map_of (continuous an) TAG_PARTITION)"

definition fault_due :: "FrameworkInfo \<Rightarrow> string option" where
  "fault_due fi = (if no_fault fi then None
     else case fault_text fi of Inl _ \<Rightarrow> None | Inr text \<Rightarrow> Some text)"






lemma shown_simps [simp]:
  "fault_shown (annotateContinuousEnd t TAG_PARTITION an) = None"
  "fault_shown (annotateContinuousColor t TAG_PARTITION desp details color an) = Some desp"
  "tag \<noteq> TAG_PARTITION \<Longrightarrow> fault_shown (annotateContinuousColor t tag desp details color an) = fault_shown an"
  "fault_shown (annotatePointColor t tag desp details color an) = fault_shown an"
  "fault_shown (annotateIntervalColor t tag start desp details color an) = fault_shown an"
  by (auto simp: fault_shown_def annotateContinuousEnd_def annotateContinuousColor_def annotatePointColor_def
      annotateIntervalColor_def Let_def AList.update_conv' AList.delete_conv' split: option.splits)






lemma fault_due_ckbegin [simp]: "fault_due (fi\<lparr>ckbegin := cb\<rparr>) = fault_due fi" "fi_wf (fi\<lparr>ckbegin := cb\<rparr>) = fi_wf fi"
  by (simp_all add: fault_due_def fault_text_def no_fault_def fi_wf_def)




section \<open>Two slips\<close>

text \<open>Ending a continuous annotation that was never begun adds an empty interval from time 0.\<close>

lemma ContinuousEnd_without_begin:
  "map_of (continuous an) tag = None \<Longrightarrow>
   annotations (annotateContinuousEnd t tag an) = annotations an @ [concretize t tag Continuous0]"
  by (simp add: annotateContinuousEnd_def)

text \<open>A check without a beginning of its own is drawn from the beginning of the previous one.\<close>

lemma CheckerEnd_does_not_reset:
  assumes "t0 \<noteq> 0"
  shows "annotations (fst (AnnotateCheckerEnd t2 d2 x2 c2 (AnnotateCheckerEnd t1 d1 x1 c1 (AnnotateCheckerBegin t0 d st))))
    = annotations (fst st)
      @ [\<lparr>an_Tag = TAG_CHECKER, an_Start = t0, an_End = t1, an_Description = d1, an_Details = d @ '': '' @ x1,
          an_BackgroundColor = c1\<rparr>,
         \<lparr>an_Tag = TAG_CHECKER, an_Start = t0, an_End = t2, an_Description = d2, an_Details = d @ '': '' @ x2,
          an_BackgroundColor = c2\<rparr>]"
  using assms by (simp add: AnnotateCheckerEnd_def AnnotateCheckerBegin_def annotateIntervalColor_def Let_def)

end
