(* ===== verification/Spec2Isabelle.thy ===== *)
theory Spec2Isabelle
  imports RaftCluster RaftTimer RaftChecks DistLock ShardClient MrJob DemuxRuns SockRpc TestNetRuns
    KvPutTest KvTestHelpers Annotations
begin

text \<open>
  Verification of the Go programs of the 6.5840 labs in this repository: a MapReduce system,
  a key/value server with a lock on top of it, Raft, a replicated key/value service, a
  sharded key/value service with its controller, and the simulated network and the test
  harness they run on.  All paths below are relative to \<^verbatim>\<open>src/src\<close>.

  \<^bold>\<open>How the program is put together.\<close>  Servers and clients exchange RPCs over the simulated
  network \<^verbatim>\<open>labrpc\<close>, which may lose, delay and reorder messages; values travel in the
  encoding of \<^verbatim>\<open>labgob\<close>.  In the labs a server is a process of its own whose calls go
  through sockets multiplexed by \<^verbatim>\<open>tester1/demux\<close>.  \<^verbatim>\<open>kvsrv1\<close> is one server with versioned
  values; \<^verbatim>\<open>kvsrv1/lock\<close> builds a lock from its conditional Put.  \<^verbatim>\<open>raft1\<close> replicates a log
  and saves its state in a persister; \<^verbatim>\<open>kvraft1/rsm\<close> turns the log into a replicated state
  machine, which \<^verbatim>\<open>kvraft1\<close> instantiates with the key/value service and \<^verbatim>\<open>shardkv1/shardgrp\<close>
  with the server of a shard group.  \<^verbatim>\<open>shardkv1/shardctrler\<close> moves shards between groups
  following configurations of \<^verbatim>\<open>shardkv1/shardcfg\<close>, which it stores in a \<^verbatim>\<open>kvsrv1\<close> server;
  \<^verbatim>\<open>shardkv1/client.go\<close> finds the group of a key.  \<^verbatim>\<open>mr\<close> is independent of the rest.

  \<^bold>\<open>The theories.\<close>

  \<^item> \<^verbatim>\<open>Prelude\<close>: results of Go code (a panic and \<^verbatim>\<open>log.Fatalf\<close> are values), checked slice
    accesses, the clock, the hash function of keys.

  \<^item> \<^verbatim>\<open>LabGob\<close> (\<^verbatim>\<open>labgob/labgob.go\<close>): the walk over the type of an encoded value and over
    the target of a decoding.  It returns on cyclic types and counts what it should.

  \<^item> \<^verbatim>\<open>LabRpc\<close>, \<^verbatim>\<open>LabRpcRuns\<close> (\<^verbatim>\<open>labrpc/labrpc.go\<close>): network, client ends, servers and
    services; each request is a program counter for \<^verbatim>\<open>processReq\<close> and one for its handler,
    and events interleave requests, timers, random draws and administration.  A positive
    reply means exactly one execution, a deleted server stays silent, every call returns if
    its handler does, and \<^verbatim>\<open>reflect\<close> does not panic.

  \<^item> \<^verbatim>\<open>Demux\<close>, \<^verbatim>\<open>DemuxRuns\<close> (\<^verbatim>\<open>tester1/demux\<close>): tags, the table of outstanding calls and the
    two readers.  Replies reach the call they answer, and a broken connection releases all.

  \<^item> \<^verbatim>\<open>SockRpc\<close> (\<^verbatim>\<open>tester1/sockrpc\<close> and the forwarding of \<^verbatim>\<open>tester1/daemonsrv.go\<close>, \<^verbatim>\<open>testsrv.go\<close>):
    calls between processes.  A call runs the method it names, once, and gets its reply.

  \<^item> \<^verbatim>\<open>TestNet\<close>, \<^verbatim>\<open>TestNetRuns\<close> (\<^verbatim>\<open>tester1/group.go\<close>, \<^verbatim>\<open>srv.go\<close>, \<^verbatim>\<open>clnts.go\<close>, \<^verbatim>\<open>daemonclnt.go\<close>,
    \<^verbatim>\<open>daemonsrv.go\<close>): groups of servers on the network and the ends of clerks.  A partition
    separates its sides, the leader is put into the minority, a restarted process has the
    state that was saved last (a refinement of servers with disks), and clerks reach the
    servers they are allowed to reach.

  \<^item> \<^verbatim>\<open>Annotations\<close> (\<^verbatim>\<open>tester1/annotation.go\<close>, \<^verbatim>\<open>annotator.go\<close>): the annotations of the
    visualizer; the one about faults is always current.

  \<^item> \<^verbatim>\<open>KvStore\<close> (\<^verbatim>\<open>kvsrv1/server.go\<close>, \<^verbatim>\<open>kvsrv1/rpc\<close>, \<^verbatim>\<open>models1/kv.go\<close>): the versioned store
    and the sequential model of the linearizability checker, with the locale
    \<open>versioned_store\<close> for the contract the store, the replicated service and a shard share.

  \<^item> \<^verbatim>\<open>Persistence\<close>, \<^verbatim>\<open>RaftPeer\<close>, \<^verbatim>\<open>RaftLog\<close>, \<^verbatim>\<open>RaftReplication\<close>, \<^verbatim>\<open>RaftSteps\<close>, \<^verbatim>\<open>RaftTimer\<close>,
    \<^verbatim>\<open>RaftCluster\<close> (\<^verbatim>\<open>tester1/persister.go\<close>, \<^verbatim>\<open>raft1/raft.go\<close>): the peer with every handler and
    one pass of every loop; log matching, replication, commitment and application; a single
    peer under arbitrary events with crashes; the bounds of the election timer; a cluster over
    a lossy network, with the locale \<open>quorum_system\<close>.

  \<^item> \<^verbatim>\<open>RaftSrv\<close> (\<^verbatim>\<open>raft1/server.go\<close>, \<^verbatim>\<open>raft1/proxy.go\<close> and the log check of \<^verbatim>\<open>raft1/test.go\<close>):
    the server that applies the commands of a peer and takes snapshots.  It accepts what the
    apply loop sends, and resumes after a restart where its snapshot ends.

  \<^item> \<^verbatim>\<open>RaftChecks\<close> (\<^verbatim>\<open>raft1/test.go\<close>): the checks of leaders, terms and agreement of the Raft tests.
    \<^verbatim>\<open>checkOneLeader\<close> returns the leader of the highest term of the first round that has one,
    accepted commands are counted without contradiction, and \<^verbatim>\<open>one\<close> returns only after agreement.

  \<^item> \<^verbatim>\<open>RsmLayer\<close> (\<^verbatim>\<open>kvraft1/rsm\<close>), \<^verbatim>\<open>KvRaft\<close> (\<^verbatim>\<open>kvraft1/server.go\<close>): Submit and the reader, with
    the locale \<open>state_machine\<close> for the service above; the replicated key/value service
    refines the model of the checker, and snapshots are transparent.

  \<^item> \<^verbatim>\<open>KvClerk\<close> (\<^verbatim>\<open>kvsrv1/client.go\<close>, \<^verbatim>\<open>kvraft1/client.go\<close>), \<^verbatim>\<open>DistLock\<close>
    (\<^verbatim>\<open>kvsrv1/lock/lock.go\<close>): the retry loops and what their verdicts mean; mutual exclusion.

  \<^item> \<^verbatim>\<open>KvTest\<close>, \<^verbatim>\<open>KvPutTest\<close>, \<^verbatim>\<open>KvTestHelpers\<close> (\<^verbatim>\<open>kvtest1/kvtest.go\<close>): the clients of the append test and
    of the put test and the checks of their results, for any interleaving with lost
    messages: correct servers pass.  The helpers with which other tests fill the store.

  \<^item> \<^verbatim>\<open>ShardConfig\<close>, \<^verbatim>\<open>ShardGroup\<close>, \<^verbatim>\<open>ShardControl\<close>, \<^verbatim>\<open>ShardClient\<close> (\<^verbatim>\<open>shardkv1\<close>): balancing,
    the states of a shard at a group, configuration changes that may be cut off anywhere and
    are completed by the next controller, and the clerk of the sharded service.

  \<^item> \<^verbatim>\<open>MrCoordinator\<close>, \<^verbatim>\<open>MapReduce\<close>, \<^verbatim>\<open>MrJob\<close> (\<^verbatim>\<open>mr\<close>, \<^verbatim>\<open>mrapps\<close>, \<^verbatim>\<open>main/mrsequential.go\<close>): the task
    table, the worker split at its visible effects, and the whole job, whose output equals
    that of the sequential program under crashes and re-executed tasks; the applications
    word count, index, crash, nocrash and early exit.

  \<^bold>\<open>Conventions.\<close>  A function that holds its lock from beginning to end is one atomic step;
  one that releases it is split there.  Loops over calls consume a list of the fates of these
  calls (lost request, lost reply, answer), so that a loop that does not return is a
  list that ends; the claims that a loop returns say how many calls suffice (25 for the
  Get of a shard group, \<^verbatim>\<open>MaxRPCTimes\<close>).  Systems of several components take lists of events,
  and their theorems hold for all lists.  Go's \<^verbatim>\<open>int\<close> is HOL's \<open>int\<close>; versions, hashes, tags
  and the statistics of the network keep their width.

  \<^bold>\<open>Parameters.\<close>  The bytes of gob and JSON (functions \<open>enc\<close>, \<open>dec\<close>, \<open>nbytes\<close>, the record
  \<open>codec\<close>), the order in which Go iterates over maps and sorts equal keys, \<^verbatim>\<open>unicode.IsLetter\<close>
  and \<^verbatim>\<open>unicode.IsUpper\<close>, and what a JSON decoder finds in a text file.  Every theorem with a
  hypothesis on them has an instance.

  \<^bold>\<open>Not modelled.\<close>  The wire format of gob and of the sockets (library code and system
  calls); the starting and killing of processes (\<^verbatim>\<open>InitDaemon\<close> and \<^verbatim>\<open>runDaemon\<close> of \<^verbatim>\<open>tester1\<close>,
  \<^verbatim>\<open>main\<close>, \<^verbatim>\<open>mr/util.go\<close>) and the writing of the visualizer's file; the printing and timing of
  \<^verbatim>\<open>tester1/config.go\<close>; the search of the porcupine checker, which is third-party code; the
  loading of plugins; the MapReduce applications that measure time or count files; the
  test drivers, of which only the parts named above are modelled.
\<close>

end
